(* ===== verification/Prelude.thy ===== *)
theory Prelude
  imports Main "HOL-Library.Word"
begin

text \<open>
  Shared vocabulary of the development: the machine integer types of the RV64 target,
  the checked and saturating arithmetic of Rust's core library, the search loops over
  slices, and the view of a circular array as a list (the \<open>window\<close> of a ring buffer).
  The kernel is built with the release profile, so a plain \<open>+\<close> or \<open>-\<close> on a machine
  integer wraps around (it is the word operation) and \<open>debug_assert!\<close> is not executed.
\<close>

unbundle bit_operations_syntax

section \<open>Machine integers\<close>

type_synonym u8 = "8 word"
type_synonym u16 = "16 word"
type_synonym u32 = "32 word"
type_synonym u64 = "64 word"
type_synonym usize = "64 word"

text \<open>
  Signed results (\<open>isize\<close>, \<open>i32\<close>) of the kernel are small constants, counts and PIDs;
  they are kept as their numerical value.
\<close>

type_synonym isize = int
type_synonym i32 = int

text \<open>Collections used by the component theories.\<close>

named_theorems model_defs \<open>definitions of plain data and constants\<close>
named_theorems op_defs \<open>definitions of the operations of the component at hand\<close>

definition checked_add :: "'a::len word \<Rightarrow> 'a word \<Rightarrow> 'a word option" where
  "checked_add a b = (if unat a + unat b < 2 ^ LENGTH('a) then Some (a + b) else None)"

definition checked_mul :: "'a::len word \<Rightarrow> 'a word \<Rightarrow> 'a word option" where
  "checked_mul a b = (if unat a * unat b < 2 ^ LENGTH('a) then Some (a * b) else None)"

definition saturating_sub :: "'a::len word \<Rightarrow> 'a word \<Rightarrow> 'a word" where
  "saturating_sub a b = (if b \<le> a then a - b else 0)"

text \<open>\<open>value as isize\<close> for a \<open>usize\<close> reads the 64 bits as two's complement.\<close>

definition as_isize :: "usize \<Rightarrow> isize" where
  "as_isize w = sint w"

lemma checked_add_SomeD:
  "checked_add a b = Some c \<Longrightarrow> unat c = unat a + unat b"
  by (auto simp: checked_add_def unat_word_ariths split: if_splits)

lemma checked_add_Some_iff:
  "checked_add (a :: 'a::len word) b = Some c \<longleftrightarrow>
     unat a + unat b < 2 ^ LENGTH('a) \<and> unat c = unat a + unat b"
proof
  assume "checked_add a b = Some c"
  then show "unat a + unat b < 2 ^ LENGTH('a) \<and> unat c = unat a + unat b"
    by (auto simp: checked_add_def unat_word_ariths split: if_splits)
next
  assume *: "unat a + unat b < 2 ^ LENGTH('a) \<and> unat c = unat a + unat b"
  then have "unat (a + b) = unat c" by (simp add: unat_word_ariths)
  then have "a + b = c" by (simp add: word_unat_eq_iff)
  with * show "checked_add a b = Some c" by (simp add: checked_add_def)
qed

lemma checked_add_None_iff:
  "checked_add (a :: 'a::len word) b = None \<longleftrightarrow> 2 ^ LENGTH('a) \<le> unat a + unat b"
  by (auto simp: checked_add_def)

lemma checked_mul_SomeD:
  "checked_mul a b = Some c \<Longrightarrow> unat c = unat a * unat b"
  by (auto simp: checked_mul_def unat_word_ariths split: if_splits)

lemma unat_saturating_sub: "unat (saturating_sub a b) = unat a - unat b"
  by (auto simp: saturating_sub_def unat_sub word_le_nat_alt)

lemma unat_add_lem':
  "unat (a :: 'a::len word) + unat b < 2 ^ LENGTH('a) \<Longrightarrow> unat (a + b) = unat a + unat b"
  by (simp add: unat_word_ariths)

lemma unat_Suc_no_wrap:
  "Suc (unat (a :: 'a::len word)) < 2 ^ LENGTH('a) \<Longrightarrow> unat (a + 1) = Suc (unat a)"
  by (cases "LENGTH('a) = 1") (auto simp: unat_word_ariths)

lemma unat_u64_less: "unat (a :: u64) < 18446744073709551616"
  using unsigned_less [of a, where 'a = nat] by simp

lemma unat_u64_max: "unat (- 1 :: u64) = 18446744073709551615"
  by (simp add: unsigned_minus_1_eq_mask mask_eq_exp_minus_1)

lemma u64_eq_max_iff: "(a :: u64) = - 1 \<longleftrightarrow> 18446744073709551616 \<le> unat a + 1"
  using unat_u64_less [of a] unfolding word_unat_eq_iff unat_u64_max by linarith

lemma unat_u64_plus_1: "(c :: u64) \<noteq> - 1 \<Longrightarrow> unat (c + 1) = Suc (unat c)"
  by (rule unat_Suc_no_wrap) (simp add: u64_eq_max_iff)

lemma u64_less_neq_max: "(c :: u64) < e \<Longrightarrow> c \<noteq> - 1"
  using unat_u64_less [of e] by (simp add: u64_eq_max_iff word_less_nat_alt)

lemma u64_less_plus_1_le: "(c :: u64) < e \<Longrightarrow> c + 1 \<le> e"
  using unat_u64_plus_1 [OF u64_less_neq_max] by (simp add: word_less_nat_alt word_le_nat_alt)

lemma u64_atLeastLessThan_plus_1:
  "(c :: u64) \<noteq> - 1 \<Longrightarrow> b \<le> c \<Longrightarrow> {b..<c + 1} = insert c {b..<c}"
  using unat_u64_plus_1 [of c] by (auto simp: word_less_nat_alt word_le_nat_alt word_unat_eq_iff less_Suc_eq)

text \<open>Bit-level address arithmetic read as arithmetic on natural numbers.\<close>

lemma and_low_take_bit: "(v :: 'a::len word) AND (2 ^ n - 1) = take_bit n v"
  by (simp only: mask_eq_exp_minus_1 [symmetric] take_bit_eq_mask)

lemma unat_and_low: "unat ((v :: 'a::len word) AND (2 ^ n - 1)) = unat v mod 2 ^ n"
  by (simp only: and_low_take_bit unsigned_take_bit_eq) (simp add: take_bit_eq_mod)

lemma unat_less_take_bit: "unat (w :: 'a::len word) < 2 ^ n \<Longrightarrow> take_bit n w = w"
  by (simp only: word_unat_eq_iff unsigned_take_bit_eq) (rule take_bit_nat_eq_self)

lemma unat_less_not_bit: "unat (w :: 'a::len word) < 2 ^ n \<Longrightarrow> n \<le> k \<Longrightarrow> \<not> bit w k"
  by (metis bit_take_bit_iff not_le unat_less_take_bit)

lemma unat_shr: "unat (drop_bit n (v :: 'a::len word)) = unat v div 2 ^ n"
  by (simp only: unat_drop_bit_eq) (simp only: drop_bit_eq_div)

lemma unat_shl: "unat (push_bit n (v :: u64)) = unat v * 2 ^ n mod 2 ^ 64"
proof -
  have "unat (push_bit n v) = take_bit LENGTH(64) (push_bit n (unat v))"
    by (rule unsigned_push_bit_eq)
  then show ?thesis by (simp only: take_bit_eq_mod push_bit_eq_mult) simp
qed

section \<open>Outcomes\<close>

text \<open>
  A call either panics the kernel or returns. Loops whose termination depends on the
  arguments are partial functions: an outcome under \<open>Some\<close> is a run that ends, \<open>None\<close> is
  one that does not.
\<close>

datatype 'a run = Panic | Ret 'a

section \<open>Search loops\<close>

text \<open>\<open>iter().position(p)\<close> and \<open>(0..n).find(p)\<close>: the least index that satisfies the test.\<close>

fun position :: "('a \<Rightarrow> bool) \<Rightarrow> 'a list \<Rightarrow> nat option" where
  "position p [] = None"
| "position p (x # xs) = (if p x then Some 0 else map_option Suc (position p xs))"

lemma position_None_iff: "position p xs = None \<longleftrightarrow> (\<forall>x \<in> set xs. \<not> p x)"
  by (induction xs) auto

lemma position_SomeD:
  "position p xs = Some i \<Longrightarrow> i < length xs \<and> p (xs ! i) \<and> (\<forall>j < i. \<not> p (xs ! j))"
proof (induction xs arbitrary: i)
  case (Cons x xs)
  show ?case
  proof (cases "p x")
    case False
    with Cons.prems obtain k where k: "position p xs = Some k" "i = Suc k" by auto
    with Cons.IH [OF k(1)] False show ?thesis
      by (auto simp: nth_Cons split: nat.splits)
  qed (use Cons.prems in auto)
qed simp

lemma position_less [dest]: "position p xs = Some i \<Longrightarrow> i < length xs"
  using position_SomeD by blast

text \<open>Filtering by a test that is monotone in the position is dropping a prefix.\<close>

lemma filter_threshold:
  "(\<And>i. i < length xs \<Longrightarrow> P (xs ! i) \<longleftrightarrow> k \<le> i) \<Longrightarrow> filter P xs = drop k xs"
proof (induction xs arbitrary: k)
  case (Cons x xs)
  have tail: "P (xs ! i) \<longleftrightarrow> k \<le> Suc i" if "i < length xs" for i
    using Cons.prems [of "Suc i"] that by simp
  show ?case
  proof (cases k)
    case 0
    have "filter P xs = drop 0 xs" by (rule Cons.IH) (simp add: tail 0)
    with Cons.prems [of 0] 0 show ?thesis by simp
  next
    case (Suc m)
    have "filter P xs = drop m xs" by (rule Cons.IH) (simp add: tail Suc)
    with Cons.prems [of 0] Suc show ?thesis by simp
  qed
qed simp

text \<open>\<open>Vec::pop\<close>: the last element and the shortened vector.\<close>

definition vec_pop :: "'a list \<Rightarrow> ('a \<times> 'a list) option" where
  "vec_pop xs = (if xs = [] then None else Some (last xs, butlast xs))"

lemma vec_pop_SomeD: "vec_pop xs = Some (x, ys) \<Longrightarrow> xs = ys @ [x]"
  by (auto simp: vec_pop_def split: if_splits)

lemma vec_pop_None_iff [simp]: "vec_pop xs = None \<longleftrightarrow> xs = []"
  by (simp add: vec_pop_def)

lemma vec_pop_Nil [simp]: "vec_pop [] = None"
  by (simp add: vec_pop_def)

lemma vec_pop_append [simp]: "vec_pop (xs @ [x]) = Some (x, xs)"
  by (simp add: vec_pop_def)

section \<open>Circular arrays as lists\<close>

text \<open>
  The \<open>n\<close> entries of the array \<open>xs\<close> that start at index \<open>h\<close> and continue past the end of
  the array at its beginning.
\<close>

definition ring_window :: "'a list \<Rightarrow> nat \<Rightarrow> nat \<Rightarrow> 'a list" where
  "ring_window xs h n = map (\<lambda>i. xs ! ((h + i) mod length xs)) [0..<n]"

lemma length_ring_window [simp]: "length (ring_window xs h n) = n"
  by (simp add: ring_window_def)

lemma ring_window_0 [simp]: "ring_window xs h 0 = []"
  by (simp add: ring_window_def)

lemma nth_ring_window [simp]:
  "i < n \<Longrightarrow> ring_window xs h n ! i = xs ! ((h + i) mod length xs)"
  by (simp add: ring_window_def)

lemma ring_index_inj:
  assumes "i < L" "j < L" "(h + i) mod L = (h + j) mod (L :: nat)"
  shows "i = j"
proof -
  have aux: "a = b" if "a \<le> b" "b < L" "(h + a) mod L = (h + b) mod L" for a b
  proof -
    have "L dvd (h + b) - (h + a)"
      using that by (metis mod_eq_dvd_iff_nat nat_add_left_cancel_le)
    then have "L dvd b - a" by simp
    with that show "a = b"
      by (metis diff_is_0_eq' dvd_imp_le le_antisym less_imp_diff_less not_le zero_less_diff)
  qed
  show ?thesis
    using aux [of i j] aux [of j i] assms by (cases "i \<le> j") auto
qed

lemma ring_window_append:
  assumes "n < length xs"
  shows "ring_window (xs[(h + n) mod length xs := x]) h (Suc n) = ring_window xs h n @ [x]"
proof (rule nth_equalityI)
  fix i assume "i < length (ring_window (xs[(h + n) mod length xs := x]) h (Suc n))"
  then have i: "i < Suc n" by simp
  have less: "(h + k) mod length xs < length xs" for k
    using assms by (intro mod_less_divisor) linarith
  show "ring_window (xs[(h + n) mod length xs := x]) h (Suc n) ! i = (ring_window xs h n @ [x]) ! i"
  proof (cases "i = n")
    case True
    then show ?thesis using less by (simp add: nth_append)
  next
    case False
    with i have "i < n" by simp
    then have "(h + n) mod length xs \<noteq> (h + i) mod length xs"
      using ring_index_inj [of n "length xs" i h] assms by auto
    with \<open>i < n\<close> show ?thesis by (simp add: nth_append)
  qed
qed simp

lemma ring_window_Cons:
  "ring_window xs h (Suc n) = xs ! (h mod length xs) # ring_window xs (Suc h mod length xs) n"
proof (rule nth_equalityI)
  fix i assume "i < length (ring_window xs h (Suc n))"
  then show "ring_window xs h (Suc n) ! i
      = (xs ! (h mod length xs) # ring_window xs (Suc h mod length xs) n) ! i"
    by (cases i) (simp_all add: mod_simps)
qed simp

lemma ring_window_overwrite:
  assumes "h < length xs"
  shows "ring_window (xs[h := x]) (Suc h mod length xs) (length xs)
           = tl (ring_window xs h (length xs)) @ [x]"
proof -
  obtain m where m: "length xs = Suc m" using assms by (cases "length xs") auto
  have eq: "(Suc h mod length xs + m) mod length xs = h"
  proof -
    have "(Suc h mod length xs + m) mod length xs = (h + length xs) mod length xs"
      unfolding mod_add_left_eq by (simp add: m)
    with assms show ?thesis by simp
  qed
  have "ring_window (xs[(Suc h mod length xs + m) mod length xs := x]) (Suc h mod length xs) (Suc m)
      = ring_window xs (Suc h mod length xs) m @ [x]"
    by (rule ring_window_append) (simp add: m)
  then show ?thesis
    using ring_window_Cons [of xs h m] unfolding eq by (simp add: m)
qed

section \<open>Generic transition systems\<close>

text \<open>
  A component whose operations are run one after another on its state. An invariant that
  holds initially and is kept by every operation (under the operation's guard) holds after
  every run; component theories interpret this locale on their own step functions.
\<close>

fun run_ops :: "('op \<Rightarrow> 's \<Rightarrow> 's) \<Rightarrow> 'op list \<Rightarrow> 's \<Rightarrow> 's" where
  "run_ops f [] s = s"
| "run_ops f (x # xs) s = run_ops f xs (f x s)"

lemma run_ops_append: "run_ops f (xs @ ys) s = run_ops f ys (run_ops f xs s)"
  by (induction xs arbitrary: s) auto

locale invariant_system =
  fixes step_op :: "'op \<Rightarrow> 's \<Rightarrow> 's"
    and start :: 's
    and inv :: "'s \<Rightarrow> bool"
  assumes inv_start: "inv start"
    and inv_step: "inv s \<Longrightarrow> inv (step_op x s)"
begin

lemma inv_run_from: "inv s \<Longrightarrow> inv (run_ops step_op xs s)"
  by (induction xs arbitrary: s) (auto intro: inv_step)

lemma inv_run: "inv (run_ops step_op xs start)"
  by (rule inv_run_from [OF inv_start])

end

end
