(* ===== verification/Address.thy ===== *)
theory Address
  imports Prelude
begin

text \<open>
  Addresses and page numbers of the SV39 paging scheme (os/src/mm/address.rs and
  os/src/config.rs). The newtypes over \<open>usize\<close> are type synonyms; each conversion of the
  source is a function named after its source and target types. A conversion that asserts
  alignment returns \<open>None\<close> where the source panics.
\<close>

section \<open>Configuration\<close>

definition USER_STACK_SIZE :: usize where "USER_STACK_SIZE = 4096 * 2"
definition KERNEL_STACK_SIZE :: usize where "KERNEL_STACK_SIZE = 4096 * 2"
definition PAGE_SIZE :: usize where "PAGE_SIZE = 0x1000"
definition PAGE_SIZE_BITS :: nat where "PAGE_SIZE_BITS = 0xc"
definition TRAMPOLINE :: usize where "TRAMPOLINE = - 1 - PAGE_SIZE + 1"
definition TRAP_CONTEXT :: usize where "TRAP_CONTEXT = TRAMPOLINE - PAGE_SIZE"

definition PA_WIDTH_SV39 :: nat where "PA_WIDTH_SV39 = 56"
definition VA_WIDTH_SV39 :: nat where "VA_WIDTH_SV39 = 39"
definition PPN_WIDTH_SV39 :: nat where "PPN_WIDTH_SV39 = PA_WIDTH_SV39 - PAGE_SIZE_BITS"
definition VPN_WIDTH_SV39 :: nat where "VPN_WIDTH_SV39 = VA_WIDTH_SV39 - PAGE_SIZE_BITS"

lemmas address_consts [model_defs] =
  USER_STACK_SIZE_def KERNEL_STACK_SIZE_def PAGE_SIZE_def PAGE_SIZE_BITS_def TRAMPOLINE_def
  TRAP_CONTEXT_def PA_WIDTH_SV39_def VA_WIDTH_SV39_def PPN_WIDTH_SV39_def VPN_WIDTH_SV39_def

type_synonym PhysAddr = usize
type_synonym VirtAddr = usize
type_synonym PhysPageNum = usize
type_synonym VirtPageNum = usize

section \<open>Conversions\<close>

definition pa_from_usize :: "usize \<Rightarrow> PhysAddr" where
  "pa_from_usize v = v AND (2 ^ PA_WIDTH_SV39 - 1)"

definition ppn_from_usize :: "usize \<Rightarrow> PhysPageNum" where
  "ppn_from_usize v = v AND (2 ^ PPN_WIDTH_SV39 - 1)"

definition va_from_usize :: "usize \<Rightarrow> VirtAddr" where
  "va_from_usize v = v AND (2 ^ VA_WIDTH_SV39 - 1)"

definition vpn_from_usize :: "usize \<Rightarrow> VirtPageNum" where
  "vpn_from_usize v = v AND (2 ^ VPN_WIDTH_SV39 - 1)"

definition usize_from_va :: "VirtAddr \<Rightarrow> usize" where
  "usize_from_va v =
     (if 2 ^ (VA_WIDTH_SV39 - 1) \<le> v then v OR NOT (2 ^ VA_WIDTH_SV39 - 1) else v)"

definition va_floor :: "VirtAddr \<Rightarrow> VirtPageNum" where
  "va_floor v = v div PAGE_SIZE"

definition va_ceil :: "VirtAddr \<Rightarrow> VirtPageNum" where
  "va_ceil v = (if v = 0 then 0 else (v - 1 + PAGE_SIZE) div PAGE_SIZE)"

definition va_page_offset :: "VirtAddr \<Rightarrow> usize" where
  "va_page_offset v = v AND (PAGE_SIZE - 1)"

definition va_aligned :: "VirtAddr \<Rightarrow> bool" where
  "va_aligned v \<longleftrightarrow> va_page_offset v = 0"

definition vpn_from_va :: "VirtAddr \<Rightarrow> VirtPageNum option" where
  "vpn_from_va v = (if va_page_offset v = 0 then Some (va_floor v) else None)"

definition va_from_vpn :: "VirtPageNum \<Rightarrow> VirtAddr" where
  "va_from_vpn v = push_bit PAGE_SIZE_BITS v"

definition pa_floor :: "PhysAddr \<Rightarrow> PhysPageNum" where
  "pa_floor v = v div PAGE_SIZE"

definition pa_ceil :: "PhysAddr \<Rightarrow> PhysPageNum" where
  "pa_ceil v = (if v = 0 then 0 else (v - 1 + PAGE_SIZE) div PAGE_SIZE)"

definition pa_page_offset :: "PhysAddr \<Rightarrow> usize" where
  "pa_page_offset v = v AND (PAGE_SIZE - 1)"

definition pa_aligned :: "PhysAddr \<Rightarrow> bool" where
  "pa_aligned v \<longleftrightarrow> pa_page_offset v = 0"

definition ppn_from_pa :: "PhysAddr \<Rightarrow> PhysPageNum option" where
  "ppn_from_pa v = (if pa_page_offset v = 0 then Some (pa_floor v) else None)"

definition pa_from_ppn :: "PhysPageNum \<Rightarrow> PhysAddr" where
  "pa_from_ppn v = push_bit PAGE_SIZE_BITS v"

text \<open>\<open>VirtPageNum::indexes\<close>: the loop fills the three indices from the last to the first.\<close>

fun indexes_loop :: "nat list \<Rightarrow> usize \<Rightarrow> usize list \<Rightarrow> usize list" where
  "indexes_loop [] vpn idx = idx"
| "indexes_loop (i # is) vpn idx = indexes_loop is (drop_bit 9 vpn) (idx[i := vpn AND 511])"

definition indexes :: "VirtPageNum \<Rightarrow> usize list" where
  "indexes vpn = indexes_loop (rev [0..<3]) vpn [0, 0, 0]"

section \<open>Ranges of page numbers\<close>

record VPNRange =
  range_l :: VirtPageNum
  range_r :: VirtPageNum

definition range_new :: "VirtPageNum \<Rightarrow> VirtPageNum \<Rightarrow> VPNRange option" where
  "range_new start end' = (if start \<le> end' then Some \<lparr>range_l = start, range_r = end'\<rparr> else None)"

definition range_iter_next :: "VirtPageNum \<times> VirtPageNum \<Rightarrow> (VirtPageNum \<times> VirtPageNum \<times> VirtPageNum) option" where
  "range_iter_next it = (if fst it = snd it then None else Some (fst it, fst it + 1, snd it))"

text \<open>The items a \<open>for\<close> loop over the range sees.\<close>

function range_items :: "VirtPageNum \<Rightarrow> VirtPageNum \<Rightarrow> VirtPageNum list" where
  "range_items current end' =
     (case range_iter_next (current, end') of
        None \<Rightarrow> []
      | Some (t, c, e) \<Rightarrow> t # range_items c e)"
  by pat_completeness auto
termination
proof (relation "measure (\<lambda>(c, e). unat (e - c))")
  fix current end' t c e y x
  assume "range_iter_next (current, end') = Some x" "(t, y) = x" "(c, e) = y"
  then have ne: "end' - current \<noteq> 0" and eq: "e - c = end' - current - 1"
    by (auto simp: range_iter_next_def split: if_splits)
  have "unat (end' - current - 1) < unat (end' - current)"
    using ne by (simp add: unat_minus_one unat_gt_0)
  with eq show "((c, e), (current, end')) \<in> measure (\<lambda>(c, e). unat (e - c))" by simp
qed simp

declare range_items.simps [simp del]

section \<open>Arithmetic of addresses\<close>

lemma page_size_nat: "unat PAGE_SIZE = 4096"
  by (simp add: model_defs)

lemma unat_va_floor: "unat (va_floor v) = unat v div 4096"
  by (simp add: va_floor_def unat_div page_size_nat)

lemma unat_va_page_offset: "unat (va_page_offset v) = unat v mod 4096"
  using unat_and_low [of v 12] by (simp add: va_page_offset_def model_defs)

lemma unat_pa_floor: "unat (pa_floor v) = unat v div 4096"
  by (simp add: pa_floor_def unat_div page_size_nat)

lemma unat_pa_page_offset: "unat (pa_page_offset v) = unat v mod 4096"
  using unat_and_low [of v 12] by (simp add: pa_page_offset_def model_defs)

lemma va_page_offset_less: "unat (va_page_offset v) < 4096"
  by (simp add: unat_va_page_offset)

lemma unat_va_from_usize: "unat (va_from_usize v) = unat v mod 2 ^ 39"
  unfolding va_from_usize_def VA_WIDTH_SV39_def by (rule unat_and_low)

lemma unat_ppn_from_usize: "unat (ppn_from_usize v) = unat v mod 2 ^ 44"
  unfolding ppn_from_usize_def PPN_WIDTH_SV39_def PA_WIDTH_SV39_def PAGE_SIZE_BITS_def
  using unat_and_low [of v 44] by simp

lemma unat_pa_from_usize: "unat (pa_from_usize v) = unat v mod 2 ^ 56"
  unfolding pa_from_usize_def PA_WIDTH_SV39_def by (rule unat_and_low)

lemma unat_va_from_vpn: "unat v < 2 ^ 52 \<Longrightarrow> unat (va_from_vpn v) = unat v * 4096"
  using unat_shl [of 12 v] by (simp add: va_from_vpn_def model_defs)

lemma unat_pa_from_ppn: "unat v < 2 ^ 52 \<Longrightarrow> unat (pa_from_ppn v) = unat v * 4096"
  using unat_shl [of 12 v] by (simp add: pa_from_ppn_def model_defs)

lemma va_from_usize_id: "unat v < 2 ^ 39 \<Longrightarrow> va_from_usize v = v"
  by (simp add: word_unat_eq_iff unat_va_from_usize)

lemma unat_va_ceil:
  assumes "unat v < 2 ^ 63"
  shows "unat (va_ceil v) = (unat v + 4095) div 4096"
proof (cases "v = 0")
  case False
  then have "0 < unat v" by (simp add: unat_gt_0)
  then have "unat (v - 1) = unat v - 1" using False by (simp add: unat_minus_one)
  then have "unat (v - 1 + PAGE_SIZE) = unat v + 4095"
    using unat_add_lem' [of "v - 1" PAGE_SIZE] assms \<open>0 < unat v\<close> by (simp add: page_size_nat)
  with False show ?thesis by (simp add: va_ceil_def unat_div page_size_nat)
qed (simp add: va_ceil_def)

text \<open>
  C37: splitting a virtual address into its page number and page offset and putting the two
  together again gives the address back; rounding up gives the least page number whose
  first address is not below it.
\<close>

theorem va_split_roundtrip:
  "unat (va_from_vpn (va_floor v)) + unat (va_page_offset v) = unat v
   \<and> (unat v < 2 ^ 39 \<longrightarrow>
        unat v \<le> unat (va_ceil v) * 4096 \<and> unat (va_ceil v) * 4096 < unat v + 4096)"
proof -
  have "unat v div 4096 < 2 ^ 52" using unat_u64_less [of v] by simp
  then have "unat (va_from_vpn (va_floor v)) = unat v div 4096 * 4096"
    by (simp add: unat_va_from_vpn unat_va_floor)
  moreover have "unat v \<le> unat (va_ceil v) * 4096 \<and> unat (va_ceil v) * 4096 < unat v + 4096"
    if "unat v < 2 ^ 39"
  proof -
    have "unat (va_ceil v) = (unat v + 4095) div 4096" using that by (simp add: unat_va_ceil)
    then show ?thesis by linarith
  qed
  ultimately show ?thesis by (simp add: unat_va_page_offset)
qed

theorem va_split_roundtrip_witness:
  "unat (5000 :: usize) < 2 ^ 39 \<and> unat (va_ceil 5000) * 4096 < 9096"
  using va_split_roundtrip [of 5000] by simp

section \<open>Page table indices\<close>

lemma indexes_eq:
  "indexes vpn = [drop_bit 18 vpn AND 511, drop_bit 9 vpn AND 511, vpn AND 511]"
  by (simp add: indexes_def upt_rec drop_bit_drop_bit)

lemma length_indexes [simp]: "length (indexes vpn) = 3"
  by (simp add: indexes_eq)

lemma unat_and_511: "unat ((v :: usize) AND 511) = unat v mod 512"
  using unat_and_low [of v 9] by simp

lemma unat_indexes:
  "unat (indexes vpn ! 0) = unat vpn div 262144 mod 512"
  "unat (indexes vpn ! 1) = unat vpn div 512 mod 512"
  "unat (indexes vpn ! 2) = unat vpn mod 512"
  by (simp_all add: indexes_eq unat_and_511 unat_shr)

lemma indexes_less: "i < 3 \<Longrightarrow> unat (indexes vpn ! i) < 512"
  using unat_indexes [of vpn] by (auto simp: less_Suc_eq numeral_3_eq_3 numeral_2_eq_2)

lemma indexes_unique:
  assumes "unat v < 2 ^ 27" "unat w < 2 ^ 27" "indexes v = indexes w"
  shows "v = w"
proof -
  have dec: "u = u div 262144 mod 512 * 262144 + u div 512 mod 512 * 512 + u mod 512"
    if "u < 2 ^ 27" for u :: nat
  proof -
    have "u div 512 div 512 = u div 262144" by (simp add: div_mult2_eq [symmetric])
    moreover have "u div 262144 mod 512 = u div 262144" using that by (simp add: less_mult_imp_div_less)
    ultimately show ?thesis
      using div_mult_mod_eq [of u 512] div_mult_mod_eq [of "u div 512" 512] by linarith
  qed
  have "unat v = unat w"
    using dec [OF assms(1)] dec [OF assms(2)] unat_indexes [of v] unat_indexes [of w] assms(3)
    by metis
  then show ?thesis by (simp add: word_unat_eq_iff)
qed

text \<open>
  C38: the three table indices of a page number are each below 512 and determine a 27-bit
  page number uniquely, so two different pages never share a page table entry path.
\<close>

theorem indexes_injective:
  assumes "unat v < 2 ^ 27" "unat w < 2 ^ 27"
  shows "(indexes v = indexes w) = (v = w) \<and> (\<forall>i < 3. unat (indexes v ! i) < 512)"
  using indexes_unique [OF assms] indexes_less by blast

theorem indexes_injective_witness:
  "unat (5 :: usize) < 2 ^ 27 \<and> unat (517 :: usize) < 2 ^ 27 \<and> indexes 5 \<noteq> indexes 517"
  using indexes_injective [of 5 517] by auto

section \<open>Iterating over a range\<close>

lemma range_items_eq:
  assumes "l \<le> r"
  shows "map unat (range_items l r) = [unat l..<unat r]"
  using assms
proof (induction l r rule: range_items.induct)
  case (1 l r)
  show ?case
  proof (cases "l = r")
    case True
    then show ?thesis by (simp add: range_items.simps [of r r] range_iter_next_def)
  next
    case False
    with "1.prems" have "unat l < unat r" by (simp add: word_less_nat_alt [symmetric])
    then have suc: "unat (l + 1) = Suc (unat l)"
      using unat_u64_less [of r] by (intro unat_Suc_no_wrap) simp
    have "map unat (range_items (l + 1) r) = [unat (l + 1)..<unat r]"
      using "1.IH" [of _ l _ "l + 1" r] False \<open>unat l < unat r\<close> suc
      by (simp add: range_iter_next_def word_le_nat_alt)
    with False \<open>unat l < unat r\<close> suc show ?thesis
      by (simp add: range_items.simps [of l r] range_iter_next_def upt_conv_Cons)
  qed
qed

lemma distinct_range_items: "l \<le> r \<Longrightarrow> distinct (range_items l r)"
  using range_items_eq [of l r] by (metis distinct_map distinct_upt)

lemma set_range_items: "l \<le> r \<Longrightarrow> set (range_items l r) = {v. l \<le> v \<and> v < r}"
proof -
  assume "l \<le> r"
  then have "unat ` set (range_items l r) = {unat l..<unat r}"
    using range_items_eq [of l r] by (metis atLeastLessThan_upt set_map)
  then have "unat x \<in> unat ` set (range_items l r) \<longleftrightarrow> l \<le> x \<and> x < r" for x
    by (simp add: word_le_nat_alt word_less_nat_alt)
  moreover have "unat x \<in> unat ` set (range_items l r) \<longleftrightarrow> x \<in> set (range_items l r)" for x
    by (auto simp: word_unat_eq_iff [symmetric])
  ultimately show ?thesis by blast
qed

end
