(* ===== verification/Allocators.thy ===== *)
theory Allocators
  imports Address
begin

text \<open>
  The two stack allocators of the kernel: process identifiers (os/src/task/pid.rs) and
  physical frames (os/src/mm/frame_allocator.rs). A panic of the source (a failed
  assertion of \<open>dealloc\<close>) is \<open>None\<close>. Both satisfy the contract \<open>id_allocator\<close>, in which the
  client-side lemmas are proved once.
\<close>

section \<open>The allocator contract\<close>

text \<open>
  \<open>live s L\<close>: the state \<open>s\<close> has handed out exactly the identifiers in \<open>L\<close>; \<open>managed\<close> are the
  identifiers the allocator can ever hand out.
\<close>

fun alloc_many :: "('s \<Rightarrow> ('i \<times> 's) option) \<Rightarrow> nat \<Rightarrow> 's \<Rightarrow> ('i list \<times> 's) option" where
  "alloc_many al 0 s = Some ([], s)"
| "alloc_many al (Suc n) s =
     (case al s of
        None \<Rightarrow> None
      | Some (x, s') \<Rightarrow> map_option (\<lambda>(xs, t). (x # xs, t)) (alloc_many al n s'))"

locale id_allocator =
  fixes alloc :: "'s \<Rightarrow> ('i \<times> 's) option"
    and dealloc :: "'i \<Rightarrow> 's \<Rightarrow> 's option"
    and live :: "'s \<Rightarrow> 'i set \<Rightarrow> bool"
    and managed :: "'s \<Rightarrow> 'i \<Rightarrow> bool"
  assumes alloc_fresh: "live s L \<Longrightarrow> alloc s = Some (x, s') \<Longrightarrow> x \<notin> L \<and> live s' (insert x L)"
    and dealloc_live: "live s L \<Longrightarrow> x \<in> L \<Longrightarrow> \<exists>s'. dealloc x s = Some s' \<and> live s' (L - {x})"
    and dealloc_dead: "live s L \<Longrightarrow> managed s x \<Longrightarrow> x \<notin> L \<Longrightarrow> dealloc x s = None"
    and live_managed: "live s L \<Longrightarrow> x \<in> L \<Longrightarrow> managed s x"
    and managed_dealloc: "dealloc x s = Some s' \<Longrightarrow> managed s' y \<longleftrightarrow> managed s y"
begin

lemma alloc_many_fresh:
  "live s L \<Longrightarrow> alloc_many alloc n s = Some (xs, t) \<Longrightarrow>
     distinct xs \<and> length xs = n \<and> set xs \<inter> L = {} \<and> live t (set xs \<union> L)"
proof (induction n arbitrary: s L xs)
  case (Suc n)
  from Suc.prems(2) obtain x s' ys where s': "alloc s = Some (x, s')"
    and ys: "alloc_many alloc n s' = Some (ys, t)" "xs = x # ys"
    by (auto split: option.splits)
  from alloc_fresh [OF Suc.prems(1) s'] have "x \<notin> L" "live s' (insert x L)" by auto
  with Suc.IH [OF _ ys(1), of "insert x L"] ys(2) show ?case by auto
qed simp

lemma double_free_fails:
  "live s L \<Longrightarrow> x \<in> L \<Longrightarrow> \<exists>s'. dealloc x s = Some s' \<and> dealloc x s' = None"
proof -
  assume live: "live s L" and x: "x \<in> L"
  then obtain s' where s': "dealloc x s = Some s'" "live s' (L - {x})" using dealloc_live by blast
  have "managed s' x" using live_managed [OF live x] managed_dealloc [OF s'(1)] by simp
  then have "dealloc x s' = None" using dealloc_dead [OF s'(2)] by simp
  with s'(1) show ?thesis by blast
qed

end

section \<open>Process identifiers\<close>

record PidAllocator =
  pid_current :: usize
  pid_recycled :: "usize list"

definition pid_allocator_new :: PidAllocator where
  "pid_allocator_new = \<lparr>pid_current = 1, pid_recycled = []\<rparr>"

definition pid_alloc :: "PidAllocator \<Rightarrow> usize \<times> PidAllocator" where
  "pid_alloc a =
     (case vec_pop (pid_recycled a) of
        Some (pid, rest) \<Rightarrow> (pid, a\<lparr>pid_recycled := rest\<rparr>)
      | None \<Rightarrow>
          let a = a\<lparr>pid_current := pid_current a + 1\<rparr>
          in (pid_current a - 1, a))"

definition pid_dealloc :: "usize \<Rightarrow> PidAllocator \<Rightarrow> PidAllocator option" where
  "pid_dealloc pid a =
     (if pid < pid_current a then
        if \<not> list_ex (\<lambda>ppid. ppid = pid) (pid_recycled a)
        then Some (a\<lparr>pid_recycled := pid_recycled a @ [pid]\<rparr>)
        else None
      else None)"

definition kernel_stack_position :: "usize \<Rightarrow> usize \<times> usize" where
  "kernel_stack_position app_id =
     (let top = TRAMPOLINE - app_id * (KERNEL_STACK_SIZE + PAGE_SIZE);
          bottom = top - KERNEL_STACK_SIZE
      in (bottom, top))"

text \<open>
  The identifiers in use. Identifier 0 is never handed out; the counter stays clear of its
  maximum, which 2^64 simultaneously existing processes would be needed to reach.
\<close>

definition pid_live :: "PidAllocator \<Rightarrow> usize set \<Rightarrow> bool" where
  "pid_live a L \<longleftrightarrow>
     1 \<le> pid_current a \<and> distinct (pid_recycled a)
     \<and> set (pid_recycled a) \<subseteq> {1..<pid_current a}
     \<and> L = {1..<pid_current a} - set (pid_recycled a)"

text \<open>Allocation is possible as long as the counter does not wrap around.\<close>

definition pid_alloc_guarded :: "PidAllocator \<Rightarrow> (usize \<times> PidAllocator) option" where
  "pid_alloc_guarded a =
     (if pid_recycled a = [] \<and> pid_current a = - 1 then None else Some (pid_alloc a))"

lemma pid_live_new: "pid_live pid_allocator_new {}"
  by (simp add: pid_live_def pid_allocator_new_def)

lemma pid_alloc_fresh:
  assumes "pid_live a L" "pid_alloc_guarded a = Some (x, a')"
  shows "x \<notin> L \<and> pid_live a' (insert x L)"
proof (cases "vec_pop (pid_recycled a)")
  case None
  with assms(2) have c: "pid_current a \<noteq> - 1" "x = pid_current a"
    "a' = a\<lparr>pid_current := pid_current a + 1\<rparr>" "pid_recycled a = []"
    by (auto simp: pid_alloc_guarded_def pid_alloc_def Let_def split: if_splits)
  moreover have "1 \<le> pid_current a" "1 \<le> pid_current a + 1"
    using assms(1) unat_u64_plus_1 [OF c(1)] by (simp_all add: pid_live_def word_le_nat_alt)
  ultimately show ?thesis
    using assms(1) by (auto simp: pid_live_def u64_atLeastLessThan_plus_1)
next
  case (Some y)
  obtain p rest where y: "y = (p, rest)" by (cases y)
  have rec: "pid_recycled a = rest @ [p]" by (rule vec_pop_SomeD) (simp add: Some y)
  have "x = p" "a' = a\<lparr>pid_recycled := rest\<rparr>"
    using assms(2) rec by (auto simp: pid_alloc_guarded_def pid_alloc_def split: if_splits)
  then show ?thesis using assms(1) rec by (auto simp: pid_live_def)
qed

lemma pid_dealloc_live:
  "pid_live a L \<Longrightarrow> x \<in> L \<Longrightarrow> \<exists>a'. pid_dealloc x a = Some a' \<and> pid_live a' (L - {x})"
  by (auto simp: pid_live_def pid_dealloc_def list_ex_iff)

lemma pid_dealloc_dead:
  "pid_live a L \<Longrightarrow> 1 \<le> x \<Longrightarrow> x \<notin> L \<Longrightarrow> pid_dealloc x a = None"
  by (auto simp: pid_live_def pid_dealloc_def list_ex_iff)

interpretation pids: id_allocator pid_alloc_guarded pid_dealloc pid_live "\<lambda>a x. 1 \<le> x"
proof
  show "pid_live s L \<Longrightarrow> x \<in> L \<Longrightarrow> 1 \<le> x" for s L x by (simp add: pid_live_def)
qed (auto intro: pid_dealloc_live pid_dealloc_dead dest: pid_alloc_fresh)

section \<open>Physical frames\<close>

record StackFrameAllocator =
  fa_current :: usize
  fa_end :: usize
  fa_recycled :: "usize list"

definition fa_new :: StackFrameAllocator where
  "fa_new = \<lparr>fa_current = 0, fa_end = 0, fa_recycled = []\<rparr>"

definition fa_init :: "StackFrameAllocator \<Rightarrow> PhysPageNum \<Rightarrow> PhysPageNum \<Rightarrow> StackFrameAllocator" where
  "fa_init a l r = a\<lparr>fa_current := l, fa_end := r\<rparr>"

definition fa_alloc :: "StackFrameAllocator \<Rightarrow> PhysPageNum option \<times> StackFrameAllocator" where
  "fa_alloc a =
     (case vec_pop (fa_recycled a) of
        Some (ppn, rest) \<Rightarrow> (Some (ppn_from_usize ppn), a\<lparr>fa_recycled := rest\<rparr>)
      | None \<Rightarrow>
          if fa_current a = fa_end a then (None, a)
          else let a = a\<lparr>fa_current := fa_current a + 1\<rparr>
               in (Some (ppn_from_usize (fa_current a - 1)), a))"

definition fa_dealloc :: "PhysPageNum \<Rightarrow> StackFrameAllocator \<Rightarrow> StackFrameAllocator option" where
  "fa_dealloc ppn a =
     (if fa_current a \<le> ppn \<or> list_ex (\<lambda>v. v = ppn) (fa_recycled a) then None
      else Some (a\<lparr>fa_recycled := fa_recycled a @ [ppn]\<rparr>))"

definition MEMORY_END :: usize where
  "MEMORY_END = 0x88000000"

definition init_frame_allocator :: "usize \<Rightarrow> StackFrameAllocator \<Rightarrow> StackFrameAllocator" where
  "init_frame_allocator ekernel a =
     fa_init a (pa_ceil (pa_from_usize ekernel)) (pa_floor (pa_from_usize MEMORY_END))"

text \<open>
  The frames in use of an allocator that was initialised with first frame \<open>base\<close>; frame
  numbers fit the 44 bits of a physical page number.
\<close>

definition fa_live :: "usize \<Rightarrow> StackFrameAllocator \<Rightarrow> usize set \<Rightarrow> bool" where
  "fa_live base a L \<longleftrightarrow>
     base \<le> fa_current a \<and> fa_current a \<le> fa_end a \<and> fa_end a \<le> 2 ^ 44
     \<and> distinct (fa_recycled a) \<and> set (fa_recycled a) \<subseteq> {base..<fa_current a}
     \<and> L = {base..<fa_current a} - set (fa_recycled a)"

definition fa_alloc_result :: "StackFrameAllocator \<Rightarrow> (PhysPageNum \<times> StackFrameAllocator) option" where
  "fa_alloc_result a = (case fa_alloc a of (None, _) \<Rightarrow> None | (Some x, a') \<Rightarrow> Some (x, a'))"

lemma ppn_from_usize_id: "x < 2 ^ 44 \<Longrightarrow> ppn_from_usize x = x"
  by (simp add: word_unat_eq_iff unat_ppn_from_usize word_less_nat_alt)

lemma fa_live_init:
  assumes "l \<le> r" "r \<le> 2 ^ 44"
  shows "fa_live l (fa_init fa_new l r) {}"
  using assms by (simp add: fa_live_def fa_init_def fa_new_def)

lemma fa_alloc_fresh:
  assumes "fa_live base a L" "fa_alloc_result a = Some (x, a')"
  shows "x \<notin> L \<and> fa_live base a' (insert x L)"
proof (cases "vec_pop (fa_recycled a)")
  case None
  with assms(2) have c: "fa_current a \<noteq> fa_end a" "x = ppn_from_usize (fa_current a)"
    "a' = a\<lparr>fa_current := fa_current a + 1\<rparr>" "fa_recycled a = []"
    by (auto simp: fa_alloc_result_def fa_alloc_def Let_def split: if_splits)
  have lt: "fa_current a < fa_end a" and e: "fa_end a \<le> 2 ^ 44"
    using assms(1) c(1) by (auto simp: fa_live_def)
  then have lt44: "fa_current a < 2 ^ 44" by (rule less_le_trans)
  have "x = fa_current a" using c(2) lt44 by (simp only: ppn_from_usize_id)
  moreover have "{base..<fa_current a + 1} = insert (fa_current a) {base..<fa_current a}"
    using assms(1) u64_less_neq_max [OF lt] by (intro u64_atLeastLessThan_plus_1) (simp_all add: fa_live_def)
  moreover have "fa_current a + 1 \<le> fa_end a" by (rule u64_less_plus_1_le [OF lt])
  moreover have "base \<le> fa_current a + 1"
    using assms(1) unat_u64_plus_1 [OF u64_less_neq_max [OF lt]] by (simp add: fa_live_def word_le_nat_alt)
  ultimately show ?thesis
    using assms(1) c by (auto simp: fa_live_def)
next
  case (Some y)
  obtain p rest where y: "y = (p, rest)" by (cases y)
  have rec: "fa_recycled a = rest @ [p]" by (rule vec_pop_SomeD) (simp add: Some y)
  have "p < 2 ^ 44"
    using assms(1) rec by (auto simp: fa_live_def intro: less_le_trans)
  then have "x = p" "a' = a\<lparr>fa_recycled := rest\<rparr>"
    using assms(2) rec by (auto simp: fa_alloc_result_def fa_alloc_def ppn_from_usize_id)
  then show ?thesis using assms(1) rec by (auto simp: fa_live_def)
qed

lemma fa_dealloc_live:
  "fa_live base a L \<Longrightarrow> x \<in> L \<Longrightarrow> \<exists>a'. fa_dealloc x a = Some a' \<and> fa_live base a' (L - {x})"
  by (auto simp: fa_live_def fa_dealloc_def list_ex_iff)

lemma fa_dealloc_dead:
  "fa_live base a L \<Longrightarrow> base \<le> x \<Longrightarrow> x \<notin> L \<Longrightarrow> fa_dealloc x a = None"
  by (auto simp: fa_live_def fa_dealloc_def list_ex_iff)

interpretation frames: id_allocator fa_alloc_result fa_dealloc "fa_live base" "\<lambda>a x. base \<le> x" for base
proof
  show "fa_live base s L \<Longrightarrow> x \<in> L \<Longrightarrow> base \<le> x" for s L x by (simp add: fa_live_def)
qed (auto intro: fa_dealloc_live fa_dealloc_dead dest: fa_alloc_fresh)

section \<open>Properties\<close>

text \<open>
  C35: any number of process identifiers allocated one after another are pairwise different
  and different from all identifiers in use.
\<close>

theorem pid_alloc_distinct:
  assumes "pid_live a L" "alloc_many pid_alloc_guarded n a = Some (pids, a')"
  shows "distinct pids \<and> length pids = n \<and> set pids \<inter> L = {} \<and> pid_live a' (set pids \<union> L)"
  using assms by (rule pids.alloc_many_fresh)

theorem pid_alloc_distinct_witness:
  "pid_live pid_allocator_new {} \<and>
   alloc_many pid_alloc_guarded (Suc (Suc 0)) pid_allocator_new
     = Some ([1, 2], \<lparr>pid_current = 3, pid_recycled = []\<rparr>)
   \<and> distinct [1, 2 :: usize]"
proof -
  have run: "alloc_many pid_alloc_guarded (Suc (Suc 0)) pid_allocator_new
      = Some ([1, 2], \<lparr>pid_current = 3, pid_recycled = []\<rparr>)"
    by (simp add: pid_alloc_guarded_def pid_alloc_def pid_allocator_new_def Let_def)
  show ?thesis using pid_alloc_distinct [OF pid_live_new run] pid_live_new run by simp
qed

text \<open>
  C36: freeing a frame twice is detected: the first free of a frame in use succeeds, the
  second one is refused (the panic of the source).
\<close>

theorem frame_double_free_detected:
  assumes "fa_live base a L" "x \<in> L"
  shows "\<exists>a'. fa_dealloc x a = Some a' \<and> fa_dealloc x a' = None"
  using assms by (rule frames.double_free_fails)

theorem frame_double_free_detected_witness:
  "\<exists>a'. fa_dealloc 6 \<lparr>fa_current = 7, fa_end = 9, fa_recycled = []\<rparr> = Some a' \<and> fa_dealloc 6 a' = None"
proof -
  have "fa_live 6 \<lparr>fa_current = 7, fa_end = 9, fa_recycled = []\<rparr> {6..<7}"
    by (simp add: fa_live_def)
  then show ?thesis
    by (rule frame_double_free_detected) simp
qed

end
