(* ===== verification/Phys_Mem.thy ===== *)
theory Phys_Mem
  imports Bytes Allocators
begin

text \<open>
  Physical memory and the frames the kernel hands out (os/src/mm/frame_allocator.rs and the
  accessors of \<open>PhysPageNum\<close> in os/src/mm/address.rs). The kernel maps physical memory at
  the identity, so \<open>get_bytes_array\<close> and \<open>get_pte_array\<close> of a page number are direct views
  of that frame; memory is a function from a frame number and an offset to a byte, and the
  two views alias as they do in the machine. \<open>phys\<close> joins the memory with the global
  \<open>FRAME_ALLOCATOR\<close>.
\<close>

type_synonym phys_mem = "PhysPageNum \<Rightarrow> nat \<Rightarrow> u8"

record phys =
  ph_mem :: phys_mem
  ph_frames :: StackFrameAllocator

section \<open>Views of a frame\<close>

definition get_bytes_array :: "phys_mem \<Rightarrow> PhysPageNum \<Rightarrow> u8 list" where
  "get_bytes_array m ppn = map (m ppn) [0..<4096]"

text \<open>Entry \<open>i\<close> of the frame read as 512 words of 64 bits.\<close>

definition get_pte_array :: "phys_mem \<Rightarrow> PhysPageNum \<Rightarrow> nat \<Rightarrow> u64" where
  "get_pte_array m ppn i = le_word (map (m ppn) [8 * i..<8 * i + 8])"

definition write_pte :: "PhysPageNum \<Rightarrow> nat \<Rightarrow> u64 \<Rightarrow> phys_mem \<Rightarrow> phys_mem" where
  "write_pte ppn i v m =
     m(ppn := \<lambda>off. if 8 * i \<le> off \<and> off < 8 * i + 8 then le_bytes 8 v ! (off - 8 * i) else m ppn off)"

definition zero_frame :: "PhysPageNum \<Rightarrow> phys_mem \<Rightarrow> phys_mem" where
  "zero_frame ppn m = m(ppn := \<lambda>off. if off < 4096 then 0 else m ppn off)"

text \<open>\<open>bytes[..n].copy_from_slice(src)\<close> for a source of \<open>n\<close> bytes.\<close>

definition write_prefix :: "PhysPageNum \<Rightarrow> u8 list \<Rightarrow> phys_mem \<Rightarrow> phys_mem" where
  "write_prefix ppn src m = m(ppn := \<lambda>off. if off < length src then src ! off else m ppn off)"

lemma get_pte_array_write_same: "get_pte_array (write_pte p i v m) p i = v"
proof -
  have "map (write_pte p i v m p) [8 * i..<8 * i + 8] = le_bytes 8 v"
    by (rule nth_equalityI) (simp_all add: write_pte_def)
  then show ?thesis by (simp add: get_pte_array_def)
qed

lemma get_pte_array_write_other:
  assumes "p \<noteq> q \<or> i \<noteq> j"
  shows "get_pte_array (write_pte p i v m) q j = get_pte_array m q j"
proof -
  have "map (write_pte p i v m q) [8 * j..<8 * j + 8] = map (m q) [8 * j..<8 * j + 8]"
    using assms by (intro map_cong) (auto simp: write_pte_def)
  then show ?thesis by (simp only: get_pte_array_def)
qed

lemma get_pte_array_write:
  "get_pte_array (write_pte p i v m) q j = (if p = q \<and> i = j then v else get_pte_array m q j)"
  using get_pte_array_write_same get_pte_array_write_other by auto

lemma get_pte_array_zero_same: "i < 512 \<Longrightarrow> get_pte_array (zero_frame p m) p i = 0"
proof -
  assume "i < 512"
  then have "map (zero_frame p m p) [8 * i..<8 * i + 8] = replicate 8 0"
    by (intro nth_equalityI) (simp_all add: zero_frame_def)
  then show ?thesis by (simp add: get_pte_array_def)
qed

lemma get_pte_array_zero_other: "p \<noteq> q \<Longrightarrow> get_pte_array (zero_frame p m) q i = get_pte_array m q i"
  by (simp add: get_pte_array_def zero_frame_def)

text \<open>A frame that agrees on all bytes holds the same table entries.\<close>

lemma get_pte_array_cong: "m q = m' q \<Longrightarrow> get_pte_array m q i = get_pte_array m' q i"
  by (simp add: get_pte_array_def)

section \<open>Frames\<close>

text \<open>\<open>frame_alloc\<close>: \<open>FrameTracker::new\<close> clears the frame.\<close>

definition frame_alloc :: "phys \<Rightarrow> PhysPageNum option \<times> phys" where
  "frame_alloc ph =
     (case fa_alloc (ph_frames ph) of
        (None, a) \<Rightarrow> (None, ph\<lparr>ph_frames := a\<rparr>)
      | (Some ppn, a) \<Rightarrow> (Some ppn, ph\<lparr>ph_frames := a, ph_mem := zero_frame ppn (ph_mem ph)\<rparr>))"

text \<open>Dropping a \<open>FrameTracker\<close>; \<open>None\<close> is the panic of a bad free.\<close>

definition frame_dealloc :: "PhysPageNum \<Rightarrow> phys \<Rightarrow> phys option" where
  "frame_dealloc ppn ph = map_option (\<lambda>a. ph\<lparr>ph_frames := a\<rparr>) (fa_dealloc ppn (ph_frames ph))"

lemma frame_alloc_SomeD:
  assumes "frame_alloc ph = (Some f, ph')" "fa_live base (ph_frames ph) L"
  shows "f \<notin> L" "fa_live base (ph_frames ph') (insert f L)" "ph_mem ph' = zero_frame f (ph_mem ph)"
proof -
  obtain a where a: "fa_alloc (ph_frames ph) = (Some f, a)"
    "ph' = ph\<lparr>ph_frames := a, ph_mem := zero_frame f (ph_mem ph)\<rparr>"
    using assms(1) by (auto simp: frame_alloc_def split: prod.splits option.splits)
  then have "fa_alloc_result (ph_frames ph) = Some (f, a)" by (simp add: fa_alloc_result_def)
  from fa_alloc_fresh [OF assms(2) this] a(2)
  show "f \<notin> L" "fa_live base (ph_frames ph') (insert f L)" "ph_mem ph' = zero_frame f (ph_mem ph)"
    by simp_all
qed

lemma fa_live_less: "fa_live base a L \<Longrightarrow> f \<in> L \<Longrightarrow> unat f < 2 ^ 44"
proof -
  assume "fa_live base a L" "f \<in> L"
  then have "f < fa_end a" "fa_end a \<le> 2 ^ 44" by (auto simp: fa_live_def)
  then have "f < 2 ^ 44" by (rule less_le_trans)
  then show "unat f < 2 ^ 44" by (simp add: word_less_nat_alt)
qed

text \<open>The number of frames the allocator can still hand out.\<close>

definition fa_free :: "StackFrameAllocator \<Rightarrow> nat" where
  "fa_free a = length (fa_recycled a) + unat (fa_end a - fa_current a)"

lemma frame_alloc_succeeds:
  assumes "n < fa_free (ph_frames ph)"
  shows "\<exists>f ph'. frame_alloc ph = (Some f, ph') \<and> n \<le> fa_free (ph_frames ph')"
proof (cases "vec_pop (fa_recycled (ph_frames ph))")
  case None
  let ?a = "ph_frames ph"
  let ?d = "fa_end ?a - fa_current ?a"
  have "n < unat ?d" "fa_recycled ?a = []" using None assms by (simp_all add: fa_free_def)
  then have "?d \<noteq> 0" by auto
  then have "unat (fa_end ?a - (fa_current ?a + 1)) = unat ?d - 1"
    using unat_minus_one [of ?d] by (simp add: algebra_simps)
  with None \<open>?d \<noteq> 0\<close> \<open>n < unat ?d\<close> show ?thesis
    by (auto simp: frame_alloc_def fa_alloc_def fa_free_def Let_def)
next
  case (Some y)
  then obtain p rest where y: "y = (p, rest)" "fa_recycled (ph_frames ph) = rest @ [p]"
    by (cases y) (auto dest: vec_pop_SomeD)
  with assms show ?thesis by (auto simp: frame_alloc_def fa_alloc_def fa_free_def)
qed

end
