(* ===== verification/Page_Table.thy ===== *)
theory Page_Table
  imports Phys_Mem
begin

text \<open>
  Three-level SV39 page tables (os/src/mm/page_table.rs, the part before the user-memory
  helpers). A page table entry is its 64 bits; a reference to an entry is the frame it lies
  in and its index there. Operations that change memory thread the physical memory and the
  frame allocator; \<open>None\<close> is a kernel panic (an exhausted frame allocator, a failed
  assertion).
\<close>

section \<open>Entries\<close>

type_synonym PTEFlags = u8

definition PTE_V :: PTEFlags where "PTE_V = 1"
definition PTE_R :: PTEFlags where "PTE_R = 2"
definition PTE_W :: PTEFlags where "PTE_W = 4"
definition PTE_X :: PTEFlags where "PTE_X = 8"
definition PTE_U :: PTEFlags where "PTE_U = 16"

lemmas pte_flag_defs [model_defs] = PTE_V_def PTE_R_def PTE_W_def PTE_X_def PTE_U_def

type_synonym PageTableEntry = u64

definition pte_new :: "PhysPageNum \<Rightarrow> PTEFlags \<Rightarrow> PageTableEntry" where
  "pte_new ppn flags = push_bit 10 ppn OR ucast flags"

definition pte_empty :: PageTableEntry where
  "pte_empty = 0"

definition pte_ppn :: "PageTableEntry \<Rightarrow> PhysPageNum" where
  "pte_ppn bits = ppn_from_usize (drop_bit 10 bits AND (2 ^ 44 - 1))"

definition pte_flags :: "PageTableEntry \<Rightarrow> PTEFlags" where
  "pte_flags bits = ucast bits"

definition flags_contain :: "PTEFlags \<Rightarrow> PTEFlags \<Rightarrow> bool" where
  "flags_contain flags f \<longleftrightarrow> flags AND f = f"

definition pte_is_valid :: "PageTableEntry \<Rightarrow> bool" where
  "pte_is_valid pte \<longleftrightarrow> pte_flags pte AND PTE_V \<noteq> 0"

definition pte_readable :: "PageTableEntry \<Rightarrow> bool" where
  "pte_readable pte \<longleftrightarrow> pte_flags pte AND PTE_R \<noteq> 0"

definition pte_writable :: "PageTableEntry \<Rightarrow> bool" where
  "pte_writable pte \<longleftrightarrow> pte_flags pte AND PTE_W \<noteq> 0"

definition pte_executable :: "PageTableEntry \<Rightarrow> bool" where
  "pte_executable pte \<longleftrightarrow> pte_flags pte AND PTE_X \<noteq> 0"

section \<open>The table\<close>

record PageTable =
  root_ppn :: PhysPageNum
  pt_frames :: "PhysPageNum list"

definition pt_new :: "phys \<Rightarrow> (PageTable \<times> phys) option" where
  "pt_new ph =
     (case frame_alloc ph of
        (None, _) \<Rightarrow> None
      | (Some frame, ph) \<Rightarrow> Some (\<lparr>root_ppn = frame, pt_frames = [frame]\<rparr>, ph))"

definition from_token :: "usize \<Rightarrow> PageTable" where
  "from_token satp = \<lparr>root_ppn = ppn_from_usize (satp AND (2 ^ 44 - 1)), pt_frames = []\<rparr>"

definition token :: "PageTable \<Rightarrow> usize" where
  "token pt = push_bit 60 8 OR root_ppn pt"

text \<open>The loop of \<open>find_pte\<close> at level \<open>i\<close> in the table held by frame \<open>ppn\<close>.\<close>

fun find_pte_loop :: "phys_mem \<Rightarrow> nat \<Rightarrow> PhysPageNum \<Rightarrow> usize list \<Rightarrow> (PhysPageNum \<times> nat) option" where
  "find_pte_loop m i ppn [] = None"
| "find_pte_loop m i ppn (idx # idxs) =
     (if i = 2 then Some (ppn, unat idx)
      else if \<not> pte_is_valid (get_pte_array m ppn (unat idx)) then None
      else find_pte_loop m (i + 1) (pte_ppn (get_pte_array m ppn (unat idx))) idxs)"

definition find_pte :: "phys_mem \<Rightarrow> PageTable \<Rightarrow> VirtPageNum \<Rightarrow> (PhysPageNum \<times> nat) option" where
  "find_pte m pt vpn = find_pte_loop m 0 (root_ppn pt) (indexes vpn)"

text \<open>The body of the loop of \<open>find_pte_create\<close> that fills a missing entry.\<close>

definition create_table :: "PhysPageNum \<Rightarrow> nat \<Rightarrow> PageTable \<Rightarrow> phys \<Rightarrow> (PageTable \<times> phys) option" where
  "create_table ppn idx pt ph =
     (if \<not> pte_is_valid (get_pte_array (ph_mem ph) ppn idx) then
        (case frame_alloc ph of
           (None, _) \<Rightarrow> None
         | (Some frame, ph) \<Rightarrow>
             Some (pt\<lparr>pt_frames := pt_frames pt @ [frame]\<rparr>,
                   ph\<lparr>ph_mem := write_pte ppn idx (pte_new frame PTE_V) (ph_mem ph)\<rparr>))
      else Some (pt, ph))"

fun find_pte_create_loop ::
    "nat \<Rightarrow> PhysPageNum \<Rightarrow> usize list \<Rightarrow> PageTable \<Rightarrow> phys
     \<Rightarrow> ((PhysPageNum \<times> nat) option \<times> PageTable \<times> phys) option" where
  "find_pte_create_loop i ppn [] pt ph = Some (None, pt, ph)"
| "find_pte_create_loop i ppn (idx # idxs) pt ph =
     (if i = 2 then Some (Some (ppn, unat idx), pt, ph)
      else (case create_table ppn (unat idx) pt ph of
              None \<Rightarrow> None
            | Some (pt, ph) \<Rightarrow>
                find_pte_create_loop (i + 1) (pte_ppn (get_pte_array (ph_mem ph) ppn (unat idx))) idxs pt ph))"

definition find_pte_create ::
    "VirtPageNum \<Rightarrow> PageTable \<Rightarrow> phys \<Rightarrow> ((PhysPageNum \<times> nat) option \<times> PageTable \<times> phys) option" where
  "find_pte_create vpn pt ph = find_pte_create_loop 0 (root_ppn pt) (indexes vpn) pt ph"

definition pt_map ::
    "VirtPageNum \<Rightarrow> PhysPageNum \<Rightarrow> PTEFlags \<Rightarrow> PageTable \<Rightarrow> phys \<Rightarrow> (PageTable \<times> phys) option" where
  "pt_map vpn ppn flags pt ph =
     (case find_pte_create vpn pt ph of
        Some (Some (t, i), pt, ph) \<Rightarrow>
          if pte_is_valid (get_pte_array (ph_mem ph) t i) then None
          else Some (pt, ph\<lparr>ph_mem := write_pte t i (pte_new ppn (flags OR PTE_V)) (ph_mem ph)\<rparr>)
      | _ \<Rightarrow> None)"

definition pt_unmap :: "VirtPageNum \<Rightarrow> PageTable \<Rightarrow> phys \<Rightarrow> phys option" where
  "pt_unmap vpn pt ph =
     (case find_pte (ph_mem ph) pt vpn of
        None \<Rightarrow> None
      | Some (t, i) \<Rightarrow>
          if pte_is_valid (get_pte_array (ph_mem ph) t i)
          then Some (ph\<lparr>ph_mem := write_pte t i pte_empty (ph_mem ph)\<rparr>) else None)"

definition translate :: "phys_mem \<Rightarrow> PageTable \<Rightarrow> VirtPageNum \<Rightarrow> PageTableEntry option" where
  "translate m pt vpn = map_option (\<lambda>(t, i). get_pte_array m t i) (find_pte m pt vpn)"

definition translate_va :: "phys_mem \<Rightarrow> PageTable \<Rightarrow> VirtAddr \<Rightarrow> PhysAddr option" where
  "translate_va m pt va =
     map_option (\<lambda>(t, i).
       let aligned_pa = pa_from_ppn (pte_ppn (get_pte_array m t i));
           offset = va_page_offset va
       in pa_from_usize (aligned_pa + offset)) (find_pte m pt (va_floor va))"

section \<open>Laws of entries\<close>

lemma pte_flags_new [simp]: "pte_flags (pte_new ppn flags) = flags"
  by (rule bit_word_eqI) (simp add: pte_flags_def pte_new_def bit_unsigned_iff bit_or_iff bit_push_bit_iff)

lemma pte_ppn_new [simp]:
  assumes "unat ppn < 2 ^ 44"
  shows "pte_ppn (pte_new ppn flags) = ppn"
proof -
  have "drop_bit 10 (pte_new ppn flags) AND (2 ^ 44 - 1) = ppn"
    unfolding and_low_take_bit
  proof (rule bit_word_eqI)
    fix k assume "k < LENGTH(64)"
    then show "bit (take_bit 44 (drop_bit 10 (pte_new ppn flags))) k = bit ppn k"
      using unat_less_not_bit [OF assms, of k]
      by (cases "k < 44") (auto simp: pte_new_def bit_take_bit_iff bit_drop_bit_eq bit_or_iff
          bit_push_bit_iff bit_unsigned_iff dest: bit_imp_le_length)
  qed
  then have "pte_ppn (pte_new ppn flags) = ppn_from_usize ppn" by (simp only: pte_ppn_def)
  then show ?thesis using assms by (simp add: word_unat_eq_iff unat_ppn_from_usize)
qed

lemma pte_valid_new [simp]: "pte_is_valid (pte_new ppn (flags OR PTE_V))"
proof -
  have "bit ((flags OR PTE_V) AND PTE_V) 0" by (simp add: bit_and_iff bit_or_iff PTE_V_def)
  then show ?thesis unfolding pte_is_valid_def pte_flags_new by (metis bit_0_eq bot_apply bot_bool_def)
qed

lemma pte_valid_new_V [simp]: "pte_is_valid (pte_new ppn PTE_V)"
  using pte_valid_new [of ppn 0] by simp

lemma pte_not_valid_0 [simp]: "\<not> pte_is_valid 0" "\<not> pte_is_valid pte_empty"
  by (simp_all add: pte_is_valid_def pte_flags_def pte_empty_def)

lemma flags_contain_V: "flags_contain flags PTE_V \<longleftrightarrow> flags AND PTE_V \<noteq> 0"
proof -
  have "flags AND PTE_V = (if bit flags 0 then PTE_V else 0)"
    by (rule bit_word_eqI) (auto simp: PTE_V_def bit_and_iff bit_1_iff intro: gr0I)
  then show ?thesis by (simp add: flags_contain_def PTE_V_def)
qed

lemma from_token_token:
  assumes "unat (root_ppn pt) < 2 ^ 44"
  shows "root_ppn (from_token (token pt)) = root_ppn pt"
proof -
  have "token pt AND (2 ^ 44 - 1) = root_ppn pt"
    unfolding and_low_take_bit
  proof (rule bit_word_eqI)
    fix k assume k: "k < LENGTH(64)"
    have "bit (push_bit 60 (8 :: u64)) k \<longleftrightarrow> k = 63"
      using bit_exp_iff [of 63 k, where 'a = "64 word"] k by simp
    with k show "bit (take_bit 44 (token pt)) k = bit (root_ppn pt) k"
      using unat_less_not_bit [OF assms, of k]
      by (cases "k < 44") (auto simp: token_def bit_take_bit_iff bit_or_iff simp del: push_bit_numeral)
  qed
  then have "root_ppn (from_token (token pt)) = ppn_from_usize (root_ppn pt)"
    by (simp only: from_token_def PageTable.simps)
  then show ?thesis using assms by (simp add: word_unat_eq_iff unat_ppn_from_usize)
qed

section \<open>Well-formed tables\<close>

text \<open>
  \<open>child m t i c\<close>: entry \<open>i\<close> of the table in frame \<open>t\<close> is valid and points to frame \<open>c\<close>.
  The tables of the first two levels form a tree: no frame is reached along two paths. This
  is what makes a write to one entry invisible to every other page number.
\<close>

definition child :: "phys_mem \<Rightarrow> PhysPageNum \<Rightarrow> nat \<Rightarrow> PhysPageNum \<Rightarrow> bool" where
  "child m t i c \<longleftrightarrow>
     i < 512 \<and> pte_is_valid (get_pte_array m t i) \<and> c = pte_ppn (get_pte_array m t i)"

definition second_level :: "(nat \<Rightarrow> 'f \<Rightarrow> bool) \<Rightarrow> ('f \<Rightarrow> nat \<Rightarrow> 'f \<Rightarrow> bool) \<Rightarrow> 'f \<Rightarrow> nat \<Rightarrow> 'f \<Rightarrow> bool" where
  "second_level R K c k d \<longleftrightarrow> (\<exists>i. R i c) \<and> K c k d"

definition tree_shape ::
    "'f \<Rightarrow> (nat \<Rightarrow> 'f \<Rightarrow> bool) \<Rightarrow> ('f \<Rightarrow> nat \<Rightarrow> 'f \<Rightarrow> bool) \<Rightarrow> bool" where
  "tree_shape root R Q \<longleftrightarrow>
     (\<forall>i j c. R i c \<longrightarrow> R j c \<longrightarrow> i = j) \<and> (\<forall>i. \<not> R i root) \<and> (\<forall>c k. \<not> Q c k root)
     \<and> (\<forall>c k j d. Q c k d \<longrightarrow> \<not> R j d)
     \<and> (\<forall>c k e l d. Q c k d \<longrightarrow> Q e l d \<longrightarrow> c = e \<and> k = l)"

definition tree_nodes ::
    "'f \<Rightarrow> (nat \<Rightarrow> 'f \<Rightarrow> bool) \<Rightarrow> ('f \<Rightarrow> nat \<Rightarrow> 'f \<Rightarrow> bool) \<Rightarrow> 'f set" where
  "tree_nodes root R Q = {root} \<union> {c. \<exists>i. R i c} \<union> {d. \<exists>c k. Q c k d}"

abbreviation pt_second :: "phys_mem \<Rightarrow> PhysPageNum \<Rightarrow> PhysPageNum \<Rightarrow> nat \<Rightarrow> PhysPageNum \<Rightarrow> bool" where
  "pt_second m root \<equiv> second_level (child m root) (child m)"

abbreviation pt_tree :: "phys_mem \<Rightarrow> PhysPageNum \<Rightarrow> bool" where
  "pt_tree m root \<equiv> tree_shape root (child m root) (pt_second m root)"

abbreviation pt_tables :: "phys_mem \<Rightarrow> PhysPageNum \<Rightarrow> PhysPageNum set" where
  "pt_tables m root \<equiv> tree_nodes root (child m root) (pt_second m root)"

lemma tree_shapeD:
  assumes "tree_shape root R Q"
  shows "R i c \<Longrightarrow> R j c \<Longrightarrow> i = j" "\<not> R i root" "\<not> Q c k root" "Q c k d \<Longrightarrow> \<not> R j d"
    "Q c k d \<Longrightarrow> Q e l d \<Longrightarrow> c = e" "Q c k d \<Longrightarrow> Q e l d \<Longrightarrow> k = l"
  using assms by (auto simp only: tree_shape_def)

lemma tree_shapeI:
  assumes "\<And>i j c. R i c \<Longrightarrow> R j c \<Longrightarrow> i = j" "\<And>i. \<not> R i root" "\<And>c k. \<not> Q c k root"
    "\<And>c k d j. Q c k d \<Longrightarrow> \<not> R j d"
    "\<And>c k e l d. Q c k d \<Longrightarrow> Q e l d \<Longrightarrow> c = e \<and> k = l"
  shows "tree_shape root R Q"
  using assms by (simp only: tree_shape_def) metis

lemma tree_add_first:
  assumes t: "tree_shape root R Q" and f: "f \<notin> tree_nodes root R Q"
    and R': "\<And>j c. R' j c \<longleftrightarrow> R j c \<or> j = i \<and> c = f"
  shows "tree_shape root R' Q" and "tree_nodes root R' Q = insert f (tree_nodes root R Q)"
proof -
  have nf: "f \<noteq> root" "\<And>j. \<not> R j f" "\<And>c k. \<not> Q c k f" using f by (auto simp: tree_nodes_def)
  show "tree_nodes root R' Q = insert f (tree_nodes root R Q)" by (auto simp: tree_nodes_def R')
  show "tree_shape root R' Q"
    by (rule tree_shapeI) (use nf tree_shapeD [OF t] in \<open>auto simp: R'\<close>)
qed

lemma tree_add_second:
  assumes t: "tree_shape root R Q" and f: "f \<notin> tree_nodes root R Q"
    and Q': "\<And>c k d. Q' c k d \<longleftrightarrow> Q c k d \<or> c = p \<and> k = j \<and> d = f"
  shows "tree_shape root R Q'" and "tree_nodes root R Q' = insert f (tree_nodes root R Q)"
proof -
  have nf: "f \<noteq> root" "\<And>j. \<not> R j f" "\<And>c k. \<not> Q c k f" using f by (auto simp: tree_nodes_def)
  show "tree_nodes root R Q' = insert f (tree_nodes root R Q)" by (auto simp: tree_nodes_def Q')
  show "tree_shape root R Q'"
    by (rule tree_shapeI) (use nf tree_shapeD [OF t] in \<open>auto simp: Q'\<close>)
qed

lemma find_pte_iff:
  "find_pte m pt vpn = Some (t, k) \<longleftrightarrow>
     (\<exists>c. child m (root_ppn pt) (unat (indexes vpn ! 0)) c \<and> child m c (unat (indexes vpn ! 1)) t
        \<and> k = unat (indexes vpn ! 2))"
proof -
  obtain a b c where abc: "indexes vpn = [a, b, c]" by (simp add: indexes_eq)
  have "unat a < 512" "unat b < 512" using indexes_less [of 0 vpn] indexes_less [of 1 vpn] abc by simp_all
  then show ?thesis by (auto simp: find_pte_def abc child_def)
qed

text \<open>
  The mapping a table denotes: the valid leaf entry of each 27-bit page number.
\<close>

definition pt_lookup :: "phys_mem \<Rightarrow> PageTable \<Rightarrow> VirtPageNum \<Rightarrow> PageTableEntry option" where
  "pt_lookup m pt vpn =
     (case translate m pt vpn of
        Some pte \<Rightarrow> if pte_is_valid pte then Some pte else None
      | None \<Rightarrow> None)"

text \<open>An entry that is not valid holds nothing at all, so its other flags are clear.\<close>

definition pt_clean :: "phys_mem \<Rightarrow> PageTable \<Rightarrow> bool" where
  "pt_clean m pt \<longleftrightarrow> (\<forall>v t k. find_pte m pt v = Some (t, k) \<longrightarrow>
     \<not> pte_is_valid (get_pte_array m t k) \<longrightarrow> get_pte_array m t k = 0)"

lemma pt_lookup_Some_iff:
  "pt_lookup m pt vpn = Some pte \<longleftrightarrow>
     (\<exists>t k. find_pte m pt vpn = Some (t, k) \<and> pte = get_pte_array m t k \<and> pte_is_valid pte)"
  by (auto simp: pt_lookup_def translate_def split: option.splits if_splits)

text \<open>Different page numbers use different leaf entries.\<close>

lemma find_pte_inj:
  assumes "pt_tree m (root_ppn pt)" "find_pte m pt v = Some (t, k)" "find_pte m pt w = Some (t, k)"
  shows "indexes v = indexes w"
proof -
  let ?I = "\<lambda>v n. unat (indexes v ! n)"
  let ?Q = "pt_second m (root_ppn pt)"
  obtain c d where *: "child m (root_ppn pt) (?I v 0) c" "child m c (?I v 1) t" "k = ?I v 2"
    "child m (root_ppn pt) (?I w 0) d" "child m d (?I w 1) t" "k = ?I w 2"
    using assms(2,3) by (auto simp: find_pte_iff)
  then have "?Q c (?I v 1) t" "?Q d (?I w 1) t" by (auto simp: second_level_def)
  then have cd: "c = d" and "?I v 1 = ?I w 1" using tree_shapeD(5,6) [OF assms(1)] by blast+
  moreover have "?I v 0 = ?I w 0" using tree_shapeD(1) [OF assms(1)] * cd by blast
  ultimately have "indexes v ! 0 = indexes w ! 0" "indexes v ! 1 = indexes w ! 1"
      "indexes v ! 2 = indexes w ! 2"
    using * by (simp_all add: word_unat_eq_iff)
  then show ?thesis by (simp add: indexes_eq)
qed

text \<open>Only the entries of the first two levels decide where a walk ends.\<close>

lemma inner_agree:
  assumes "\<And>t i. t = root_ppn pt \<or> (\<exists>j. child m (root_ppn pt) j t) \<Longrightarrow> i < 512 \<Longrightarrow>
           get_pte_array m' t i = get_pte_array m t i"
  shows "child m' (root_ppn pt) = child m (root_ppn pt)"
    "pt_second m' (root_ppn pt) = pt_second m (root_ppn pt)"
    "find_pte m' pt = find_pte m pt"
proof -
  show R: "child m' (root_ppn pt) = child m (root_ppn pt)"
    using assms by (auto simp: child_def fun_eq_iff)
  have K: "child m' c = child m c" if "child m (root_ppn pt) i c" for i c
    using assms [of c] that by (fastforce simp: child_def fun_eq_iff)
  then show "pt_second m' (root_ppn pt) = pt_second m (root_ppn pt)"
    unfolding fun_eq_iff second_level_def R by metis
  have "find_pte m' pt v = Some y \<longleftrightarrow> find_pte m pt v = Some y" for v y
    using K by (cases y) (auto simp: find_pte_iff R)
  then show "find_pte m' pt = find_pte m pt"
    by (metis ext option.exhaust)
qed

lemma leaf_not_inner:
  assumes "pt_tree m (root_ppn pt)" "find_pte m pt vpn = Some (t, k)"
  shows "t \<noteq> root_ppn pt" "\<not> child m (root_ppn pt) j t"
proof -
  have "\<exists>c i. pt_second m (root_ppn pt) c i t"
    using assms(2) by (auto simp: find_pte_iff second_level_def)
  then show "t \<noteq> root_ppn pt" "\<not> child m (root_ppn pt) j t"
    using tree_shapeD(3,4) [OF assms(1)] by blast+
qed

lemma leaf_write:
  assumes t: "pt_tree m (root_ppn pt)" and f: "find_pte m pt vpn = Some (t, k)" and v: "unat vpn < 2 ^ 27"
  shows "pt_tree (write_pte t k e m) (root_ppn pt)"
    and "pt_tables (write_pte t k e m) (root_ppn pt) = pt_tables m (root_ppn pt)"
    and "unat w < 2 ^ 27 \<Longrightarrow> pt_lookup (write_pte t k e m) pt w
           = (if w = vpn then if pte_is_valid e then Some e else None else pt_lookup m pt w)"
    and "pt_clean m pt \<Longrightarrow> pte_is_valid e \<or> e = 0 \<Longrightarrow> pt_clean (write_pte t k e m) pt"
proof -
  have agree: "get_pte_array (write_pte t k e m) q i = get_pte_array m q i"
    if "q = root_ppn pt \<or> (\<exists>j. child m (root_ppn pt) j q)" for q i
    using leaf_not_inner [OF t f] that by (intro get_pte_array_write_other) blast
  have ia: "child (write_pte t k e m) (root_ppn pt) = child m (root_ppn pt)"
    "pt_second (write_pte t k e m) (root_ppn pt) = pt_second m (root_ppn pt)"
    "find_pte (write_pte t k e m) pt = find_pte m pt"
    using inner_agree [of pt m "write_pte t k e m"] agree by blast+
  show "pt_tree (write_pte t k e m) (root_ppn pt)"
    "pt_tables (write_pte t k e m) (root_ppn pt) = pt_tables m (root_ppn pt)"
    unfolding ia(2) unfolding ia(1) using t by simp_all
  show "pt_clean (write_pte t k e m) pt" if "pt_clean m pt" "pte_is_valid e \<or> e = 0"
    using that by (auto simp: pt_clean_def ia(3) get_pte_array_write)
  show "pt_lookup (write_pte t k e m) pt w
           = (if w = vpn then if pte_is_valid e then Some e else None else pt_lookup m pt w)"
    if w: "unat w < 2 ^ 27"
  proof (cases "w = vpn")
    case True
    then show ?thesis using f ia(3) by (simp add: pt_lookup_def translate_def get_pte_array_write_same)
  next
    case False
    have "find_pte m pt w \<noteq> Some (t, k)"
    proof
      assume "find_pte m pt w = Some (t, k)"
      then have "indexes w = indexes vpn" by (rule find_pte_inj [OF t _ f])
      then show False using indexes_unique [OF w v] False by blast
    qed
    then have "translate (write_pte t k e m) pt w = translate m pt w"
      using ia(3) by (cases "find_pte m pt w") (auto simp: translate_def intro: get_pte_array_write_other)
    with False show ?thesis by (simp add: pt_lookup_def)
  qed
qed

section \<open>Creating the tables on the way\<close>

text \<open>
  The frames a table occupies are all allocated, so a frame that the allocator hands out is
  new to the table.
\<close>

definition pt_inv :: "usize \<Rightarrow> phys \<Rightarrow> PageTable \<Rightarrow> PhysPageNum set \<Rightarrow> bool" where
  "pt_inv base ph pt L \<longleftrightarrow>
     pt_tree (ph_mem ph) (root_ppn pt) \<and> pt_tables (ph_mem ph) (root_ppn pt) \<subseteq> L
     \<and> fa_live base (ph_frames ph) L \<and> pt_clean (ph_mem ph) pt"

text \<open>
  Work on the tables that leaves alone every allocated frame that is not one of them: its
  bytes stay, and it does not become a table.
\<close>

definition data_kept :: "phys_mem \<Rightarrow> phys_mem \<Rightarrow> PhysPageNum \<Rightarrow> PhysPageNum set \<Rightarrow> bool" where
  "data_kept m m' root L \<longleftrightarrow>
     pt_tables m' root \<inter> L \<subseteq> pt_tables m root \<and> (\<forall>q \<in> L - pt_tables m root. m' q = m q)"

lemma data_kept_refl: "data_kept m m root L"
  by (simp add: data_kept_def)

lemma data_kept_trans:
  assumes "data_kept m m1 root L" "data_kept m1 m2 root L1" "L \<subseteq> L1"
  shows "data_kept m m2 root L"
proof -
  have m1: "q \<in> pt_tables m1 root \<Longrightarrow> q \<in> L \<Longrightarrow> q \<in> pt_tables m root"
    "q \<in> L \<Longrightarrow> q \<notin> pt_tables m root \<Longrightarrow> m1 q = m q" for q
    using assms(1) by (auto simp only: data_kept_def)
  have m2: "q \<in> pt_tables m2 root \<Longrightarrow> q \<in> L1 \<Longrightarrow> q \<in> pt_tables m1 root"
    "q \<in> L1 \<Longrightarrow> q \<notin> pt_tables m1 root \<Longrightarrow> m2 q = m1 q" for q
    using assms(2) by (auto simp only: data_kept_def)
  have "q \<in> pt_tables m root" if "q \<in> pt_tables m2 root" "q \<in> L" for q
    using m1(1) m2(1) that assms(3) by (meson subsetD)
  moreover have "m2 q = m q" if "q \<in> L" "q \<notin> pt_tables m root" for q
  proof -
    have "q \<notin> pt_tables m1 root" "q \<in> L1" using m1(1) that assms(3) by blast+
    then show ?thesis using m1(2) [OF that] m2(2) by simp
  qed
  ultimately show ?thesis unfolding data_kept_def by (intro conjI subsetI ballI) auto
qed

lemma data_kept_insert:
  assumes "pt_tables m' root = insert f (pt_tables m root)" "f \<notin> L" "p \<in> pt_tables m root"
    and keep: "\<And>q. q \<noteq> f \<Longrightarrow> q \<noteq> p \<Longrightarrow> m' q = m q"
  shows "data_kept m m' root L"
proof -
  have "m' q = m q" if "q \<in> L - pt_tables m root" for q
    using that assms(2,3) by (intro keep) blast+
  with assms(2) show ?thesis unfolding data_kept_def assms(1) by simp
qed

lemma create_table_new:
  assumes ct: "create_table p i pt ph = Some (pt', ph')" and live: "fa_live base (ph_frames ph) L"
    and p: "p \<in> L" and inv: "\<not> pte_is_valid (get_pte_array (ph_mem ph) p i)" and i: "i < 512"
  obtains f where "f \<notin> L" "fa_live base (ph_frames ph') (insert f L)"
    and "\<And>q j. q \<noteq> f \<Longrightarrow> get_pte_array (ph_mem ph') q j
           = (if q = p \<and> j = i then pte_new f PTE_V else get_pte_array (ph_mem ph) q j)"
    and "\<And>j. j < 512 \<Longrightarrow> get_pte_array (ph_mem ph') f j = 0"
    and "pte_ppn (pte_new f PTE_V) = f" and "root_ppn pt' = root_ppn pt"
    and "\<And>q. q \<noteq> f \<Longrightarrow> q \<noteq> p \<Longrightarrow> ph_mem ph' q = ph_mem ph q"
proof -
  obtain f ph1 where fa: "frame_alloc ph = (Some f, ph1)"
    and eq: "pt' = pt\<lparr>pt_frames := pt_frames pt @ [f]\<rparr>"
      "ph' = ph1\<lparr>ph_mem := write_pte p i (pte_new f PTE_V) (ph_mem ph1)\<rparr>"
    using ct inv by (auto simp: create_table_def split: prod.splits option.splits)
  note fr = frame_alloc_SomeD [OF fa live]
  have "p \<noteq> f" using fr(1) p by blast
  show thesis
  proof
    show "f \<notin> L" "fa_live base (ph_frames ph') (insert f L)" "root_ppn pt' = root_ppn pt"
      using fr eq by simp_all
    show "get_pte_array (ph_mem ph') q j
           = (if q = p \<and> j = i then pte_new f PTE_V else get_pte_array (ph_mem ph) q j)" if "q \<noteq> f" for q j
      using that eq fr(3) by (auto simp: get_pte_array_write get_pte_array_zero_other)
    show "get_pte_array (ph_mem ph') f j = 0" if "j < 512" for j
      using that eq fr(3) \<open>p \<noteq> f\<close> by (simp add: get_pte_array_write get_pte_array_zero_same)
    show "pte_ppn (pte_new f PTE_V) = f"
      using fa_live_less [OF fr(2), of f] by (intro pte_ppn_new) simp
    show "ph_mem ph' q = ph_mem ph q" if "q \<noteq> f" "q \<noteq> p" for q
      using that eq fr(3) by (simp add: write_pte_def zero_frame_def)
  qed
qed

text \<open>What creating one missing table changes: nothing that a page number resolves to.\<close>

lemma create_root_table:
  assumes ct: "create_table (root_ppn pt) i pt ph = Some (pt', ph')" and i: "i < 512"
    and inv: "pt_inv base ph pt L"
  obtains L' where "pt_inv base ph' pt' L'" "L \<subseteq> L'" "root_ppn pt' = root_ppn pt"
    "\<exists>c. child (ph_mem ph') (root_ppn pt) i c"
    "pt_lookup (ph_mem ph') pt' = pt_lookup (ph_mem ph) pt"
    "data_kept (ph_mem ph) (ph_mem ph') (root_ppn pt) L"
proof (cases "pte_is_valid (get_pte_array (ph_mem ph) (root_ppn pt) i)")
  case True
  then have "pt' = pt" "ph' = ph" using ct by (simp_all add: create_table_def)
  with True inv i show thesis by (intro that [of L]) (auto simp: child_def data_kept_refl)
next
  case False
  let ?r = "root_ppn pt" and ?m = "ph_mem ph" and ?m' = "ph_mem ph'"
  have t: "pt_tree ?m ?r" and L: "pt_tables ?m ?r \<subseteq> L" and live: "fa_live base (ph_frames ph) L"
    and clean: "pt_clean ?m pt"
    using inv by (simp_all add: pt_inv_def)
  have "?r \<in> L" using L by (auto simp: tree_nodes_def)
  then obtain f where f: "f \<notin> L" "fa_live base (ph_frames ph') (insert f L)"
    and same: "\<And>q j. q \<noteq> f \<Longrightarrow> get_pte_array ?m' q j
           = (if q = ?r \<and> j = i then pte_new f PTE_V else get_pte_array ?m q j)"
    and zero: "\<And>j. j < 512 \<Longrightarrow> get_pte_array ?m' f j = 0"
    and fp: "pte_ppn (pte_new f PTE_V) = f" and root: "root_ppn pt' = ?r"
    and keep: "\<And>q. q \<noteq> f \<Longrightarrow> q \<noteq> ?r \<Longrightarrow> ?m' q = ?m q"
    using create_table_new [OF ct live _ False i] by blast
  have rf: "?r \<noteq> f" using f(1) \<open>?r \<in> L\<close> by blast
  have R: "child ?m' ?r j c \<longleftrightarrow> child ?m ?r j c \<or> j = i \<and> c = f" for j c
    using False i fp rf by (auto simp: child_def same)
  have c_L: "c \<noteq> f \<and> c \<noteq> ?r" if "child ?m ?r j c" for j c
    using that L f(1) tree_shapeD(2) [OF t] by (auto simp: tree_nodes_def)
  have K: "child ?m' c = child ?m c" if "child ?m ?r j c" for j c
    using c_L [OF that] by (auto simp: child_def same fun_eq_iff)
  have Kf: "\<not> child ?m' f k d" for k d by (auto simp: child_def zero)
  have Q: "pt_second ?m' ?r = pt_second ?m ?r"
  proof (intro ext)
    fix c k d show "pt_second ?m' ?r c k d = pt_second ?m ?r c k d"
      using R K Kf unfolding second_level_def by metis
  qed
  have new: "f \<notin> pt_tables ?m ?r" using f(1) L by blast
  have tt: "pt_tree ?m' ?r" "pt_tables ?m' ?r = insert f (pt_tables ?m ?r)"
    unfolding Q using tree_add_first [OF t new R] by blast+
  then have inv': "pt_tree ?m' ?r \<and> pt_tables ?m' ?r \<subseteq> insert f L" using L by auto
  have "?r \<in> pt_tables ?m ?r" by (simp add: tree_nodes_def)
  then have kept: "data_kept ?m ?m' ?r L" 
    by (rule data_kept_insert [OF tt(2) f(1) _ keep])
  have fp': "find_pte ?m' pt' v = Some (a, k) \<longleftrightarrow> find_pte ?m pt v = Some (a, k)" for v a k
    unfolding find_pte_iff root using R K Kf by metis
  have entry: "get_pte_array ?m' a k = get_pte_array ?m a k" if "find_pte ?m pt v = Some (a, k)" for v a k
  proof -
    have "a \<in> pt_tables ?m ?r" using that by (auto simp: find_pte_iff tree_nodes_def second_level_def)
    then show ?thesis using f(1) L leaf_not_inner(1) [OF t that] by (subst same) auto
  qed
  then have "pt_lookup ?m' pt' v = Some e \<longleftrightarrow> pt_lookup ?m pt v = Some e" for v e
    unfolding pt_lookup_Some_iff fp' by metis
  then have "pt_lookup ?m' pt' = pt_lookup ?m pt" by (metis ext option.exhaust)
  moreover have "pt_clean ?m' pt'" using clean entry unfolding pt_clean_def fp' by metis
  ultimately show thesis using inv' root R f(2) kept
    by (intro that [of "insert f L"]) (auto simp: pt_inv_def)
qed

lemma create_second_table:
  assumes ct: "create_table p i pt ph = Some (pt', ph')" and i: "i < 512"
    and inv: "pt_inv base ph pt L" and p: "child (ph_mem ph) (root_ppn pt) i0 p"
  obtains L' where "pt_inv base ph' pt' L'" "L \<subseteq> L'" "root_ppn pt' = root_ppn pt"
    "child (ph_mem ph') (root_ppn pt) i0 p" "\<exists>c. child (ph_mem ph') p i c"
    "pt_lookup (ph_mem ph') pt' = pt_lookup (ph_mem ph) pt"
    "data_kept (ph_mem ph) (ph_mem ph') (root_ppn pt) L"
proof (cases "pte_is_valid (get_pte_array (ph_mem ph) p i)")
  case True
  then have "pt' = pt" "ph' = ph" using ct by (simp_all add: create_table_def)
  with True inv i p show thesis by (intro that [of L]) (auto simp: child_def data_kept_refl)
next
  case False
  let ?r = "root_ppn pt" and ?m = "ph_mem ph" and ?m' = "ph_mem ph'"
  have t: "pt_tree ?m ?r" and L: "pt_tables ?m ?r \<subseteq> L" and live: "fa_live base (ph_frames ph) L"
    and clean: "pt_clean ?m pt"
    using inv by (simp_all add: pt_inv_def)
  have inner: "?r \<in> L" "child ?m ?r j c \<Longrightarrow> c \<in> L" for j c using L by (auto simp: tree_nodes_def)
  obtain f where f: "f \<notin> L" "fa_live base (ph_frames ph') (insert f L)"
    and same: "\<And>q j. q \<noteq> f \<Longrightarrow> get_pte_array ?m' q j
           = (if q = p \<and> j = i then pte_new f PTE_V else get_pte_array ?m q j)"
    and zero: "\<And>j. j < 512 \<Longrightarrow> get_pte_array ?m' f j = 0"
    and fp: "pte_ppn (pte_new f PTE_V) = f" and root: "root_ppn pt' = ?r"
    and keep: "\<And>q. q \<noteq> f \<Longrightarrow> q \<noteq> p \<Longrightarrow> ?m' q = ?m q"
    using create_table_new [OF ct live inner(2) [OF p] False i] by blast
  have rp: "?r \<noteq> p" using tree_shapeD(2) [OF t] p by metis
  have rf: "?r \<noteq> f" "p \<noteq> f" using f(1) inner p by blast+
  have R: "child ?m' ?r = child ?m ?r"
    using rf rp by (auto simp: child_def same fun_eq_iff)
  have Kp: "child ?m' p k d \<longleftrightarrow> child ?m p k d \<or> k = i \<and> d = f" for k d
    using False i fp rf by (auto simp: child_def same)
  have K: "child ?m' c = child ?m c" if "child ?m ?r j c" "c \<noteq> p" for j c
  proof -
    have "c \<noteq> f" using inner(2) [OF that(1)] f(1) by blast
    with that(2) show ?thesis by (intro ext) (simp add: child_def same)
  qed
  have Q: "pt_second ?m' ?r c k d \<longleftrightarrow> pt_second ?m ?r c k d \<or> c = p \<and> k = i \<and> d = f" for c k d
    unfolding second_level_def R using Kp K p by metis
  have new: "f \<notin> pt_tables ?m ?r" using f(1) L by blast
  have tt: "pt_tree ?m' ?r" "pt_tables ?m' ?r = insert f (pt_tables ?m ?r)"
    using tree_add_second [OF t new Q] unfolding R by blast+
  then have inv': "pt_tree ?m' ?r \<and> pt_tables ?m' ?r \<subseteq> insert f L" using L by auto
  have "p \<in> pt_tables ?m ?r" using p by (auto simp: tree_nodes_def)
  then have kept: "data_kept ?m ?m' ?r L" 
    by (rule data_kept_insert [OF tt(2) f(1) _ keep])
  have fp': "find_pte ?m' pt' v = Some (a, k) \<longleftrightarrow> find_pte ?m pt v = Some (a, k)" if "a \<noteq> f" for v a k
    unfolding find_pte_iff root R using Kp K that by metis
  have Lf: "a \<noteq> f" "get_pte_array ?m' a k = get_pte_array ?m a k" if "find_pte ?m pt v = Some (a, k)" for v a k
  proof -
    have "a \<in> pt_tables ?m ?r" using that by (auto simp: find_pte_iff tree_nodes_def second_level_def)
    then show "a \<noteq> f" using f(1) L by blast
    moreover have "a \<noteq> p" using leaf_not_inner(2) [OF t that] p by blast
    ultimately show "get_pte_array ?m' a k = get_pte_array ?m a k" by (simp add: same)
  qed
  have "pt_lookup ?m' pt' v = Some e \<longleftrightarrow> pt_lookup ?m pt v = Some e" for v e
  proof
    assume "pt_lookup ?m' pt' v = Some e"
    then obtain a k where w: "find_pte ?m' pt' v = Some (a, k)" "e = get_pte_array ?m' a k" "pte_is_valid e"
      by (auto simp: pt_lookup_Some_iff)
    have "k < 512" using w(1) indexes_less [of 2 v] by (auto simp: find_pte_iff)
    then have "a \<noteq> f" using w(2,3) zero by auto
    with w Lf show "pt_lookup ?m pt v = Some e" by (auto simp: pt_lookup_Some_iff fp')
  next
    assume "pt_lookup ?m pt v = Some e"
    then show "pt_lookup ?m' pt' v = Some e" using Lf fp' unfolding pt_lookup_Some_iff by metis
  qed
  then have "pt_lookup ?m' pt' = pt_lookup ?m pt" by (metis ext option.exhaust)
  moreover have "pt_clean ?m' pt'"
    unfolding pt_clean_def
  proof (intro allI impI)
    fix v a k assume w: "find_pte ?m' pt' v = Some (a, k)" "\<not> pte_is_valid (get_pte_array ?m' a k)"
    have k: "k < 512" using w(1) indexes_less [of 2 v] by (auto simp: find_pte_iff)
    show "get_pte_array ?m' a k = 0"
      using zero [OF k] clean w Lf fp' unfolding pt_clean_def by (cases "a = f") metis+
  qed
  ultimately show thesis using inv' root R Kp p f(2) kept
    by (intro that [of "insert f L"]) (auto simp: pt_inv_def)
qed

lemma find_pte_create_facts:
  assumes fc: "find_pte_create vpn pt ph = Some (loc, pt', ph')" and inv: "pt_inv base ph pt L"
  obtains L' where "pt_inv base ph' pt' L'" "L \<subseteq> L'" "root_ppn pt' = root_ppn pt"
    "loc = find_pte (ph_mem ph') pt' vpn" "loc \<noteq> None"
    "pt_lookup (ph_mem ph') pt' = pt_lookup (ph_mem ph) pt"
    "data_kept (ph_mem ph) (ph_mem ph') (root_ppn pt) L"
proof -
  obtain a b c where abc: "indexes vpn = [a, b, c]" by (simp add: indexes_eq)
  have lt: "unat a < 512" "unat b < 512"
    using indexes_less [of 0 vpn] indexes_less [of 1 vpn] abc by simp_all
  let ?r = "root_ppn pt"
  obtain pt1 ph1 where 1: "create_table ?r (unat a) pt ph = Some (pt1, ph1)"
    using fc by (auto simp: find_pte_create_def abc split: option.splits)
  obtain L1 where i1: "pt_inv base ph1 pt1 L1" "L \<subseteq> L1" "root_ppn pt1 = ?r"
      "\<exists>c. child (ph_mem ph1) ?r (unat a) c" "pt_lookup (ph_mem ph1) pt1 = pt_lookup (ph_mem ph) pt"
      "data_kept (ph_mem ph) (ph_mem ph1) ?r L"
    by (rule create_root_table [OF 1 lt(1) inv])
  let ?p = "pte_ppn (get_pte_array (ph_mem ph1) ?r (unat a))"
  have p: "child (ph_mem ph1) (root_ppn pt1) (unat a) ?p" using i1(3,4) by (auto simp: child_def)
  obtain pt2 ph2 where 2: "create_table ?p (unat b) pt1 ph1 = Some (pt2, ph2)"
    and res: "loc = Some (pte_ppn (get_pte_array (ph_mem ph2) ?p (unat b)), unat c)" "pt' = pt2" "ph' = ph2"
    using fc 1 by (auto simp: find_pte_create_def abc split: option.splits)
  obtain L2 where i2: "pt_inv base ph2 pt2 L2" "L1 \<subseteq> L2" "root_ppn pt2 = root_ppn pt1"
      "child (ph_mem ph2) (root_ppn pt1) (unat a) ?p" "\<exists>c. child (ph_mem ph2) ?p (unat b) c"
      "pt_lookup (ph_mem ph2) pt2 = pt_lookup (ph_mem ph1) pt1"
      "data_kept (ph_mem ph1) (ph_mem ph2) (root_ppn pt1) L1"
    by (rule create_second_table [OF 2 lt(2) i1(1) p])
  have "find_pte (ph_mem ph2) pt2 vpn = loc"
    unfolding res(1) find_pte_iff abc using i2(3-5) by (auto simp: child_def)
  moreover have "data_kept (ph_mem ph) (ph_mem ph2) ?r L"
    using i1(2,3,6) i2(7) by (auto intro: data_kept_trans)
  ultimately show thesis using res i1 i2 by (intro that [of L2]) auto
qed

lemma leaf_write_kept:
  assumes "find_pte m pt vpn = Some (t, k)"
    and "pt_tables (write_pte t k e m) (root_ppn pt) = pt_tables m (root_ppn pt)"
  shows "data_kept m (write_pte t k e m) (root_ppn pt) L"
proof -
  have "t \<in> pt_tables m (root_ppn pt)"
    using assms(1) by (auto simp: find_pte_iff tree_nodes_def second_level_def)
  then show ?thesis unfolding data_kept_def assms(2) by (auto simp: write_pte_def)
qed

lemma pt_map_facts:
  assumes inv: "pt_inv base ph pt L" and m: "pt_map vpn ppn flags pt ph = Some (pt', ph')"
    and v: "unat vpn < 2 ^ 27" "unat ppn < 2 ^ 44"
  obtains L' where "L \<subseteq> L'" "pt_inv base ph' pt' L'" "root_ppn pt' = root_ppn pt"
    "pt_lookup (ph_mem ph) pt vpn = None"
    "\<And>w. unat w < 2 ^ 27 \<Longrightarrow> pt_lookup (ph_mem ph') pt' w
       = (if w = vpn then Some (pte_new ppn (flags OR PTE_V)) else pt_lookup (ph_mem ph) pt w)"
    "data_kept (ph_mem ph) (ph_mem ph') (root_ppn pt) L"
proof -
  obtain t i ph1 where fc: "find_pte_create vpn pt ph = Some (Some (t, i), pt', ph1)"
    and nv: "\<not> pte_is_valid (get_pte_array (ph_mem ph1) t i)"
    and ph': "ph' = ph1\<lparr>ph_mem := write_pte t i (pte_new ppn (flags OR PTE_V)) (ph_mem ph1)\<rparr>"
    using m by (auto simp: pt_map_def split: option.splits prod.splits if_splits)
  obtain L' where f: "pt_inv base ph1 pt' L'" "L \<subseteq> L'" "root_ppn pt' = root_ppn pt"
    "Some (t, i) = find_pte (ph_mem ph1) pt' vpn" "Some (t, i) \<noteq> None"
    "pt_lookup (ph_mem ph1) pt' = pt_lookup (ph_mem ph) pt"
    "data_kept (ph_mem ph) (ph_mem ph1) (root_ppn pt) L"
    by (rule find_pte_create_facts [OF fc inv])
  have tr: "pt_tree (ph_mem ph1) (root_ppn pt')" using f(1) by (simp add: pt_inv_def)
  note lw = leaf_write [OF tr f(4) [symmetric] v(1)]
  have "pt_lookup (ph_mem ph) pt vpn = None"
    using f(4) nv by (simp add: f(6) [symmetric] pt_lookup_def translate_def flip: f(4))
  moreover have "pt_inv base ph' pt' L'"
    using f(1) lw(1,2) lw(4) by (simp add: pt_inv_def ph')
  moreover have "data_kept (ph_mem ph1) (ph_mem ph') (root_ppn pt) L'"
    using leaf_write_kept [OF f(4) [symmetric]] f(3) lw(2) by (simp add: ph')
  then have "data_kept (ph_mem ph) (ph_mem ph') (root_ppn pt) L" by (rule data_kept_trans [OF f(7) _ f(2)])
  ultimately show thesis using f lw(3) by (intro that [of L']) (simp_all add: ph')
qed

lemma pt_unmap_facts:
  assumes inv: "pt_inv base ph pt L" and m: "pt_unmap vpn pt ph = Some ph'" and v: "unat vpn < 2 ^ 27"
  shows "pt_inv base ph' pt L" "pt_lookup (ph_mem ph) pt vpn \<noteq> None"
    "unat w < 2 ^ 27 \<Longrightarrow> pt_lookup (ph_mem ph') pt w
       = (if w = vpn then None else pt_lookup (ph_mem ph) pt w)"
    "data_kept (ph_mem ph) (ph_mem ph') (root_ppn pt) L"
    "pt_tables (ph_mem ph') (root_ppn pt) = pt_tables (ph_mem ph) (root_ppn pt)"
    "ph_frames ph' = ph_frames ph"
proof -
  obtain t i where f: "find_pte (ph_mem ph) pt vpn = Some (t, i)" "pte_is_valid (get_pte_array (ph_mem ph) t i)"
    and ph': "ph' = ph\<lparr>ph_mem := write_pte t i pte_empty (ph_mem ph)\<rparr>"
    using m by (auto simp: pt_unmap_def split: option.splits prod.splits if_splits)
  have tr: "pt_tree (ph_mem ph) (root_ppn pt)" using inv by (simp add: pt_inv_def)
  note lw = leaf_write [OF tr f(1) v]
  show "pt_inv base ph' pt L" using inv lw(1,2) lw(4) by (simp add: pt_inv_def ph' pte_empty_def)
  show "pt_lookup (ph_mem ph) pt vpn \<noteq> None" using f by (simp add: pt_lookup_def translate_def)
  show "unat w < 2 ^ 27 \<Longrightarrow> pt_lookup (ph_mem ph') pt w
       = (if w = vpn then None else pt_lookup (ph_mem ph) pt w)"
    using lw(3) by (simp add: ph')
  show "pt_tables (ph_mem ph') (root_ppn pt) = pt_tables (ph_mem ph) (root_ppn pt)"
    "ph_frames ph' = ph_frames ph"
    using lw(2) by (simp_all add: ph')
  show "data_kept (ph_mem ph) (ph_mem ph') (root_ppn pt) L"
    using leaf_write_kept [OF f(1) lw(2)] by (simp add: ph')
qed

text \<open>
  C23: mapping a page updates the mapping a table denotes at exactly that page. The invariant
  (the tables form a tree inside the allocated frames) is kept, no other page changes what
  it resolves to, no allocated frame outside the tables is written to or reused for a table,
  and the new entry resolves to the requested frame with the requested flags.
\<close>

theorem pt_map_refines:
  assumes "pt_inv base ph pt L" "pt_map vpn ppn flags pt ph = Some (pt', ph')"
    and "unat vpn < 2 ^ 27" "unat ppn < 2 ^ 44"
  shows "\<exists>L'. L \<subseteq> L' \<and> pt_inv base ph' pt' L' \<and> root_ppn pt' = root_ppn pt
       \<and> pt_lookup (ph_mem ph) pt vpn = None
       \<and> (\<forall>w. unat w < 2 ^ 27 \<longrightarrow> pt_lookup (ph_mem ph') pt' w
             = (if w = vpn then Some (pte_new ppn (flags OR PTE_V)) else pt_lookup (ph_mem ph) pt w))
       \<and> data_kept (ph_mem ph) (ph_mem ph') (root_ppn pt) L
       \<and> pte_ppn (pte_new ppn (flags OR PTE_V)) = ppn
       \<and> pte_flags (pte_new ppn (flags OR PTE_V)) = flags OR PTE_V"
  by (rule pt_map_facts [OF assms]) (simp only: pte_ppn_new [OF assms(4)] pte_flags_new, blast)

text \<open>
  C24: unmapping a page removes exactly that page from the mapping, and keeps the invariant.
\<close>

theorem pt_unmap_refines:
  assumes "pt_inv base ph pt L" "pt_unmap vpn pt ph = Some ph'" "unat vpn < 2 ^ 27"
  shows "pt_inv base ph' pt L
       \<and> (\<forall>w. unat w < 2 ^ 27 \<longrightarrow> pt_lookup (ph_mem ph') pt w
             = (if w = vpn then None else pt_lookup (ph_mem ph) pt w))"
  using pt_unmap_facts [OF assms] by blast

section \<open>Mapping succeeds\<close>

lemma create_table_succeeds:
  assumes "n < fa_free (ph_frames ph)"
  shows "\<exists>pt' ph'. create_table p i pt ph = Some (pt', ph') \<and> n \<le> fa_free (ph_frames ph')"
  using frame_alloc_succeeds [of n ph] assms
  by (cases "pte_is_valid (get_pte_array (ph_mem ph) p i)") (auto simp: create_table_def)

lemma pt_unmap_succeeds:
  "pt_lookup (ph_mem ph) pt vpn = Some e \<Longrightarrow> \<exists>ph'. pt_unmap vpn pt ph = Some ph'"
  by (auto simp: pt_lookup_Some_iff pt_unmap_def)

lemma pt_new_inv:
  assumes "pt_new ph = Some (pt, ph')" "fa_live base (ph_frames ph) L"
  shows "pt_inv base ph' pt (insert (root_ppn pt) L)" "pt_lookup (ph_mem ph') pt v = None"
    "root_ppn pt \<notin> L" "pt_tables (ph_mem ph') (root_ppn pt) = {root_ppn pt}"
proof -
  obtain f where fa: "frame_alloc ph = (Some f, ph')" and pt: "pt = \<lparr>root_ppn = f, pt_frames = [f]\<rparr>"
    using assms(1) by (auto simp: pt_new_def split: prod.splits option.splits)
  note fr = frame_alloc_SomeD [OF fa assms(2)]
  have c: "\<not> child (ph_mem ph') f i c" for i c
    by (auto simp: child_def fr(3) get_pte_array_zero_same)
  then have none: "find_pte (ph_mem ph') pt v = None" for v
    by (cases "find_pte (ph_mem ph') pt v") (auto simp: find_pte_iff pt)
  then show "pt_lookup (ph_mem ph') pt v = None" by (simp add: pt_lookup_def translate_def)
  show "pt_inv base ph' pt (insert (root_ppn pt) L)"
    using c fr(2) none by (auto simp: pt_inv_def pt_clean_def pt tree_shape_def tree_nodes_def second_level_def)
  show "root_ppn pt \<notin> L" using fr(1) by (simp add: pt)
  show "pt_tables (ph_mem ph') (root_ppn pt) = {root_ppn pt}"
    using c by (simp add: pt tree_nodes_def second_level_def)
qed

lemma pt_map_succeeds_free:
  assumes inv: "pt_inv base ph pt L" and free: "n + 2 \<le> fa_free (ph_frames ph)"
    and u: "pt_lookup (ph_mem ph) pt vpn = None"
  shows "\<exists>pt' ph'. pt_map vpn ppn flags pt ph = Some (pt', ph') \<and> n \<le> fa_free (ph_frames ph')"
proof -
  obtain a b c where abc: "indexes vpn = [a, b, c]" by (simp add: indexes_eq)
  obtain pt1 ph1 where 1: "create_table (root_ppn pt) (unat a) pt ph = Some (pt1, ph1)"
      "n + 1 \<le> fa_free (ph_frames ph1)"
    using create_table_succeeds [of "n + 1" ph] free by fastforce
  obtain pt2 ph2 where 2: "create_table (pte_ppn (get_pte_array (ph_mem ph1) (root_ppn pt) (unat a)))
      (unat b) pt1 ph1 = Some (pt2, ph2)" "n \<le> fa_free (ph_frames ph2)"
    using create_table_succeeds [of n ph1] 1(2) by fastforce
  obtain loc where fc: "find_pte_create vpn pt ph = Some (Some loc, pt2, ph2)"
    using 1 2 by (simp add: find_pte_create_def abc)
  have "Some loc = find_pte (ph_mem ph2) pt2 vpn"
      "pt_lookup (ph_mem ph2) pt2 = pt_lookup (ph_mem ph) pt"
    by (rule find_pte_create_facts [OF fc inv], blast)+
  then have "find_pte (ph_mem ph2) pt2 vpn = Some (fst loc, snd loc)" "pt_lookup (ph_mem ph2) pt2 vpn = None"
    using u by simp_all
  then have "\<not> pte_is_valid (get_pte_array (ph_mem ph2) (fst loc) (snd loc))"
    using pt_lookup_Some_iff [of "ph_mem ph2" pt2 vpn] by force
  then show ?thesis using fc 2(2) by (cases loc) (simp add: pt_map_def)
qed

lemma pt_map_succeeds:
  assumes "pt_inv base ph pt L" "2 \<le> fa_free (ph_frames ph)" "pt_lookup (ph_mem ph) pt vpn = None"
  shows "\<exists>pt' ph'. pt_map vpn ppn flags pt ph = Some (pt', ph')"
  using pt_map_succeeds_free [of base ph pt L 0] assms by auto

text \<open>
  C25: mapping a page that is not mapped never panics while two frames are free, the most a
  walk can need for missing tables.
\<close>

theorem pt_map_total:
  assumes "pt_inv base ph pt L" "2 \<le> fa_free (ph_frames ph)" "pt_lookup (ph_mem ph) pt vpn = None"
  shows "\<exists>pt' ph'. pt_map vpn ppn flags pt ph = Some (pt', ph')"
  by (rule pt_map_succeeds [OF assms])

section \<open>What a walk depends on\<close>

lemma find_pte_root: "root_ppn pt = root_ppn pt' \<Longrightarrow> find_pte m pt = find_pte m pt'"
  by (intro ext) (simp add: find_pte_def)

lemma translate_root: "root_ppn pt = root_ppn pt' \<Longrightarrow> translate m pt = translate m pt'"
  using find_pte_root [of pt pt' m] by (intro ext) (simp add: translate_def)

lemma translate_frames:
  assumes "\<And>t. t \<in> pt_tables m (root_ppn pt) \<Longrightarrow> m' t = m t"
  shows "translate m' pt = translate m pt"
    and "pt_tables m' (root_ppn pt) = pt_tables m (root_ppn pt)"
    and "pt_tree m' (root_ppn pt) = pt_tree m (root_ppn pt)"
    and "pt_clean m' pt = pt_clean m pt"
proof -
  have inner: "get_pte_array m' t i = get_pte_array m t i"
    if "t = root_ppn pt \<or> (\<exists>j. child m (root_ppn pt) j t)" for t i
    using that by (intro get_pte_array_cong assms) (auto simp: tree_nodes_def)
  have fp: "find_pte m' pt = find_pte m pt" "child m' (root_ppn pt) = child m (root_ppn pt)"
      "pt_second m' (root_ppn pt) = pt_second m (root_ppn pt)"
    using inner_agree [of pt m m'] inner by blast+
  show "pt_tables m' (root_ppn pt) = pt_tables m (root_ppn pt)" unfolding fp(3) unfolding fp(2) ..
  show "pt_tree m' (root_ppn pt) = pt_tree m (root_ppn pt)" unfolding fp(3) unfolding fp(2) ..
  have leaf: "get_pte_array m' t k = get_pte_array m t k" if "find_pte m pt v = Some (t, k)" for v t k
    using that by (intro get_pte_array_cong assms) (auto simp: find_pte_iff tree_nodes_def second_level_def)
  then show "translate m' pt = translate m pt"
    by (intro ext) (auto simp: translate_def fp(1) intro: option.map_cong)
  show "pt_clean m' pt = pt_clean m pt"
    using leaf unfolding pt_clean_def fp(1) by metis
qed

lemma frame_alloc_pt:
  assumes inv: "pt_inv base ph pt L" and fa: "frame_alloc ph = (Some f, ph')"
  shows "pt_inv base ph' pt (insert f L)" "f \<notin> L" "unat f < 2 ^ 44"
    "translate (ph_mem ph') pt = translate (ph_mem ph) pt"
    "pt_tables (ph_mem ph') (root_ppn pt) = pt_tables (ph_mem ph) (root_ppn pt)"
    "\<And>q. q \<in> L \<Longrightarrow> ph_mem ph' q = ph_mem ph q"
proof -
  have live: "fa_live base (ph_frames ph) L" and sub: "pt_tables (ph_mem ph) (root_ppn pt) \<subseteq> L"
    using inv by (simp_all add: pt_inv_def)
  note fr = frame_alloc_SomeD [OF fa live]
  show "f \<notin> L" by (rule fr(1))
  show "unat f < 2 ^ 44" by (rule fa_live_less [OF fr(2)]) simp
  show keep: "ph_mem ph' q = ph_mem ph q" if "q \<in> L" for q
    using that fr(1,3) by (auto simp: zero_frame_def)
  then have "\<And>t. t \<in> pt_tables (ph_mem ph) (root_ppn pt) \<Longrightarrow> ph_mem ph' t = ph_mem ph t"
    using sub by blast
  then have tf: "translate (ph_mem ph') pt = translate (ph_mem ph) pt"
      "pt_tables (ph_mem ph') (root_ppn pt) = pt_tables (ph_mem ph) (root_ppn pt)"
      "pt_tree (ph_mem ph') (root_ppn pt) = pt_tree (ph_mem ph) (root_ppn pt)"
      "pt_clean (ph_mem ph') pt = pt_clean (ph_mem ph) pt"
    using translate_frames [where m = "ph_mem ph" and pt = pt and m' = "ph_mem ph'"] by blast+
  show "translate (ph_mem ph') pt = translate (ph_mem ph) pt"
    "pt_tables (ph_mem ph') (root_ppn pt) = pt_tables (ph_mem ph) (root_ppn pt)"
    using tf by simp_all
  show "pt_inv base ph' pt (insert f L)"
    using inv fr(2) tf(2-4) by (auto simp only: pt_inv_def)
qed

lemma pt_clean_translate:
  assumes "pt_clean m pt" "translate m pt v = Some e" "e \<noteq> 0"
  shows "pt_lookup m pt v = Some e"
proof -
  obtain t k where f: "find_pte m pt v = Some (t, k)" "e = get_pte_array m t k"
    using assms(2) by (auto simp: translate_def)
  then have "pte_is_valid e" using assms(1,3) unfolding pt_clean_def by blast
  with f show ?thesis by (auto simp: pt_lookup_Some_iff)
qed

section \<open>A concrete table\<close>

text \<open>A machine with ten frames, all clear, and an address space with one page mapped.\<close>

definition demo_phys :: phys where
  "demo_phys = \<lparr>ph_mem = \<lambda>_ _. 0, ph_frames = \<lparr>fa_current = 1, fa_end = 41, fa_recycled = []\<rparr>\<rparr>"

lemma demo_new:
  obtains pt ph where "pt_new demo_phys = Some (pt, ph)" "pt_inv 1 ph pt {1}" "root_ppn pt = 1"
    "2 < fa_free (ph_frames ph)" "\<And>v. pt_lookup (ph_mem ph) pt v = None"
proof -
  have live: "fa_live 1 (ph_frames demo_phys) {}" by (simp add: demo_phys_def fa_live_def)
  obtain pt ph where n: "pt_new demo_phys = Some (pt, ph)" "root_ppn pt = 1"
      "ph_frames ph = \<lparr>fa_current = 2, fa_end = 41, fa_recycled = []\<rparr>"
    by (simp add: demo_phys_def pt_new_def frame_alloc_def fa_alloc_def ppn_from_usize_def model_defs)
  with pt_new_inv [OF n(1) live] show thesis
    by (intro that [OF n(1)]) (simp_all add: fa_free_def)
qed

theorem pt_map_total_witness:
  "\<exists>pt ph pt' ph'. pt_new demo_phys = Some (pt, ph) \<and> pt_map 7 9 PTE_R pt ph = Some (pt', ph')"
  by (rule demo_new) (use pt_map_total less_imp_le in blast)

theorem pt_map_refines_witness:
  "\<exists>pt ph pt' ph'. pt_new demo_phys = Some (pt, ph) \<and> pt_map 7 9 PTE_R pt ph = Some (pt', ph')
     \<and> pt_lookup (ph_mem ph') pt' 7 = Some (pte_new 9 (PTE_R OR PTE_V))
     \<and> pt_lookup (ph_mem ph') pt' 8 = None"
proof (rule demo_new)
  fix pt ph
  assume n: "pt_new demo_phys = Some (pt, ph)" and inv: "pt_inv 1 ph pt {1}"
    and free: "2 < fa_free (ph_frames ph)" and none: "\<And>v. pt_lookup (ph_mem ph) pt v = None"
  obtain pt' ph' where m: "pt_map 7 9 PTE_R pt ph = Some (pt', ph')"
    using pt_map_succeeds [OF inv less_imp_le [OF free] none] by blast
  have "pt_lookup (ph_mem ph') pt' 7 = Some (pte_new 9 (PTE_R OR PTE_V))
     \<and> pt_lookup (ph_mem ph') pt' 8 = None"
    using pt_map_refines [OF inv m] none by auto
  with n m show ?thesis by blast
qed

theorem pt_unmap_refines_witness:
  "\<exists>ph pt ph'. pt_unmap 7 pt ph = Some ph' \<and> pt_lookup (ph_mem ph) pt 7 \<noteq> None
     \<and> pt_lookup (ph_mem ph') pt 7 = None"
proof (rule demo_new)
  fix pt ph
  assume n: "pt_new demo_phys = Some (pt, ph)" and inv: "pt_inv 1 ph pt {1}"
    and free: "2 < fa_free (ph_frames ph)" and none: "\<And>v. pt_lookup (ph_mem ph) pt v = None"
  obtain pt' ph' where m: "pt_map 7 9 PTE_R pt ph = Some (pt', ph')"
    using pt_map_succeeds [OF inv less_imp_le [OF free] none] by blast
  obtain L' where i: "pt_inv 1 ph' pt' L'"
    and l: "pt_lookup (ph_mem ph') pt' 7 = Some (pte_new 9 (PTE_R OR PTE_V))"
    by (rule pt_map_facts [OF inv m]) simp_all
  then obtain ph2 where u: "pt_unmap 7 pt' ph' = Some ph2"
    using pt_unmap_succeeds by blast
  have "pt_lookup (ph_mem ph2) pt' 7 = None" using pt_unmap_refines [OF i u] by simp
  with u l show ?thesis by (intro exI [of _ ph'] exI [of _ pt'] exI [of _ ph2]) simp
qed

end
