(* ===== verification/Memory_Set.thy ===== *)
theory Memory_Set
  imports Page_Table "HOL-Library.Monad_Syntax"
begin

text \<open>
  Address spaces (os/src/mm/memory_set.rs). A \<open>MemorySet\<close> owns a page table and its areas; a
  framed area owns one frame for each of its pages. Every operation threads the physical
  memory with the frame allocator, and \<open>None\<close> is a kernel panic. Dropping a value frees the
  frames it owns, in the order Rust drops them. The addresses of linker symbols and the
  parsed form of an ELF image (a third-party parser) are parameters.
\<close>

section \<open>Ordered maps\<close>

text \<open>A \<open>BTreeMap\<close> is the list of its entries in the order of the keys.\<close>

fun bt_insert :: "'k::linorder \<Rightarrow> 'v \<Rightarrow> ('k \<times> 'v) list \<Rightarrow> ('k \<times> 'v) list" where
  "bt_insert k v [] = [(k, v)]"
| "bt_insert k v (e # es) =
     (if fst e < k then e # bt_insert k v es
      else if fst e = k then (k, v) # es
      else (k, v) # e # es)"

definition bt_remove :: "'k \<Rightarrow> ('k \<times> 'v) list \<Rightarrow> ('k \<times> 'v) list" where
  "bt_remove k es = filter (\<lambda>e. fst e \<noteq> k) es"

section \<open>Areas\<close>

datatype MapType = Identical | Framed

type_synonym MapPermission = u8

record MapArea =
  vpn_range :: VPNRange
  data_frames :: "(VirtPageNum \<times> PhysPageNum) list"
  map_type :: MapType
  map_perm :: MapPermission

definition area_new :: "VirtAddr \<Rightarrow> VirtAddr \<Rightarrow> MapType \<Rightarrow> MapPermission \<Rightarrow> MapArea option" where
  "area_new start_va end_va ty perm =
     do { r \<leftarrow> range_new (va_floor start_va) (va_ceil end_va);
          Some \<lparr>vpn_range = r, data_frames = [], map_type = ty, map_perm = perm\<rparr> }"

definition area_from_another :: "MapArea \<Rightarrow> MapArea option" where
  "area_from_another another =
     do { r \<leftarrow> range_new (range_l (vpn_range another)) (range_r (vpn_range another));
          Some \<lparr>vpn_range = r, data_frames = [], map_type = map_type another, map_perm = map_perm another\<rparr> }"

definition area_pages :: "MapArea \<Rightarrow> VirtPageNum list" where
  "area_pages area = range_items (range_l (vpn_range area)) (range_r (vpn_range area))"

text \<open>Inserting under an occupied key drops the frame that was there.\<close>

definition map_one ::
    "VirtPageNum \<Rightarrow> MapArea \<Rightarrow> PageTable \<Rightarrow> phys \<Rightarrow> (MapArea \<times> PageTable \<times> phys) option" where
  "map_one vpn area pt ph =
     do { (ppn, area, ph) \<leftarrow>
            (case map_type area of
               Identical \<Rightarrow> Some (vpn, area, ph)
             | Framed \<Rightarrow>
                 (case frame_alloc ph of
                    (None, _) \<Rightarrow> None
                  | (Some frame, ph) \<Rightarrow>
                      do { ph \<leftarrow> (case map_of (data_frames area) vpn of
                                   None \<Rightarrow> Some ph
                                 | Some old \<Rightarrow> frame_dealloc old ph);
                           Some (frame, area\<lparr>data_frames := bt_insert vpn frame (data_frames area)\<rparr>, ph) }));
          (pt, ph) \<leftarrow> pt_map vpn ppn (map_perm area) pt ph;
          Some (area, pt, ph) }"

definition unmap_one :: "VirtPageNum \<Rightarrow> MapArea \<Rightarrow> PageTable \<Rightarrow> phys \<Rightarrow> (MapArea \<times> phys) option" where
  "unmap_one vpn area pt ph =
     do { (area, ph) \<leftarrow>
            (if map_type area = Framed then
               (case map_of (data_frames area) vpn of
                  None \<Rightarrow> Some (area, ph)
                | Some frame \<Rightarrow>
                    do { ph \<leftarrow> frame_dealloc frame ph;
                         Some (area\<lparr>data_frames := bt_remove vpn (data_frames area)\<rparr>, ph) })
             else Some (area, ph));
          ph \<leftarrow> pt_unmap vpn pt ph;
          Some (area, ph) }"

fun map_pages ::
    "VirtPageNum list \<Rightarrow> MapArea \<Rightarrow> PageTable \<Rightarrow> phys \<Rightarrow> (MapArea \<times> PageTable \<times> phys) option" where
  "map_pages [] area pt ph = Some (area, pt, ph)"
| "map_pages (vpn # vpns) area pt ph =
     do { (area, pt, ph) \<leftarrow> map_one vpn area pt ph; map_pages vpns area pt ph }"

definition area_map :: "MapArea \<Rightarrow> PageTable \<Rightarrow> phys \<Rightarrow> (MapArea \<times> PageTable \<times> phys) option" where
  "area_map area pt ph = map_pages (area_pages area) area pt ph"

fun unmap_pages :: "VirtPageNum list \<Rightarrow> MapArea \<Rightarrow> PageTable \<Rightarrow> phys \<Rightarrow> (MapArea \<times> phys) option" where
  "unmap_pages [] area pt ph = Some (area, ph)"
| "unmap_pages (vpn # vpns) area pt ph =
     do { (area, ph) \<leftarrow> unmap_one vpn area pt ph; unmap_pages vpns area pt ph }"

definition area_unmap :: "MapArea \<Rightarrow> PageTable \<Rightarrow> phys \<Rightarrow> (MapArea \<times> phys) option" where
  "area_unmap area pt ph = unmap_pages (area_pages area) area pt ph"

text \<open>The loop of \<open>copy_data\<close>: one page of data at a time, at least once.\<close>

function copy_data_loop :: "PageTable \<Rightarrow> VirtPageNum \<Rightarrow> u8 list \<Rightarrow> phys_mem \<Rightarrow> phys_mem option" where
  "copy_data_loop pt current_vpn data m =
     do { pte \<leftarrow> translate m pt current_vpn;
          let m = write_prefix (pte_ppn pte) (take 4096 data) m in
          if length data \<le> 4096 then Some m
          else copy_data_loop pt (current_vpn + 1) (drop 4096 data) m }"
  by pat_completeness auto
termination
  by (relation "measure (\<lambda>(_, _, data, _). length data)") auto

declare copy_data_loop.simps [simp del]

definition copy_data :: "MapArea \<Rightarrow> PageTable \<Rightarrow> u8 list \<Rightarrow> phys_mem \<Rightarrow> phys_mem option" where
  "copy_data area pt data m =
     (if map_type area = Framed then copy_data_loop pt (range_l (vpn_range area)) data m else None)"

text \<open>Dropping an area frees the frames it still owns.\<close>

fun drop_frames :: "PhysPageNum list \<Rightarrow> phys \<Rightarrow> phys option" where
  "drop_frames [] ph = Some ph"
| "drop_frames (f # fs) ph = do { ph \<leftarrow> frame_dealloc f ph; drop_frames fs ph }"

definition area_drop :: "MapArea \<Rightarrow> phys \<Rightarrow> phys option" where
  "area_drop area ph = drop_frames (map snd (data_frames area)) ph"

section \<open>Memory sets\<close>

record MemorySet =
  page_table :: PageTable
  areas :: "MapArea list"

definition new_bare :: "phys \<Rightarrow> (MemorySet \<times> phys) option" where
  "new_bare ph = do { (pt, ph) \<leftarrow> pt_new ph; Some (\<lparr>page_table = pt, areas = []\<rparr>, ph) }"

definition ms_token :: "MemorySet \<Rightarrow> usize" where
  "ms_token ms = token (page_table ms)"

definition ms_translate :: "phys_mem \<Rightarrow> MemorySet \<Rightarrow> VirtPageNum \<Rightarrow> PageTableEntry option" where
  "ms_translate m ms vpn = translate m (page_table ms) vpn"

definition ms_push :: "MapArea \<Rightarrow> u8 list option \<Rightarrow> MemorySet \<Rightarrow> phys \<Rightarrow> (MemorySet \<times> phys) option" where
  "ms_push area data ms ph =
     do { (area, pt, ph) \<leftarrow> area_map area (page_table ms) ph;
          ph \<leftarrow> (case data of
                   None \<Rightarrow> Some ph
                 | Some d \<Rightarrow> map_option (\<lambda>m. ph\<lparr>ph_mem := m\<rparr>) (copy_data area pt d (ph_mem ph)));
          Some (ms\<lparr>page_table := pt, areas := areas ms @ [area]\<rparr>, ph) }"

definition insert_framed_area ::
    "VirtAddr \<Rightarrow> VirtAddr \<Rightarrow> MapPermission \<Rightarrow> MemorySet \<Rightarrow> phys \<Rightarrow> (MemorySet \<times> phys) option" where
  "insert_framed_area start_va end_va permission ms ph =
     do { area \<leftarrow> area_new start_va end_va Framed permission; ms_push area None ms ph }"

definition remove_area_with_start_vpn :: "VirtPageNum \<Rightarrow> MemorySet \<Rightarrow> phys \<Rightarrow> (MemorySet \<times> phys) option" where
  "remove_area_with_start_vpn start_vpn ms ph =
     (case position (\<lambda>area. range_l (vpn_range area) = start_vpn) (areas ms) of
        None \<Rightarrow> Some (ms, ph)
      | Some idx \<Rightarrow>
          do { (area, ph) \<leftarrow> area_unmap (areas ms ! idx) (page_table ms) ph;
               ph \<leftarrow> area_drop area ph;
               Some (ms\<lparr>areas := take idx (areas ms) @ drop (Suc idx) (areas ms)\<rparr>, ph) })"

definition map_trampoline :: "usize \<Rightarrow> MemorySet \<Rightarrow> phys \<Rightarrow> (MemorySet \<times> phys) option" where
  "map_trampoline strampoline ms ph =
     do { vpn \<leftarrow> vpn_from_va (va_from_usize TRAMPOLINE);
          ppn \<leftarrow> ppn_from_pa (pa_from_usize strampoline);
          (pt, ph) \<leftarrow> pt_map vpn ppn (PTE_R OR PTE_X) (page_table ms) ph;
          Some (ms\<lparr>page_table := pt\<rparr>, ph) }"

fun drop_areas :: "MapArea list \<Rightarrow> phys \<Rightarrow> phys option" where
  "drop_areas [] ph = Some ph"
| "drop_areas (a # as) ph = do { ph \<leftarrow> area_drop a ph; drop_areas as ph }"

definition recycle_data_pages :: "MemorySet \<Rightarrow> phys \<Rightarrow> (MemorySet \<times> phys) option" where
  "recycle_data_pages ms ph = do { ph \<leftarrow> drop_areas (areas ms) ph; Some (ms\<lparr>areas := []\<rparr>, ph) }"

text \<open>Dropping a memory set: its fields in the order of their declaration.\<close>

definition ms_drop :: "MemorySet \<Rightarrow> phys \<Rightarrow> phys option" where
  "ms_drop ms ph = do { ph \<leftarrow> drop_frames (pt_frames (page_table ms)) ph; drop_areas (areas ms) ph }"

subsection \<open>The kernel space\<close>

record linker_symbols =
  sym_stext :: usize
  sym_etext :: usize
  sym_srodata :: usize
  sym_erodata :: usize
  sym_sdata :: usize
  sym_edata :: usize
  sym_sbss_with_stack :: usize
  sym_ebss :: usize
  sym_ekernel :: usize
  sym_strampoline :: usize

definition MMIO :: "(usize \<times> usize) list" where
  "MMIO = [(0x100000, 0x2000), (0x10001000, 0x1000)]"

fun push_identical :: "(usize \<times> usize \<times> MapPermission) list \<Rightarrow> MemorySet \<Rightarrow> phys \<Rightarrow> (MemorySet \<times> phys) option" where
  "push_identical [] ms ph = Some (ms, ph)"
| "push_identical ((start, end', perm) # secs) ms ph =
     do { area \<leftarrow> area_new (va_from_usize start) (va_from_usize end') Identical perm;
          (ms, ph) \<leftarrow> ms_push area None ms ph;
          push_identical secs ms ph }"

definition new_kernel :: "linker_symbols \<Rightarrow> phys \<Rightarrow> (MemorySet \<times> phys) option" where
  "new_kernel syms ph =
     do { (ms, ph) \<leftarrow> new_bare ph;
          (ms, ph) \<leftarrow> map_trampoline (sym_strampoline syms) ms ph;
          push_identical
            ([(sym_stext syms, sym_etext syms, PTE_R OR PTE_X),
              (sym_srodata syms, sym_erodata syms, PTE_R),
              (sym_sdata syms, sym_edata syms, PTE_R OR PTE_W),
              (sym_sbss_with_stack syms, sym_ebss syms, PTE_R OR PTE_W),
              (sym_ekernel syms, MEMORY_END, PTE_R OR PTE_W)]
             @ map (\<lambda>(base, len). (base, base + len, PTE_R OR PTE_W)) MMIO) ms ph }"

subsection \<open>User spaces\<close>

record ElfProgramHeader =
  eph_load :: "bool option"
  eph_virtual_addr :: u64
  eph_mem_size :: u64
  eph_offset :: u64
  eph_file_size :: u64
  eph_read :: bool
  eph_write :: bool
  eph_execute :: bool

record ElfFile =
  elf_magic :: "u8 list"
  elf_headers :: "ElfProgramHeader option list"
  elf_entry_point :: u64

text \<open>A slice of the image; a bad range panics.\<close>

definition input_slice :: "u8 list \<Rightarrow> u64 \<Rightarrow> u64 \<Rightarrow> u8 list option" where
  "input_slice input from to =
     (if unat from \<le> unat to \<and> unat to \<le> length input
      then Some (take (unat to - unat from) (drop (unat from) input)) else None)"

fun load_headers ::
    "u8 list \<Rightarrow> ElfProgramHeader option list \<Rightarrow> VirtPageNum \<Rightarrow> MemorySet \<Rightarrow> phys
     \<Rightarrow> (VirtPageNum \<times> MemorySet \<times> phys) option" where
  "load_headers input [] max_end_vpn ms ph = Some (max_end_vpn, ms, ph)"
| "load_headers input (None # hs) max_end_vpn ms ph = None"
| "load_headers input (Some h # hs) max_end_vpn ms ph =
     (case eph_load h of
        None \<Rightarrow> None
      | Some False \<Rightarrow> load_headers input hs max_end_vpn ms ph
      | Some True \<Rightarrow>
          do { let perm = PTE_U OR (if eph_read h then PTE_R else 0) OR (if eph_write h then PTE_W else 0)
                          OR (if eph_execute h then PTE_X else 0);
               area \<leftarrow> area_new (va_from_usize (eph_virtual_addr h))
                         (va_from_usize (eph_virtual_addr h + eph_mem_size h)) Framed perm;
               data \<leftarrow> input_slice input (eph_offset h) (eph_offset h + eph_file_size h);
               (ms, ph) \<leftarrow> ms_push area (Some data) ms ph;
               load_headers input hs (range_r (vpn_range area)) ms ph })"

definition from_elf ::
    "(u8 list \<Rightarrow> ElfFile option) \<Rightarrow> usize \<Rightarrow> u8 list \<Rightarrow> phys \<Rightarrow> (MemorySet \<times> usize \<times> usize \<times> phys) option" where
  "from_elf parse strampoline elf_data ph =
     do { (ms, ph) \<leftarrow> new_bare ph;
          (ms, ph) \<leftarrow> map_trampoline strampoline ms ph;
          elf \<leftarrow> parse elf_data;
          if elf_magic elf \<noteq> [0x7f, 0x45, 0x4c, 0x46] then None else do {
          (max_end_vpn, ms, ph) \<leftarrow> load_headers elf_data (elf_headers elf) 0 ms ph;
          let user_stack_bottom = usize_from_va (va_from_vpn max_end_vpn) + PAGE_SIZE;
          let user_stack_top = user_stack_bottom + USER_STACK_SIZE;
          stack \<leftarrow> area_new (va_from_usize user_stack_bottom) (va_from_usize user_stack_top) Framed
                     (PTE_R OR PTE_W OR PTE_U);
          (ms, ph) \<leftarrow> ms_push stack None ms ph;
          cx \<leftarrow> area_new (va_from_usize TRAP_CONTEXT) (va_from_usize TRAMPOLINE) Framed (PTE_R OR PTE_W);
          (ms, ph) \<leftarrow> ms_push cx None ms ph;
          Some (ms, user_stack_top, elf_entry_point elf, ph) } }"

text \<open>The inner loop of \<open>from_existed_user\<close> copies each page of an area.\<close>

fun copy_pages :: "VirtPageNum list \<Rightarrow> MemorySet \<Rightarrow> MemorySet \<Rightarrow> phys_mem \<Rightarrow> phys_mem option" where
  "copy_pages [] src dst m = Some m"
| "copy_pages (vpn # vpns) src dst m =
     do { s \<leftarrow> ms_translate m src vpn;
          d \<leftarrow> ms_translate m dst vpn;
          copy_pages vpns src dst (write_prefix (pte_ppn d) (get_bytes_array m (pte_ppn s)) m) }"

fun copy_areas :: "MapArea list \<Rightarrow> MemorySet \<Rightarrow> MemorySet \<Rightarrow> phys \<Rightarrow> (MemorySet \<times> phys) option" where
  "copy_areas [] user_space ms ph = Some (ms, ph)"
| "copy_areas (area # as) user_space ms ph =
     do { new_area \<leftarrow> area_from_another area;
          (ms, ph) \<leftarrow> ms_push new_area None ms ph;
          m \<leftarrow> copy_pages (area_pages area) user_space ms (ph_mem ph);
          copy_areas as user_space ms (ph\<lparr>ph_mem := m\<rparr>) }"

definition from_existed_user :: "usize \<Rightarrow> MemorySet \<Rightarrow> phys \<Rightarrow> (MemorySet \<times> phys) option" where
  "from_existed_user strampoline user_space ph =
     do { (ms, ph) \<leftarrow> new_bare ph;
          (ms, ph) \<leftarrow> map_trampoline strampoline ms ph;
          copy_areas (areas user_space) user_space ms ph }"

section \<open>Mapping a framed area\<close>

lemma bt_insert_append: "\<forall>e \<in> set es. fst e < k \<Longrightarrow> bt_insert k v es = es @ [(k, v)]"
  by (induction es) auto

text \<open>
  What mapping the pages \<open>vs\<close> of a framed area achieves: each page gets a frame of its own,
  fresh and clear, and nothing else changes.
\<close>

definition pages_mapped ::
    "phys_mem \<Rightarrow> PageTable \<Rightarrow> phys_mem \<Rightarrow> PageTable \<Rightarrow> MapPermission \<Rightarrow> (VirtPageNum \<times> PhysPageNum) list
     \<Rightarrow> PhysPageNum set \<Rightarrow> bool" where
  "pages_mapped m pt m' pt' perm es L \<longleftrightarrow>
     root_ppn pt' = root_ppn pt
     \<and> distinct (map snd es) \<and> snd ` set es \<inter> L = {} \<and> snd ` set es \<inter> pt_tables m' (root_ppn pt) = {}
     \<and> (\<forall>f \<in> snd ` set es. unat f < 2 ^ 44 \<and> (\<forall>off < 4096. m' f off = 0))
     \<and> (\<forall>w. unat w < 2 ^ 27 \<longrightarrow> pt_lookup m' pt' w =
          (case map_of es w of Some f \<Rightarrow> Some (pte_new f (perm OR PTE_V)) | None \<Rightarrow> pt_lookup m pt w))
     \<and> data_kept m m' (root_ppn pt) L"

lemma map_one_framed:
  assumes inv: "pt_inv base ph pt L" and fr: "map_type area = Framed"
    and new: "\<forall>e \<in> set (data_frames area). fst e < vpn" and v: "unat vpn < 2 ^ 27"
    and m: "map_one vpn area pt ph = Some (area', pt', ph')"
  obtains f L' where "area' = area\<lparr>data_frames := data_frames area @ [(vpn, f)]\<rparr>"
    "pages_mapped (ph_mem ph) pt (ph_mem ph') pt' (map_perm area) [(vpn, f)] L"
    "pt_inv base ph' pt' L'" "insert f L \<subseteq> L'"
proof -
  have none: "map_of (data_frames area) vpn = None"
    using new by (auto simp: map_of_eq_None_iff)
  obtain f ph1 where fa: "frame_alloc ph = (Some f, ph1)"
    and area': "area' = area\<lparr>data_frames := data_frames area @ [(vpn, f)]\<rparr>"
    and mp: "pt_map vpn f (map_perm area) pt ph1 = Some (pt', ph')"
    using m fr none bt_insert_append [OF new]
    by (auto simp: map_one_def bind_eq_Some_conv split: prod.splits option.splits)
  note a = frame_alloc_pt [OF inv fa]
  have live: "fa_live base (ph_frames ph) L" and sub: "pt_tables (ph_mem ph) (root_ppn pt) \<subseteq> L"
    using inv by (simp_all add: pt_inv_def)
  have zero: "ph_mem ph1 = zero_frame f (ph_mem ph)" by (rule frame_alloc_SomeD(3) [OF fa live])
  obtain L' where p: "insert f L \<subseteq> L'" "pt_inv base ph' pt' L'" "root_ppn pt' = root_ppn pt"
      "pt_lookup (ph_mem ph1) pt vpn = None"
      "\<And>w. unat w < 2 ^ 27 \<Longrightarrow> pt_lookup (ph_mem ph') pt' w
        = (if w = vpn then Some (pte_new f (map_perm area OR PTE_V)) else pt_lookup (ph_mem ph1) pt w)"
      "data_kept (ph_mem ph1) (ph_mem ph') (root_ppn pt) (insert f L)"
    by (rule pt_map_facts [OF a(1) mp v a(3)]) (rule that)
  have fnt: "f \<notin> pt_tables (ph_mem ph1) (root_ppn pt)" using a(2,5) sub by auto
  then have keep: "ph_mem ph' f = ph_mem ph1 f" "f \<notin> pt_tables (ph_mem ph') (root_ppn pt)"
    using p(6) by (auto simp: data_kept_def)
  have "data_kept (ph_mem ph) (ph_mem ph1) (root_ppn pt) L"
    using a(5,6) by (auto simp: data_kept_def)
  then have dk: "data_kept (ph_mem ph) (ph_mem ph') (root_ppn pt) L"
    by (rule data_kept_trans [OF _ p(6)]) auto
  have lk: "pt_lookup (ph_mem ph1) pt = pt_lookup (ph_mem ph) pt" using a(4) by (simp add: pt_lookup_def fun_eq_iff)
  have z: "\<forall>off < 4096. ph_mem ph' f off = 0" using keep(1) zero by (simp add: zero_frame_def)
  have "pages_mapped (ph_mem ph) pt (ph_mem ph') pt' (map_perm area) [(vpn, f)] L"
    unfolding pages_mapped_def using a(2,3) keep(2) z p(3) p(5) [unfolded lk] dk
    by simp
  from that [OF area' this p(2,1)] show thesis .
qed

lemma pages_mapped_Cons:
  assumes a: "pages_mapped m pt m1 pt1 perm [(v, f)] L" and b: "pages_mapped m1 pt1 m2 pt2 perm es L1"
    and L: "insert f L \<subseteq> L1" and v: "v \<notin> fst ` set es"
  shows "pages_mapped m pt m2 pt2 perm ((v, f) # es) L"
proof -
  note A = a [unfolded pages_mapped_def, simplified]
  note B = b [unfolded pages_mapped_def]
  have root: "root_ppn pt1 = root_ppn pt" "root_ppn pt2 = root_ppn pt" using A B by simp_all
  have fL: "f \<in> L1" "f \<notin> pt_tables m1 (root_ppn pt)" using L A by auto
  have dk1: "data_kept m1 m2 (root_ppn pt) L1" using B root by simp
  then have keep: "m2 f = m1 f" "f \<notin> pt_tables m2 (root_ppn pt)"
    using fL by (auto simp: data_kept_def)
  have none: "map_of es v = None" using v by (simp add: map_of_eq_None_iff)
  have "data_kept m m2 (root_ppn pt) L"
    using A dk1 L by (intro data_kept_trans [OF _ dk1]) auto
  moreover have "snd ` set es \<inter> L = {}" "f \<notin> snd ` set es" using B L by auto
  moreover have "pt_lookup m2 pt2 w = (case map_of ((v, f) # es) w of
      Some f \<Rightarrow> Some (pte_new f (perm OR PTE_V)) | None \<Rightarrow> pt_lookup m pt w)" if "unat w < 2 ^ 27" for w
    using A B that none by (cases "w = v") (auto split: option.splits)
  ultimately show ?thesis
    unfolding pages_mapped_def using A B root keep by auto
qed

lemma map_pages_framed:
  assumes "pt_inv base ph pt L" "map_type area = Framed" "sorted_wrt (<) vs"
    and "\<forall>e \<in> set (data_frames area). \<forall>v \<in> set vs. fst e < v" "\<forall>v \<in> set vs. unat v < 2 ^ 27"
    and "map_pages vs area pt ph = Some (area', pt', ph')"
  shows "\<exists>es L'. area' = area\<lparr>data_frames := data_frames area @ es\<rparr> \<and> map fst es = vs
     \<and> pages_mapped (ph_mem ph) pt (ph_mem ph') pt' (map_perm area) es L
     \<and> pt_inv base ph' pt' L' \<and> L \<union> snd ` set es \<subseteq> L'"
  using assms
proof (induction vs arbitrary: area pt ph L)
  case Nil
  then show ?case
    by (intro exI [of _ "[]"] exI [of _ L]) (auto simp: pages_mapped_def data_kept_refl)
next
  case (Cons v vs)
  obtain area1 pt1 ph1 where m1: "map_one v area pt ph = Some (area1, pt1, ph1)"
    and m2: "map_pages vs area1 pt1 ph1 = Some (area', pt', ph')"
    using Cons.prems(6) by (auto simp: bind_eq_Some_conv)
  obtain f L1 where one: "area1 = area\<lparr>data_frames := data_frames area @ [(v, f)]\<rparr>"
      "pages_mapped (ph_mem ph) pt (ph_mem ph1) pt1 (map_perm area) [(v, f)] L"
      "pt_inv base ph1 pt1 L1" "insert f L \<subseteq> L1"
    by (rule map_one_framed [OF Cons.prems(1,2) _ _ m1]) (use Cons.prems(4,5) in auto)
  have "\<exists>es L'. area' = area1\<lparr>data_frames := data_frames area1 @ es\<rparr> \<and> map fst es = vs
     \<and> pages_mapped (ph_mem ph1) pt1 (ph_mem ph') pt' (map_perm area1) es L1
     \<and> pt_inv base ph' pt' L' \<and> L1 \<union> snd ` set es \<subseteq> L'"
    using Cons.prems one by (intro Cons.IH [OF one(3) _ _ _ _ m2]) auto
  then obtain es L' where es: "area' = area1\<lparr>data_frames := data_frames area1 @ es\<rparr>" "map fst es = vs"
      "pages_mapped (ph_mem ph1) pt1 (ph_mem ph') pt' (map_perm area1) es L1"
      "pt_inv base ph' pt' L'" "L1 \<union> snd ` set es \<subseteq> L'"
    by blast
  have "v \<notin> set vs" using Cons.prems(3) by auto
  then have "v \<notin> fst ` set es" by (simp flip: es(2))
  then have "pages_mapped (ph_mem ph) pt (ph_mem ph') pt' (map_perm area) ((v, f) # es) L"
    using pages_mapped_Cons [OF one(2)] es(3) one(1,4) by simp
  then show ?case
    using es one by (intro exI [of _ "(v, f) # es"] exI [of _ L']) auto
qed

section \<open>User address spaces\<close>

definition TRAMPOLINE_VPN :: VirtPageNum where
  "TRAMPOLINE_VPN = va_floor (va_from_usize TRAMPOLINE)"

definition area_ok :: "MapArea \<Rightarrow> bool" where
  "area_ok a \<longleftrightarrow> map_type a = Framed \<and> range_l (vpn_range a) \<le> range_r (vpn_range a)
     \<and> unat (range_r (vpn_range a)) \<le> 2 ^ 27 \<and> map fst (data_frames a) = area_pages a"

definition ms_pages :: "MemorySet \<Rightarrow> VirtPageNum list" where
  "ms_pages ms = concat (map area_pages (areas ms))"

definition ms_frames :: "MemorySet \<Rightarrow> PhysPageNum list" where
  "ms_frames ms = concat (map (\<lambda>a. map snd (data_frames a)) (areas ms))"

definition area_entries :: "MapArea \<Rightarrow> (VirtPageNum \<times> PageTableEntry) list" where
  "area_entries a = map (\<lambda>(v, f). (v, pte_new f (map_perm a OR PTE_V))) (data_frames a)"

definition ms_entries :: "MemorySet \<Rightarrow> (VirtPageNum \<times> PageTableEntry) list" where
  "ms_entries ms = concat (map area_entries (areas ms))"

text \<open>
  \<open>user_ms base ph ms L te\<close>: the set maps exactly the pages of its areas, each to a frame of
  its own that no page table uses, and the trampoline page through the entry \<open>te\<close>.
\<close>

definition user_ms ::
    "usize \<Rightarrow> phys \<Rightarrow> MemorySet \<Rightarrow> PhysPageNum set \<Rightarrow> PageTableEntry \<Rightarrow> bool" where
  "user_ms base ph ms L te \<longleftrightarrow>
     pt_inv base ph (page_table ms) L \<and> (\<forall>a \<in> set (areas ms). area_ok a)
     \<and> distinct (ms_pages ms) \<and> TRAMPOLINE_VPN \<notin> set (ms_pages ms)
     \<and> distinct (ms_frames ms) \<and> set (ms_frames ms) \<subseteq> L
     \<and> set (ms_frames ms) \<inter> pt_tables (ph_mem ph) (root_ppn (page_table ms)) = {}
     \<and> (\<forall>w. unat w < 2 ^ 27 \<longrightarrow> pt_lookup (ph_mem ph) (page_table ms) w =
          (case map_of (ms_entries ms) w of
             Some e \<Rightarrow> Some e
           | None \<Rightarrow> if w = TRAMPOLINE_VPN then Some te else None))"

lemma TRAMPOLINE_VPN_nat: "unat TRAMPOLINE_VPN = 2 ^ 27 - 1"
  by (simp add: TRAMPOLINE_VPN_def unat_va_floor unat_va_from_usize address_consts)

lemma user_msD:
  assumes "user_ms base ph ms L te"
  shows "pt_inv base ph (page_table ms) L" "fa_live base (ph_frames ph) L"
    "pt_tables (ph_mem ph) (root_ppn (page_table ms)) \<subseteq> L" "set (ms_frames ms) \<subseteq> L"
    "set (ms_frames ms) \<inter> pt_tables (ph_mem ph) (root_ppn (page_table ms)) = {}"
    "\<And>a. a \<in> set (areas ms) \<Longrightarrow> area_ok a" "distinct (ms_frames ms)"
  using assms by (simp_all add: user_ms_def pt_inv_def)

lemma map_fst_area_entries: "map fst (area_entries a) = map fst (data_frames a)"
  by (auto simp: area_entries_def)

lemma map_fst_ms_entries: "\<forall>a \<in> set (areas ms). area_ok a \<Longrightarrow> map fst (ms_entries ms) = ms_pages ms"
  unfolding ms_entries_def ms_pages_def map_concat map_map
  by (intro arg_cong [of _ _ concat] map_cong) (simp_all add: map_fst_area_entries area_ok_def)

lemma sorted_range_items: "l \<le> r \<Longrightarrow> sorted_wrt (<) (range_items l r)"
proof -
  assume "l \<le> r"
  then have "sorted_wrt (<) (map unat (range_items l r))" by (simp add: range_items_eq)
  then show ?thesis by (auto simp: sorted_wrt_map word_less_nat_alt elim: sorted_wrt_mono_rel [rotated])
qed

lemma area_pages_less:
  assumes "range_l (vpn_range a) \<le> range_r (vpn_range a)" "unat (range_r (vpn_range a)) \<le> 2 ^ 27"
    "v \<in> set (area_pages a)"
  shows "unat v < 2 ^ 27"
  using assms set_range_items [OF assms(1)] by (auto simp: area_pages_def word_less_nat_alt)

lemma ms_push_framed:
  assumes u: "user_ms base ph ms L te" and fr: "map_type area = Framed" "data_frames area = []"
    and rng: "range_l (vpn_range area) \<le> range_r (vpn_range area)" "unat (range_r (vpn_range area)) \<le> 2 ^ 27"
    and new: "set (area_pages area) \<inter> set (ms_pages ms) = {}" "TRAMPOLINE_VPN \<notin> set (area_pages area)"
    and p: "ms_push area None ms ph = Some (ms', ph')"
  obtains es L' where "areas ms' = areas ms @ [area\<lparr>data_frames := es\<rparr>]" "map fst es = area_pages area"
    "user_ms base ph' ms' L' te" "L \<subseteq> L'" "snd ` set es \<inter> L = {}"
    "root_ppn (page_table ms') = root_ppn (page_table ms)"
    "data_kept (ph_mem ph) (ph_mem ph') (root_ppn (page_table ms)) L"
proof -
  obtain area' pt' where m: "map_pages (area_pages area) area (page_table ms) ph = Some (area', pt', ph')"
    and ms': "ms' = ms\<lparr>page_table := pt', areas := areas ms @ [area']\<rparr>"
    using p by (auto simp: ms_push_def area_map_def bind_eq_Some_conv)
  have inv: "pt_inv base ph (page_table ms) L" using u by (simp add: user_ms_def)
  have lt: "\<forall>v \<in> set (area_pages area). unat v < 2 ^ 27" using area_pages_less [OF rng] by blast
  have sorted: "sorted_wrt (<) (area_pages area)" unfolding area_pages_def by (rule sorted_range_items [OF rng(1)])
  obtain es L' where es: "area' = area\<lparr>data_frames := es\<rparr>" "map fst es = area_pages area"
      "pages_mapped (ph_mem ph) (page_table ms) (ph_mem ph') pt' (map_perm area) es L"
      "pt_inv base ph' pt' L'" "L \<union> snd ` set es \<subseteq> L'"
    using map_pages_framed [OF inv fr(1) sorted _ lt m] fr(2) by auto
  note pm = es(3) [unfolded pages_mapped_def]
  let ?r = "root_ppn (page_table ms)"
  have dk: "data_kept (ph_mem ph) (ph_mem ph') ?r L" and root: "root_ppn pt' = ?r" using pm by simp_all
  have sub: "set (ms_frames ms) \<subseteq> L" "set (ms_frames ms) \<inter> pt_tables (ph_mem ph) ?r = {}"
    using u by (simp_all add: user_ms_def)
  then have old: "set (ms_frames ms) \<inter> pt_tables (ph_mem ph') ?r = {}" using dk by (auto simp: data_kept_def)
  have pages: "ms_pages ms' = ms_pages ms @ area_pages area" "ms_frames ms' = ms_frames ms @ map snd es"
    "ms_entries ms' = ms_entries ms @ area_entries area'"
    using es(1) by (simp_all add: ms' ms_pages_def ms_frames_def ms_entries_def area_pages_def)
  have dp: "distinct (area_pages area)" unfolding area_pages_def by (rule distinct_range_items [OF rng(1)])
  have ok: "area_ok area'" using fr rng es(1,2) by (simp add: area_ok_def area_pages_def)
  have ent: "map_of (area_entries area') w = map_option (\<lambda>f. pte_new f (map_perm area OR PTE_V)) (map_of es w)" for w
    unfolding area_entries_def es(1) by (simp add: map_of_map)
  have disj: "map_of es w \<noteq> None \<Longrightarrow> map_of (ms_entries ms) w = None" for w
  proof -
    assume "map_of es w \<noteq> None"
    then have "w \<in> set (area_pages area)" using es(2) by (auto simp: map_of_eq_None_iff simp flip: set_map)
    then have "w \<notin> set (map fst (ms_entries ms))"
      using new(1) map_fst_ms_entries [of ms] u by (auto simp: user_ms_def)
    then show ?thesis by (simp add: map_of_eq_None_iff)
  qed
  have tr: "map_of es TRAMPOLINE_VPN = None"
    using new(2) es(2) by (auto simp: map_of_eq_None_iff simp flip: set_map)
  have lk: "pt_lookup (ph_mem ph') pt' w =
      (case map_of (ms_entries ms') w of Some e \<Rightarrow> Some e
       | None \<Rightarrow> if w = TRAMPOLINE_VPN then Some te else None)" if w: "unat w < 2 ^ 27" for w
  proof (cases "map_of es w")
    case None
    then have "pt_lookup (ph_mem ph') pt' w = pt_lookup (ph_mem ph) (page_table ms) w" using pm w by simp
    then show ?thesis using u w None by (simp add: user_ms_def pages(3) ent map_add_def split: option.splits)
  next
    case (Some f)
    then have "w \<noteq> TRAMPOLINE_VPN" using tr by auto
    then show ?thesis using pm w Some disj [of w] by (simp add: pages(3) ent map_add_def)
  qed
  have "user_ms base ph' ms' L' te"
    unfolding user_ms_def pages(1,2)
    using u ok es(4,5) new dp pm old root sub(1) lk ms' by (auto simp: user_ms_def)
  with es ms' root dk pm show thesis by (intro that [of es L']) (simp_all)
qed

section \<open>Copying an address space\<close>

text \<open>Facts of a user space that the copy uses.\<close>

lemma user_ms_frame:
  assumes u: "user_ms base ph ms L te" and a: "a \<in> set (areas ms)" and v: "(v, f) \<in> set (data_frames a)"
  shows "ms_translate (ph_mem ph) ms v = Some (pte_new f (map_perm a OR PTE_V))" "unat f < 2 ^ 44"
    "f \<in> set (ms_frames ms)" "v \<in> set (ms_pages ms)"
proof -
  have ok: "\<forall>a \<in> set (areas ms). area_ok a" and d: "distinct (ms_pages ms)" using u by (simp_all add: user_ms_def)
  show f: "f \<in> set (ms_frames ms)" using a v by (force simp: ms_frames_def)
  then have "f \<in> L" "fa_live base (ph_frames ph) L" using u by (auto simp: user_ms_def pt_inv_def)
  then show "unat f < 2 ^ 44" by (intro fa_live_less)
  let ?e = "pte_new f (map_perm a OR PTE_V)"
  have "(v, ?e) \<in> set (area_entries a)" using v by (force simp: area_entries_def)
  then have mem: "(v, ?e) \<in> set (ms_entries ms)" using a by (auto simp: ms_entries_def)
  then have "v \<in> set (map fst (ms_entries ms))" by force
  then show vp: "v \<in> set (ms_pages ms)" by (simp only: map_fst_ms_entries [OF ok])
  have "map_of (ms_entries ms) v = Some ?e"
    using mem d map_fst_ms_entries [OF ok] by (simp add: map_of_eq_Some_iff)
  moreover have "unat v < 2 ^ 27"
    using vp ok area_pages_less by (auto simp: ms_pages_def area_ok_def)
  ultimately have "pt_lookup (ph_mem ph) (page_table ms) v = Some ?e" using u by (simp add: user_ms_def)
  then show "ms_translate (ph_mem ph) ms v = Some ?e"
    by (auto simp: ms_translate_def pt_lookup_def split: option.splits if_splits)
qed

lemma ms_translate_frames:
  assumes "\<And>t. t \<in> pt_tables m (root_ppn (page_table ms)) \<Longrightarrow> m' t = m t"
  shows "ms_translate m' ms = ms_translate m ms"
proof -
  have "translate m' (page_table ms) = translate m (page_table ms)"
    by (rule translate_frames(1)) (rule assms)
  then show ?thesis by (simp add: ms_translate_def fun_eq_iff)
qed

text \<open>Writing to frames that are no tables keeps a user space.\<close>

lemma user_ms_write:
  assumes u: "user_ms base ph ms L te"
    and k: "\<And>t. t \<in> pt_tables (ph_mem ph) (root_ppn (page_table ms)) \<Longrightarrow> ph_mem ph' t = ph_mem ph t"
    and live: "fa_live base (ph_frames ph') L'" "L \<subseteq> L'"
  shows "user_ms base ph' ms L' te"
proof -
  let ?pt = "page_table ms"
  have tf: "translate (ph_mem ph') ?pt = translate (ph_mem ph) ?pt"
      "pt_tables (ph_mem ph') (root_ppn ?pt) = pt_tables (ph_mem ph) (root_ppn ?pt)"
      "pt_tree (ph_mem ph') (root_ppn ?pt) = pt_tree (ph_mem ph) (root_ppn ?pt)"
      "pt_clean (ph_mem ph') ?pt = pt_clean (ph_mem ph) ?pt"
    using translate_frames [where m = "ph_mem ph" and pt = ?pt and m' = "ph_mem ph'"] k by blast+
  have "pt_inv base ph' ?pt L'"
    using u live tf(2-4) by (auto simp only: user_ms_def pt_inv_def)
  moreover have "pt_lookup (ph_mem ph') ?pt = pt_lookup (ph_mem ph) ?pt"
    using tf(1) by (simp add: pt_lookup_def fun_eq_iff)
  ultimately show ?thesis using u live(2) tf(2) unfolding user_ms_def by auto
qed

lemma copy_pages_facts:
  assumes src: "\<And>m'. (\<forall>q. q \<notin> G \<longrightarrow> m' q = m q) \<Longrightarrow> ms_translate m' src = ms_translate m src"
    and dst: "\<And>m'. (\<forall>q. q \<notin> G \<longrightarrow> m' q = m q) \<Longrightarrow> ms_translate m' dst = ms_translate m dst"
    and pg: "\<And>v. v \<in> set vs \<Longrightarrow> \<exists>s d. ms_translate m src v = Some s \<and> pte_ppn s = f v
                \<and> ms_translate m dst v = Some d \<and> pte_ppn d = g v"
    and G: "\<And>v. v \<in> set vs \<Longrightarrow> g v \<in> G \<and> f v \<notin> G" and inj: "inj_on g (set vs)" "distinct vs"
  shows "\<exists>m'. copy_pages vs src dst m = Some m' \<and> (\<forall>q. q \<notin> g ` set vs \<longrightarrow> m' q = m q)
     \<and> (\<forall>v \<in> set vs. \<forall>off < 4096. m' (g v) off = m (f v) off)"
  using assms
proof (induction vs arbitrary: m)
  case Nil
  show ?case by simp
next
  case (Cons v vs)
  obtain s d where sd: "ms_translate m src v = Some s" "pte_ppn s = f v"
      "ms_translate m dst v = Some d" "pte_ppn d = g v"
    using Cons.prems(3) [of v] by auto
  define m1 where "m1 = write_prefix (g v) (get_bytes_array m (f v)) m"
  have m1_other: "m1 q = m q" if "q \<noteq> g v" for q using that by (simp add: m1_def write_prefix_def)
  have m1_here: "m1 (g v) off = m (f v) off" if "off < 4096" for off
    using that by (simp add: m1_def write_prefix_def get_bytes_array_def)
  have gG: "g v \<in> G" using Cons.prems(4) by simp
  have agree: "\<forall>q. q \<notin> G \<longrightarrow> m1 q = m q" using m1_other gG by metis
  have tr1: "ms_translate m1 src = ms_translate m src" "ms_translate m1 dst = ms_translate m dst"
    using Cons.prems(1,2) agree by blast+
  have "\<exists>m'. copy_pages vs src dst m1 = Some m' \<and> (\<forall>q. q \<notin> g ` set vs \<longrightarrow> m' q = m1 q)
     \<and> (\<forall>v \<in> set vs. \<forall>off < 4096. m' (g v) off = m1 (f v) off)"
  proof (rule Cons.IH)
    show "ms_translate m' src = ms_translate m1 src" if "\<forall>q. q \<notin> G \<longrightarrow> m' q = m1 q" for m'
      using Cons.prems(1) [of m'] that agree tr1 by simp
    show "ms_translate m' dst = ms_translate m1 dst" if "\<forall>q. q \<notin> G \<longrightarrow> m' q = m1 q" for m'
      using Cons.prems(2) [of m'] that agree tr1 by simp
    show "\<exists>s d. ms_translate m1 src w = Some s \<and> pte_ppn s = f w
                \<and> ms_translate m1 dst w = Some d \<and> pte_ppn d = g w" if "w \<in> set vs" for w
      using Cons.prems(3) [of w] that tr1 by simp
    show "g w \<in> G \<and> f w \<notin> G" if "w \<in> set vs" for w using Cons.prems(4) [of w] that by simp
    show "inj_on g (set vs)" using Cons.prems(5) by (simp add: inj_on_def)
    show "distinct vs" using Cons.prems(6) by simp
  qed
  then obtain m' where m': "copy_pages vs src dst m1 = Some m'"
      "\<And>q. q \<notin> g ` set vs \<Longrightarrow> m' q = m1 q"
      "\<And>v off. v \<in> set vs \<Longrightarrow> off < 4096 \<Longrightarrow> m' (g v) off = m1 (f v) off"
    by blast
  have gv: "g v \<notin> g ` set vs" using Cons.prems(5,6) by auto
  have "m' (g w) off = m (f w) off" if "w \<in> set (v # vs)" "off < 4096" for w off
  proof (cases "w = v")
    case True
    then show ?thesis using m'(2) [OF gv] m1_here that(2) by simp
  next
    case False
    then have "w \<in> set vs" "f w \<noteq> g v" using that(1) Cons.prems(4) [OF that(1)] gG by auto
    then show ?thesis using m'(3) that(2) m1_other by simp
  qed
  moreover have "m' q = m q" if "q \<notin> g ` set (v # vs)" for q 
  proof -
    have "q \<notin> g ` set vs" "q \<noteq> g v" using that by auto
    then show ?thesis using m'(2) m1_other by simp
  qed
  moreover have "copy_pages (v # vs) src dst m = Some m'"
    by (simp add: sd m'(1) [unfolded m1_def])
  ultimately show ?case by (intro exI [of _ m'] conjI allI impI ballI) auto
qed

text \<open>\<open>area_copy m0 m a a'\<close>: \<open>a'\<close> covers the pages of \<open>a\<close> with the same rights, and its frames
  hold in \<open>m\<close> what those of \<open>a\<close> held in \<open>m0\<close>.\<close>

definition area_copy :: "phys_mem \<Rightarrow> phys_mem \<Rightarrow> MapArea \<Rightarrow> MapArea \<Rightarrow> bool" where
  "area_copy m0 m a a' \<longleftrightarrow>
     vpn_range a' = vpn_range a \<and> map_perm a' = map_perm a \<and> map_type a' = map_type a
     \<and> (\<forall>v \<in> set (area_pages a). \<forall>off < 4096.
          m (the (map_of (data_frames a') v)) off = m0 (the (map_of (data_frames a) v)) off)"

definition copying ::
    "usize \<Rightarrow> phys_mem \<Rightarrow> PhysPageNum set \<Rightarrow> PageTableEntry \<Rightarrow> MapArea list \<Rightarrow> MemorySet \<Rightarrow> phys
     \<Rightarrow> PhysPageNum set \<Rightarrow> bool" where
  "copying base m0 L0 te done ms ph L \<longleftrightarrow>
     user_ms base ph ms L te \<and> L0 \<subseteq> L \<and> (\<forall>q \<in> L0. ph_mem ph q = m0 q)
     \<and> pt_tables (ph_mem ph) (root_ppn (page_table ms)) \<inter> L0 = {} \<and> set (ms_frames ms) \<inter> L0 = {}
     \<and> list_all2 (area_copy m0 (ph_mem ph)) done (areas ms)"

lemma map_of_data_frames:
  assumes "area_ok a" "v \<in> set (area_pages a)"
  obtains f where "map_of (data_frames a) v = Some f" "(v, f) \<in> set (data_frames a)"
proof -
  have "v \<in> fst ` set (data_frames a)" using assms by (simp add: area_ok_def flip: set_map)
  then obtain f where "map_of (data_frames a) v = Some f" by (metis map_of_eq_None_iff not_None_eq)
  then show thesis by (intro that map_of_SomeD)
qed

lemma copy_area_step:
  assumes par: "user_ms base ph0 parent L0 te0" and a: "a \<in> set (areas parent)"
    and c: "copying base (ph_mem ph0) L0 te done ms ph L"
    and new: "set (area_pages a) \<inter> set (ms_pages ms) = {}"
    and an: "area_from_another a = Some na" and p: "ms_push na None ms ph = Some (ms1, ph1)"
  shows "\<exists>m2 L2. copy_pages (area_pages a) parent ms1 (ph_mem ph1) = Some m2
     \<and> copying base (ph_mem ph0) L0 te (done @ [a]) ms1 (ph1\<lparr>ph_mem := m2\<rparr>) L2
     \<and> ms_pages ms1 = ms_pages ms @ area_pages a"
proof -
  let ?m0 = "ph_mem ph0" and ?m1 = "ph_mem ph1" and ?r = "root_ppn (page_table ms)"
  have ok: "area_ok a" and TV: "TRAMPOLINE_VPN \<notin> set (area_pages a)"
    using par a by (auto simp: user_ms_def ms_pages_def)
  have na: "map_type na = Framed" "data_frames na = []" "vpn_range na = vpn_range a" "map_perm na = map_perm a"
    using an ok by (auto simp: area_from_another_def bind_eq_Some_conv range_new_def area_ok_def split: if_splits)
  then have pages: "area_pages na = area_pages a" by (simp add: area_pages_def)
  have c': "user_ms base ph ms L te" "L0 \<subseteq> L" "\<And>q. q \<in> L0 \<Longrightarrow> ph_mem ph q = ?m0 q"
      "pt_tables (ph_mem ph) ?r \<inter> L0 = {}" "set (ms_frames ms) \<inter> L0 = {}"
      "list_all2 (area_copy ?m0 (ph_mem ph)) done (areas ms)"
    using c by (simp_all add: copying_def)
  obtain es L1 where es: "areas ms1 = areas ms @ [na\<lparr>data_frames := es\<rparr>]" "map fst es = area_pages na"
    "user_ms base ph1 ms1 L1 te" "L \<subseteq> L1" "snd ` set es \<inter> L = {}"
    "root_ppn (page_table ms1) = ?r" "data_kept (ph_mem ph) ?m1 ?r L"
    by (rule ms_push_framed [OF c'(1) na(1,2) _ _ _ _ p])
      (use ok na pages new TV in \<open>simp_all add: area_ok_def\<close>)
  let ?na = "na\<lparr>data_frames := es\<rparr>" and ?G = "snd ` set es"
  have kept: "?m1 q = ph_mem ph q" if "q \<in> L" "q \<notin> pt_tables (ph_mem ph) ?r" for q
    using es(7) that by (simp add: data_kept_def)
  have L0_same: "?m1 q = ?m0 q" if "q \<in> L0" for q
    using kept [of q] c'(2,3,4) that by auto
  have tab1: "pt_tables ?m1 ?r \<inter> L0 = {}" using es(7) c'(2,4) by (auto simp: data_kept_def)
  have fr1: "set (ms_frames ms1) = set (ms_frames ms) \<union> ?G" using es(1) by (simp add: ms_frames_def)
  have G: "?G \<inter> L0 = {}" "?G \<inter> pt_tables ?m1 ?r = {}"
    using es(5,3,6) c'(2) fr1 by (auto simp: user_ms_def)
  have nok: "area_ok ?na" "?na \<in> set (areas ms1)" using es(1,3) by (auto simp: user_ms_def)
  have npages: "area_pages ?na = area_pages a" using na(3) by (simp add: area_pages_def)
  define f where "f v = the (map_of (data_frames a) v)" for v
  define g where "g v = the (map_of es v)" for v
  have par1: "user_ms base (ph0\<lparr>ph_mem := ?m1\<rparr>) parent L0 te0"
    by (rule user_ms_write [OF par]) (use L0_same subsetD [OF user_msD(3) [OF par]] user_msD(2) [OF par] in simp_all)
  have at: "(v, f v) \<in> set (data_frames a) \<and> (v, g v) \<in> set es" if "v \<in> set (area_pages a)" for v
  proof
    show "(v, f v) \<in> set (data_frames a)" by (rule map_of_data_frames [OF ok that]) (simp add: f_def)
    have "v \<in> set (area_pages ?na)" using that npages by simp
    then show "(v, g v) \<in> set es" by (rule map_of_data_frames [OF nok(1)]) (simp add: g_def)
  qed
  have pg: "\<exists>s d. ms_translate ?m1 parent v = Some s \<and> pte_ppn s = f v
      \<and> ms_translate ?m1 ms1 v = Some d \<and> pte_ppn d = g v" if "v \<in> set (area_pages a)" for v
    using user_ms_frame(1,2) [OF par1 a, of v "f v"] user_ms_frame(1,2) [OF es(3) nok(2), of v "g v"] at [OF that]
    by simp
  have fG: "g v \<in> ?G \<and> f v \<notin> ?G" if "v \<in> set (area_pages a)" for v
  proof -
    have "f v \<in> L0" using user_ms_frame(3) [OF par a, of v "f v"] at [OF that] par by (auto simp: user_ms_def)
    with G(1) at [OF that] show ?thesis by force
  qed
  have "distinct (map snd es)" using es(1,3) by (simp add: user_ms_def ms_frames_def)
  then have inj: "inj_on g (set (area_pages a))"
  proof -
    have "v = w" if "v \<in> set (area_pages a)" "w \<in> set (area_pages a)" "g v = g w" for v w
      using at [OF that(1)] at [OF that(2)] that(3) \<open>distinct (map snd es)\<close>
      by (fastforce simp: distinct_map inj_on_def)
    then show ?thesis by (rule inj_onI)
  qed
  have src: "ms_translate m' parent = ms_translate ?m1 parent" if "\<forall>q. q \<notin> ?G \<longrightarrow> m' q = ?m1 q" for m'
  proof (rule ms_translate_frames)
    fix t assume "t \<in> pt_tables ?m1 (root_ppn (page_table parent))"
    then have "t \<in> L0" using subsetD [OF user_msD(3) [OF par1], of t] by simp
    then show "m' t = ?m1 t" using that G(1) by blast
  qed
  have dst: "ms_translate m' ms1 = ms_translate ?m1 ms1" if "\<forall>q. q \<notin> ?G \<longrightarrow> m' q = ?m1 q" for m'
  proof (rule ms_translate_frames)
    fix t assume "t \<in> pt_tables ?m1 (root_ppn (page_table ms1))"
    then have "t \<notin> ?G" using G(2) es(6) by auto
    then show "m' t = ?m1 t" using that by simp
  qed
  have da: "distinct (area_pages a)"
    using ok by (simp add: area_ok_def area_pages_def distinct_range_items)
  obtain m2 where m2: "copy_pages (area_pages a) parent ms1 ?m1 = Some m2"
      "\<And>q. q \<notin> g ` set (area_pages a) \<Longrightarrow> m2 q = ?m1 q"
      "\<And>v off. v \<in> set (area_pages a) \<Longrightarrow> off < 4096 \<Longrightarrow> m2 (g v) off = ?m1 (f v) off"
    using copy_pages_facts [OF src dst pg fG inj da] by blast
  have m2G: "m2 q = ?m1 q" if "q \<notin> ?G" for q
  proof (rule m2(2))
    show "q \<notin> g ` set (area_pages a)" using that fG by blast
  qed
  have old: "m2 q = ph_mem ph q" if "q \<in> set (ms_frames ms)" for q
  proof -
    have q: "q \<in> L" "q \<notin> pt_tables (ph_mem ph) ?r" using user_msD(4,5) [OF c'(1)] that by auto
    then have "q \<notin> ?G" using es(5) by blast
    then show ?thesis using kept [OF q] m2G by simp
  qed
  have tab2: "pt_tables m2 ?r = pt_tables ?m1 ?r"
  proof -
    have "m2 t = ?m1 t" if "t \<in> pt_tables ?m1 (root_ppn (page_table ms1))" for t
      using that G(2) es(6) by (intro m2G) auto
    then show ?thesis
      using translate_frames(2) [where m = ?m1 and pt = "page_table ms1" and m' = m2] es(6) by simp
  qed
  have u2: "user_ms base (ph1\<lparr>ph_mem := m2\<rparr>) ms1 L1 te"
  proof (rule user_ms_write [OF es(3)])
    show "ph_mem (ph1\<lparr>ph_mem := m2\<rparr>) t = ?m1 t" if "t \<in> pt_tables ?m1 (root_ppn (page_table ms1))" for t
    proof -
      have "t \<notin> ?G" using that G(2) es(6) by auto
      then show ?thesis using m2G by simp
    qed
    show "fa_live base (ph_frames (ph1\<lparr>ph_mem := m2\<rparr>)) L1" using user_msD(2) [OF es(3)] by simp
  qed simp
  have olds: "list_all2 (area_copy ?m0 m2) done (areas ms)"
    using c'(6)
  proof (rule list.rel_mono_strong)
    fix b b' assume b: "b' \<in> set (areas ms)" "area_copy ?m0 (ph_mem ph) b b'"
    have "m2 (the (map_of (data_frames b') v)) = ph_mem ph (the (map_of (data_frames b') v))"
      if v: "v \<in> set (area_pages b)" for v
    proof -
      have bok: "area_ok b'" using c'(1) b(1) by (simp add: user_ms_def)
      have "area_pages b' = area_pages b" using b(2) by (simp add: area_copy_def area_pages_def)
      then have "v \<in> set (area_pages b')" using v by simp
      then obtain x where "map_of (data_frames b') v = Some x" "(v, x) \<in> set (data_frames b')"
        by (rule map_of_data_frames [OF bok])
      then show ?thesis using old [OF user_ms_frame(3) [OF c'(1) b(1)]] by simp
    qed
    then show "area_copy ?m0 m2 b b'" using b(2) by (simp add: area_copy_def)
  qed
  have "area_copy ?m0 m2 a ?na"
  proof -
    have "m2 (g v) off = ?m0 (f v) off" if "v \<in> set (area_pages a)" "off < 4096" for v off
    proof -
      have "f v \<in> L0" using user_ms_frame(3) [OF par a, of v "f v"] at [OF that(1)] par by (auto simp: user_ms_def)
      then show ?thesis using m2(3) [OF that] L0_same by simp
    qed
    then show ?thesis using na ok by (simp add: area_copy_def f_def g_def area_ok_def)
  qed
  then have "list_all2 (area_copy ?m0 m2) (done @ [a]) (areas ms1)"
    using olds unfolding es(1) by (intro list_all2_appendI) simp_all
  moreover have "m2 q = ?m0 q" if "q \<in> L0" for q
  proof -
    have "q \<notin> ?G" using that G(1) by blast
    then show ?thesis using m2G L0_same that by simp
  qed
  moreover have "set (ms_frames ms1) \<inter> L0 = {}" using fr1 c'(5) G(1) by blast
  moreover have "L0 \<subseteq> L1" using c'(2) es(4) by blast
  ultimately have "copying base ?m0 L0 te (done @ [a]) ms1 (ph1\<lparr>ph_mem := m2\<rparr>) L1"
    unfolding copying_def using u2 tab1 tab2 es(6) by simp
  moreover have "ms_pages ms1 = ms_pages ms @ area_pages a"
    using es(1) npages by (simp add: ms_pages_def)
  ultimately show ?thesis using m2(1) by blast
qed

lemma copy_areas_copying:
  assumes "user_ms base ph0 parent L0 te0" "areas parent = done @ as"
    "copying base (ph_mem ph0) L0 te done ms ph L" "ms_pages ms = concat (map area_pages done)"
    "copy_areas as parent ms ph = Some (ms', ph')"
  shows "\<exists>L'. copying base (ph_mem ph0) L0 te (areas parent) ms' ph' L'"
  using assms
proof (induction as arbitrary: "done" ms ph L)
  case Nil
  then show ?case by auto
next
  case (Cons a as)
  obtain na ms1 ph1 m where st: "area_from_another a = Some na" "ms_push na None ms ph = Some (ms1, ph1)"
      "copy_pages (area_pages a) parent ms1 (ph_mem ph1) = Some m"
      "copy_areas as parent ms1 (ph1\<lparr>ph_mem := m\<rparr>) = Some (ms', ph')"
    using Cons.prems(5) by (auto simp: bind_eq_Some_conv)
  have "distinct (concat (map area_pages (done @ a # as)))"
    using Cons.prems(1) unfolding user_ms_def ms_pages_def Cons.prems(2) by simp
  then have new: "set (area_pages a) \<inter> set (ms_pages ms) = {}"
    unfolding Cons.prems(4) map_append concat_append distinct_append by auto
  obtain L2 where c: "copying base (ph_mem ph0) L0 te (done @ [a]) ms1 (ph1\<lparr>ph_mem := m\<rparr>) L2"
      "ms_pages ms1 = ms_pages ms @ area_pages a"
    using copy_area_step [OF Cons.prems(1) _ Cons.prems(3) new st(1,2)] Cons.prems(2) st(3) by auto
  show ?case
    by (rule Cons.IH [OF Cons.prems(1) _ c(1) _ st(4)]) (use Cons.prems(2,4) c(2) in simp_all)
qed

lemma page_number_less: "ppn_from_pa (pa_from_usize v) = Some ppn \<Longrightarrow> unat ppn < 2 ^ 44"
  by (auto simp: ppn_from_pa_def unat_pa_floor unat_pa_from_usize less_mult_imp_div_less split: if_splits)

lemma map_trampoline_copying:
  assumes live: "fa_live base (ph_frames ph0) L0" and nb: "new_bare ph0 = Some (ms0, ph1)"
    and mt: "map_trampoline strampoline ms0 ph1 = Some (ms, ph)"
  obtains te L where "copying base (ph_mem ph0) L0 te [] ms ph L" "areas ms = []"
proof -
  obtain pt where n: "pt_new ph0 = Some (pt, ph1)" and ms0: "ms0 = \<lparr>page_table = pt, areas = []\<rparr>"
    using nb by (auto simp: new_bare_def bind_eq_Some_conv)
  obtain f where fa: "frame_alloc ph0 = (Some f, ph1)" and pt: "root_ppn pt = f"
    using n by (auto simp: pt_new_def split: prod.splits option.splits)
  note new = pt_new_inv [OF n live]
  have tabs: "pt_tables (ph_mem ph1) (root_ppn pt) \<inter> L0 = {}"
    using new(1,3) new(4) by simp
  have keep0: "ph_mem ph1 q = ph_mem ph0 q" if "q \<in> L0" for q
    using that new(3) pt frame_alloc_SomeD(3) [OF fa live] by (auto simp: zero_frame_def)
  obtain ppn pt' where t: "pt_map TRAMPOLINE_VPN ppn (PTE_R OR PTE_X) pt ph1 = Some (pt', ph)"
      "ms = \<lparr>page_table = pt', areas = []\<rparr>" "unat ppn < 2 ^ 44"
    using mt page_number_less
    by (auto simp: map_trampoline_def bind_eq_Some_conv ms0 vpn_from_va_def TRAMPOLINE_VPN_def split: if_splits)
  obtain L where L: "insert (root_ppn pt) L0 \<subseteq> L" "pt_inv base ph pt' L" "root_ppn pt' = root_ppn pt"
      "pt_lookup (ph_mem ph1) pt TRAMPOLINE_VPN = None"
      "\<And>w. unat w < 2 ^ 27 \<Longrightarrow> pt_lookup (ph_mem ph) pt' w
        = (if w = TRAMPOLINE_VPN then Some (pte_new ppn ((PTE_R OR PTE_X) OR PTE_V)) else pt_lookup (ph_mem ph1) pt w)"
      "data_kept (ph_mem ph1) (ph_mem ph) (root_ppn pt) (insert (root_ppn pt) L0)"
    by (rule pt_map_facts [OF new(1) t(1) _ t(3)]) (simp_all add: TRAMPOLINE_VPN_nat that)
  have keep: "ph_mem ph q = ph_mem ph1 q" "q \<notin> pt_tables (ph_mem ph) (root_ppn pt)" if "q \<in> L0" for q
    using L(6) that tabs by (auto simp: data_kept_def)
  have "user_ms base ph ms L (pte_new ppn ((PTE_R OR PTE_X) OR PTE_V))"
    using L(2,5) new(2) by (simp add: user_ms_def t(2) ms_pages_def ms_frames_def ms_entries_def)
  then have "copying base (ph_mem ph0) L0 (pte_new ppn ((PTE_R OR PTE_X) OR PTE_V)) [] ms ph L"
    unfolding copying_def using L(1,3) keep keep0 by (auto simp: t(2) ms_frames_def)
  then show thesis by (rule that) (simp add: t(2))
qed

text \<open>
  C26: Fork isolation: when the kernel copies a user address space, the child maps the same
  pages with the same rights to frames of its own, these hold what the parent's frames held,
  and no frame that was in use before (the parent's included) has changed or is shared.
\<close>

theorem from_existed_user_isolates:
  assumes "user_ms base ph parent L te" "from_existed_user strampoline parent ph = Some (forked, ph')"
  shows "\<exists>L' te'. user_ms base ph' forked L' te' \<and> user_ms base ph' parent L' te
     \<and> list_all2 (area_copy (ph_mem ph) (ph_mem ph')) (areas parent) (areas forked)
     \<and> (\<forall>q \<in> L. ph_mem ph' q = ph_mem ph q)
     \<and> set (ms_frames forked) \<inter> L = {}
     \<and> pt_tables (ph_mem ph') (root_ppn (page_table forked)) \<inter> L = {}"
proof -
  obtain ms0 ph1 ms1 ph2 where st: "new_bare ph = Some (ms0, ph1)"
      "map_trampoline strampoline ms0 ph1 = Some (ms1, ph2)"
      "copy_areas (areas parent) parent ms1 ph2 = Some (forked, ph')"
    using assms(2) by (auto simp: from_existed_user_def bind_eq_Some_conv)
  note live = user_msD(2) [OF assms(1)]
  obtain te' L1 where c: "copying base (ph_mem ph) L te' [] ms1 ph2 L1" "areas ms1 = []"
    by (rule map_trampoline_copying [OF live st(1,2)])
  obtain L' where c': "copying base (ph_mem ph) L te' (areas parent) forked ph' L'"
    using copy_areas_copying [OF assms(1) _ c(1) _ st(3)] c(2) by (auto simp: ms_pages_def)
  note cc = c' [unfolded copying_def]
  have "user_ms base ph' parent L' te"
    by (rule user_ms_write [OF assms(1)])
      (use cc user_msD(2) [of base ph' forked L' te'] subsetD [OF user_msD(3) [OF assms(1)]] in simp_all)
  then show ?thesis using cc by (intro exI [of _ L'] exI [of _ te'] conjI) simp_all
qed

section \<open>Copying succeeds\<close>

lemma map_one_succeeds:
  assumes inv: "pt_inv base ph pt L" and fr: "map_type area = Framed"
    and new: "\<forall>e \<in> set (data_frames area). fst e < vpn"
    and none: "pt_lookup (ph_mem ph) pt vpn = None" and free: "n + 3 \<le> fa_free (ph_frames ph)"
  shows "\<exists>area' pt' ph'. map_one vpn area pt ph = Some (area', pt', ph') \<and> n \<le> fa_free (ph_frames ph')"
proof -
  obtain f ph1 where fa: "frame_alloc ph = (Some f, ph1)" "n + 2 \<le> fa_free (ph_frames ph1)"
    using frame_alloc_succeeds [of "n + 2" ph] free by auto
  note a = frame_alloc_pt [OF inv fa(1)]
  have "pt_lookup (ph_mem ph1) pt vpn = None" using none a(4) by (simp add: pt_lookup_def)
  then obtain pt' ph' where m: "pt_map vpn f (map_perm area) pt ph1 = Some (pt', ph')" "n \<le> fa_free (ph_frames ph')"
    using pt_map_succeeds_free [OF a(1) fa(2)] by blast
  have "map_of (data_frames area) vpn = None" using new by (auto simp: map_of_eq_None_iff)
  then show ?thesis using fa m fr by (simp add: map_one_def)
qed

lemma map_pages_succeeds:
  assumes "pt_inv base ph pt L" "map_type area = Framed" "sorted_wrt (<) vs"
    and "\<forall>e \<in> set (data_frames area). \<forall>v \<in> set vs. fst e < v" "\<forall>v \<in> set vs. unat v < 2 ^ 27"
    and "\<forall>v \<in> set vs. pt_lookup (ph_mem ph) pt v = None" "n + 3 * length vs \<le> fa_free (ph_frames ph)"
  shows "\<exists>r. map_pages vs area pt ph = Some r \<and> n \<le> fa_free (ph_frames (snd (snd r)))"
  using assms
proof (induction vs arbitrary: area pt ph L)
  case Nil
  then show ?case by simp
next
  case (Cons v vs)
  obtain area1 pt1 ph1 where m1: "map_one v area pt ph = Some (area1, pt1, ph1)"
      "n + 3 * length vs \<le> fa_free (ph_frames ph1)"
    using map_one_succeeds [OF Cons.prems(1,2), of v "n + 3 * length vs"] Cons.prems(4,6,7) by auto
  obtain f L1 where one: "area1 = area\<lparr>data_frames := data_frames area @ [(v, f)]\<rparr>"
      "pages_mapped (ph_mem ph) pt (ph_mem ph1) pt1 (map_perm area) [(v, f)] L" "pt_inv base ph1 pt1 L1"
    by (rule map_one_framed [OF Cons.prems(1,2) _ _ m1(1)]) (use Cons.prems(4,5) in auto)
  have "pt_lookup (ph_mem ph1) pt1 w = None" if "w \<in> set vs" for w
  proof -
    have "w \<noteq> v" "unat w < 2 ^ 27" using Cons.prems(3,5) that by auto
    then show ?thesis using one(2) Cons.prems(6) that by (simp add: pages_mapped_def)
  qed
  then have "\<exists>r. map_pages vs area1 pt1 ph1 = Some r \<and> n \<le> fa_free (ph_frames (snd (snd r)))"
    using Cons.prems one(1) by (intro Cons.IH [OF one(3) _ _ _ _ _ m1(2)]) auto
  then show ?case using m1(1) by simp
qed

lemma ms_push_succeeds:
  assumes u: "user_ms base ph ms L te" and fr: "map_type area = Framed" "data_frames area = []"
    and rng: "range_l (vpn_range area) \<le> range_r (vpn_range area)" "unat (range_r (vpn_range area)) \<le> 2 ^ 27"
    and new: "set (area_pages area) \<inter> set (ms_pages ms) = {}" "TRAMPOLINE_VPN \<notin> set (area_pages area)"
    and free: "n + 3 * length (area_pages area) \<le> fa_free (ph_frames ph)"
  shows "\<exists>ms' ph'. ms_push area None ms ph = Some (ms', ph') \<and> n \<le> fa_free (ph_frames ph')"
proof -
  have lt: "\<forall>v \<in> set (area_pages area). unat v < 2 ^ 27" using area_pages_less [OF rng] by blast
  have sorted: "sorted_wrt (<) (area_pages area)" unfolding area_pages_def by (rule sorted_range_items [OF rng(1)])
  have none: "\<forall>v \<in> set (area_pages area). pt_lookup (ph_mem ph) (page_table ms) v = None"
  proof
    fix v assume v: "v \<in> set (area_pages area)"
    then have "v \<notin> set (map fst (ms_entries ms))" "v \<noteq> TRAMPOLINE_VPN"
      using new map_fst_ms_entries [of ms] user_msD(6) [OF u] by auto
    then have "map_of (ms_entries ms) v = None" "v \<noteq> TRAMPOLINE_VPN" by (auto simp: map_of_eq_None_iff)
    then show "pt_lookup (ph_mem ph) (page_table ms) v = None" using u lt v by (simp add: user_ms_def)
  qed
  have "\<exists>r. map_pages (area_pages area) area (page_table ms) ph = Some r \<and> n \<le> fa_free (ph_frames (snd (snd r)))"
    by (rule map_pages_succeeds [OF user_msD(1) [OF u] fr(1) sorted _ lt none free]) (simp add: fr(2))
  then show ?thesis by (auto simp: ms_push_def area_map_def)
qed

lemma copy_areas_succeed:
  assumes "user_ms base ph0 parent L0 te0" "areas parent = done @ as"
    "copying base (ph_mem ph0) L0 te done ms ph L" "ms_pages ms = concat (map area_pages done)"
    "n + 3 * length (concat (map area_pages as)) \<le> fa_free (ph_frames ph)"
  shows "\<exists>ms' ph'. copy_areas as parent ms ph = Some (ms', ph') \<and> n \<le> fa_free (ph_frames ph')"
  using assms
proof (induction as arbitrary: "done" ms ph L)
  case Nil
  then show ?case by auto
next
  case (Cons a as)
  have "distinct (concat (map area_pages (done @ a # as)))"
    using Cons.prems(1) unfolding user_ms_def ms_pages_def Cons.prems(2) by simp
  then have new: "set (area_pages a) \<inter> set (ms_pages ms) = {}"
    unfolding Cons.prems(4) map_append concat_append distinct_append by auto
  have a: "a \<in> set (areas parent)" using Cons.prems(2) by simp
  have ok: "area_ok a" by (rule user_msD(6) [OF Cons.prems(1) a])
  have TV: "TRAMPOLINE_VPN \<notin> set (area_pages a)" using Cons.prems(1) a by (auto simp: user_ms_def ms_pages_def)
  let ?na = "a\<lparr>data_frames := []\<rparr>" and ?n = "n + 3 * length (concat (map area_pages as))"
  have an: "area_from_another a = Some ?na" using ok by (simp add: area_from_another_def range_new_def area_ok_def)
  have pages: "area_pages ?na = area_pages a" by (simp add: area_pages_def)
  have u: "user_ms base ph ms L te" using Cons.prems(3) by (simp add: copying_def)
  have "\<exists>ms' ph'. ms_push ?na None ms ph = Some (ms', ph') \<and> ?n \<le> fa_free (ph_frames ph')"
    by (rule ms_push_succeeds [OF u]) (use ok new TV Cons.prems(5) pages in \<open>simp_all add: area_ok_def\<close>)
  then obtain ms1 ph1 where p: "ms_push ?na None ms ph = Some (ms1, ph1)" "?n \<le> fa_free (ph_frames ph1)"
    by blast
  obtain m L2 where c: "copy_pages (area_pages a) parent ms1 (ph_mem ph1) = Some m"
      "copying base (ph_mem ph0) L0 te (done @ [a]) ms1 (ph1\<lparr>ph_mem := m\<rparr>) L2"
      "ms_pages ms1 = ms_pages ms @ area_pages a"
    using copy_area_step [OF Cons.prems(1) a Cons.prems(3) new an p(1)] by blast
  have "\<exists>ms' ph'. copy_areas as parent ms1 (ph1\<lparr>ph_mem := m\<rparr>) = Some (ms', ph') \<and> n \<le> fa_free (ph_frames ph')"
    by (rule Cons.IH [OF Cons.prems(1) _ c(2)]) (use Cons.prems(2,4) c(3) p(2) in simp_all)
  then show ?case using an p(1) c(1) by simp
qed

lemma trampoline_set_succeeds:
  assumes live: "fa_live base (ph_frames ph) L" and free: "n + 3 \<le> fa_free (ph_frames ph)"
    and al: "pa_page_offset (pa_from_usize strampoline) = 0"
  shows "\<exists>ms0 ph1 ms ph2. new_bare ph = Some (ms0, ph1) \<and> map_trampoline strampoline ms0 ph1 = Some (ms, ph2)
     \<and> n \<le> fa_free (ph_frames ph2)"
proof -
  obtain f ph1 where fa: "frame_alloc ph = (Some f, ph1)" "n + 2 \<le> fa_free (ph_frames ph1)"
    using frame_alloc_succeeds [of "n + 2" ph] free by auto
  let ?pt = "\<lparr>root_ppn = f, pt_frames = [f]\<rparr>"
  have n: "pt_new ph = Some (?pt, ph1)" using fa(1) by (simp add: pt_new_def)
  note new = pt_new_inv [OF n live]
  obtain pt' ph2 where "pt_map TRAMPOLINE_VPN (pa_floor (pa_from_usize strampoline)) (PTE_R OR PTE_X) ?pt ph1
      = Some (pt', ph2)" "n \<le> fa_free (ph_frames ph2)"
    using pt_map_succeeds_free [OF new(1) fa(2) new(2)] by blast
  moreover have "vpn_from_va (va_from_usize TRAMPOLINE) = Some TRAMPOLINE_VPN"
    by (simp add: vpn_from_va_def TRAMPOLINE_VPN_def va_page_offset_def va_from_usize_def address_consts
        VA_WIDTH_SV39_def)
  ultimately show ?thesis using n al by (simp add: new_bare_def map_trampoline_def ppn_from_pa_def)
qed

lemma from_existed_user_succeeds:
  assumes "user_ms base ph parent L te" "pa_page_offset (pa_from_usize strampoline) = 0"
    "3 + 3 * length (ms_pages parent) \<le> fa_free (ph_frames ph)"
  shows "\<exists>forked ph'. from_existed_user strampoline parent ph = Some (forked, ph')"
proof -
  note live = user_msD(2) [OF assms(1)]
  obtain ms0 ph1 ms ph2 where s: "new_bare ph = Some (ms0, ph1)" "map_trampoline strampoline ms0 ph1 = Some (ms, ph2)"
      "3 * length (ms_pages parent) \<le> fa_free (ph_frames ph2)"
    using trampoline_set_succeeds [OF live _ assms(2), of "3 * length (ms_pages parent)"] assms(3) by auto
  obtain te' L1 where c: "copying base (ph_mem ph) L te' [] ms ph2 L1" "areas ms = []"
    by (rule map_trampoline_copying [OF live s(1,2)])
  have "\<exists>ms' ph'. copy_areas (areas parent) parent ms ph2 = Some (ms', ph') \<and> 0 \<le> fa_free (ph_frames ph')"
    by (rule copy_areas_succeed [OF assms(1) _ c(1)]) (use c(2) s(3) in \<open>simp_all add: ms_pages_def\<close>)
  then show ?thesis using s(1,2) by (auto simp: from_existed_user_def)
qed

text \<open>
  C27: Fork does not panic while three frames per page of the parent and three more are free,
  the most that the copied pages and the tables of the new space can take.
\<close>

theorem from_existed_user_total:
  assumes "user_ms base ph parent L te" "pa_page_offset (pa_from_usize strampoline) = 0"
    "3 + 3 * length (ms_pages parent) \<le> fa_free (ph_frames ph)"
  shows "\<exists>forked ph'. from_existed_user strampoline parent ph = Some (forked, ph')"
  by (rule from_existed_user_succeeds [OF assms])

subsection \<open>A concrete space\<close>

lemma demo_space:
  obtains ph ms L te where "user_ms 1 ph ms L te" "6 \<le> fa_free (ph_frames ph)" "ms_pages ms = [1]"
    "\<exists>f. map data_frames (areas ms) = [[(1, f)]]"
proof -
  have live: "fa_live 1 (ph_frames demo_phys) {}" by (simp add: demo_phys_def fa_live_def)
  obtain ms0 ph0 ms1 ph1 where s: "new_bare demo_phys = Some (ms0, ph0)"
      "map_trampoline 0x80200000 ms0 ph0 = Some (ms1, ph1)" "30 \<le> fa_free (ph_frames ph1)"
    using trampoline_set_succeeds [OF live, where n = 30 and strampoline = "0x80200000"]
    by (auto simp: demo_phys_def fa_free_def pa_page_offset_def pa_from_usize_def PA_WIDTH_SV39_def address_consts)
  obtain te L where c: "copying 1 (ph_mem demo_phys) {} te [] ms1 ph1 L" "areas ms1 = []"
    by (rule map_trampoline_copying [OF live s(1,2)])
  then have u: "user_ms 1 ph1 ms1 L te" by (simp add: copying_def)
  let ?a = "\<lparr>vpn_range = \<lparr>range_l = 1, range_r = 2\<rparr>, data_frames = [], map_type = Framed,
             map_perm = PTE_R OR PTE_W OR PTE_U\<rparr>"
  have pages: "area_pages ?a = [1]" by (simp add: area_pages_def range_items.simps range_iter_next_def)
  have tv: "TRAMPOLINE_VPN \<noteq> 1" using TRAMPOLINE_VPN_nat by auto
  obtain ms ph where p: "ms_push ?a None ms1 ph1 = Some (ms, ph)" "6 \<le> fa_free (ph_frames ph)"
    using ms_push_succeeds [OF u, where area = ?a and n = 6] s(3) pages tv by (auto simp: ms_pages_def c(2))
  obtain es L' where e: "areas ms = areas ms1 @ [?a\<lparr>data_frames := es\<rparr>]" "map fst es = area_pages ?a"
      "user_ms 1 ph ms L' te"
    by (rule ms_push_framed [OF u _ _ _ _ _ _ p(1)]) (use pages tv in \<open>simp_all add: ms_pages_def c(2)\<close>)
  have "ms_pages ms = [1]" using e(1) pages c(2) by (simp add: ms_pages_def area_pages_def)
  moreover have "\<exists>f. map data_frames (areas ms) = [[(1, f)]]" using e(1,2) c(2) pages by auto
  ultimately show thesis by (rule that [OF e(3) p(2)])
qed

theorem from_existed_user_total_witness:
  "\<exists>ph ms forked ph'. from_existed_user 0x80200000 ms ph = Some (forked, ph') \<and> ms_pages ms = [1]"
  by (rule demo_space)
    (use from_existed_user_total [where strampoline = "0x80200000"] in
      \<open>fastforce simp: pa_page_offset_def pa_from_usize_def PA_WIDTH_SV39_def address_consts\<close>)

theorem from_existed_user_isolates_witness:
  "\<exists>ph ms forked ph'. from_existed_user 0x80200000 ms ph = Some (forked, ph') \<and> ms_pages ms = [1]
     \<and> list_all2 (area_copy (ph_mem ph) (ph_mem ph')) (areas ms) (areas forked)"
proof (rule demo_space)
  fix ph ms L te
  assume u: "user_ms 1 ph ms L te" and free: "6 \<le> fa_free (ph_frames ph)" and pg: "ms_pages ms = [1]"
  obtain forked ph' where f: "from_existed_user 0x80200000 ms ph = Some (forked, ph')"
    using from_existed_user_succeeds [OF u, where strampoline = "0x80200000"] free pg
    by (auto simp: pa_page_offset_def pa_from_usize_def PA_WIDTH_SV39_def address_consts)
  show ?thesis using from_existed_user_isolates [OF u f] f pg by blast
qed

end
