(* ===== verification/Security_Api.thy ===== *)
theory Security_Api
  imports Prelude
begin

text \<open>
  The data types every security module shares (os/src/security/api.rs), the credentials
  of a process (os/src/security/credentials.rs) and the authorization policy
  (os/src/security/policy.rs). Results are values of \<open>IpcError + 'a\<close>, with \<open>Inl\<close> for
  \<open>Err\<close>.
\<close>

section \<open>Shared types\<close>

type_synonym Uid = u32
type_synonym ResourceId = u64

datatype CapabilitySet = CapabilitySet u32

definition cap_empty :: CapabilitySet where
  "cap_empty = CapabilitySet 0"

definition KILL :: CapabilitySet where
  "KILL = CapabilitySet (push_bit 0 1)"

definition IPC_ADMIN :: CapabilitySet where
  "IPC_ADMIN = CapabilitySet (push_bit 1 1)"

definition AUDIT_READ :: CapabilitySet where
  "AUDIT_READ = CapabilitySet (push_bit 2 1)"

fun cap_bits :: "CapabilitySet \<Rightarrow> u32" where
  "cap_bits (CapabilitySet b) = b"

definition contains :: "CapabilitySet \<Rightarrow> CapabilitySet \<Rightarrow> bool" where
  "contains self required \<longleftrightarrow> cap_bits self AND cap_bits required = cap_bits required"

definition cap_all :: CapabilitySet where
  "cap_all = CapabilitySet (cap_bits KILL OR cap_bits IPC_ADMIN OR cap_bits AUDIT_READ)"

lemmas cap_defs [model_defs] =
  cap_empty_def KILL_def IPC_ADMIN_def AUDIT_READ_def cap_all_def contains_def

datatype IpcOperation = SignalSend | PipeCreate | PipeRead | PipeWrite | AuditRead

record IpcSubject =
  subj_pid :: usize
  subj_uid :: Uid
  subj_capabilities :: CapabilitySet

record IpcObject =
  obj_id :: ResourceId
  obj_owner_uid :: Uid

record IpcRequest =
  req_subject :: IpcSubject
  req_object :: IpcObject
  req_operation :: IpcOperation
  req_amount :: usize

datatype IpcError =
    PermissionDenied
  | InvalidAddress
  | InvalidArgument
  | ProcessNotFound
  | TooManyFiles
  | ResourceExhausted
  | TryAgain

type_synonym 'a IpcResult = "IpcError + 'a"

text \<open>A set contains a set of capabilities exactly when it has every bit of it.\<close>

lemma contains_iff_bits:
  "contains s r \<longleftrightarrow> (\<forall>i. bit (cap_bits r) i \<longrightarrow> bit (cap_bits s) i)"
proof -
  have "contains s r \<longleftrightarrow> (\<forall>i. bit (cap_bits s AND cap_bits r) i = bit (cap_bits r) i)"
    unfolding contains_def by (metis bit_eqI)
  then show ?thesis by (auto simp: bit_and_iff)
qed

lemma contains_refl: "contains s s"
  by (simp add: contains_iff_bits)

lemma contains_trans: "contains a b \<Longrightarrow> contains b c \<Longrightarrow> contains a c"
  by (simp add: contains_iff_bits)

lemma contains_empty: "contains s cap_empty"
  by (simp add: contains_iff_bits cap_empty_def)

lemma empty_lacks [simp]:
  "\<not> contains cap_empty KILL" "\<not> contains cap_empty IPC_ADMIN" "\<not> contains cap_empty AUDIT_READ"
  by (simp_all add: cap_defs)

lemma all_contains [simp]:
  "contains cap_all KILL" "contains cap_all IPC_ADMIN" "contains cap_all AUDIT_READ"
  by (simp_all add: cap_defs)

section \<open>Credentials\<close>

definition ROOT_UID :: Uid where
  "ROOT_UID = 0"

record Credentials =
  cred_uid :: Uid
  cred_capabilities :: CapabilitySet

definition cred_root :: Credentials where
  "cred_root = \<lparr>cred_uid = ROOT_UID, cred_capabilities = cap_all\<rparr>"

definition cred_initial :: Credentials where
  "cred_initial = cred_root"

definition cred_fork_from :: "Credentials \<Rightarrow> Credentials" where
  "cred_fork_from parent = parent"

definition is_root :: "Credentials \<Rightarrow> bool" where
  "is_root c \<longleftrightarrow> cred_uid c = ROOT_UID"

section \<open>Authorization policy\<close>

definition authorize_signal :: "IpcRequest \<Rightarrow> unit IpcResult" where
  "authorize_signal request =
     (let subj = req_subject request; obj = req_object request in
      if subj_pid subj = obj_id obj then Inr ()
      else if subj_uid subj = obj_owner_uid obj then Inr ()
      else if subj_uid subj = 0 then Inr ()
      else if contains (subj_capabilities subj) KILL then Inr ()
      else Inl PermissionDenied)"

definition authorize :: "IpcRequest \<Rightarrow> unit IpcResult" where
  "authorize request =
     (case req_operation request of
        SignalSend \<Rightarrow> authorize_signal request
      | _ \<Rightarrow> Inr ())"

text \<open>
  C10: the authorization decision is the policy table of the source: every operation other
  than sending a signal is allowed, and a signal is allowed exactly for a process
  signalling itself, a target of the same user, root, or a holder of the KILL capability;
  every other signal is refused with PermissionDenied and with no other error.
\<close>

theorem authorize_decision:
  "authorize r =
     (if req_operation r = SignalSend then
        if subj_pid (req_subject r) = obj_id (req_object r)
           \<or> subj_uid (req_subject r) = obj_owner_uid (req_object r)
           \<or> subj_uid (req_subject r) = 0
           \<or> bit (cap_bits (subj_capabilities (req_subject r))) 0
        then Inr () else Inl PermissionDenied
      else Inr ())"
proof -
  have "contains c KILL \<longleftrightarrow> bit (cap_bits c) 0" for c
    by (auto simp: contains_iff_bits KILL_def bit_1_iff)
  then show ?thesis
    by (simp add: authorize_def authorize_signal_def Let_def split: IpcOperation.splits)
qed

lemma authorize_errorD: "authorize r = Inl e \<Longrightarrow> e = PermissionDenied \<and> req_operation r = SignalSend"
  by (auto simp: authorize_def authorize_signal_def Let_def split: IpcOperation.splits if_splits)

end
