(* ===== verification/User_Access.thy ===== *)
theory User_Access
  imports Page_Table Security_Api
begin

text \<open>
  Access to user memory (the helpers of os/src/mm/page_table.rs from \<open>check_user_range\<close> on,
  and os/src/mm/user_access.rs). A slice of a frame is the frame and the two bounds; copying
  through slices reads and writes the physical memory. Loops over addresses are partial
  functions, because their termination depends on the range staying below the user limit;
  that they end is proved. A \<open>T\<close> of the source is given by its size and alignment.
\<close>

section \<open>Definitions\<close>

definition MAX_STR_LEN :: usize where "MAX_STR_LEN = 0x10000"
definition MAX_ARGV :: usize where "MAX_ARGV = 64"
definition USER_VA_LIMIT :: usize where "USER_VA_LIMIT = push_bit 38 1"

partial_function (option) check_range_loop ::
    "phys_mem \<Rightarrow> PageTable \<Rightarrow> bool \<Rightarrow> usize \<Rightarrow> usize \<Rightarrow> bool option" where
  "check_range_loop m page_table write cur end' =
     (if cur < end' then
        (case translate m page_table (va_floor (va_from_usize cur)) of
           None \<Rightarrow> Some False
         | Some pte \<Rightarrow>
             if \<not> flags_contain (pte_flags pte) PTE_U then Some False
             else if write \<and> \<not> flags_contain (pte_flags pte) PTE_W then Some False
             else if \<not> write \<and> \<not> flags_contain (pte_flags pte) PTE_R then Some False
             else check_range_loop m page_table write
                    (min ((cur AND NOT (PAGE_SIZE - 1)) + PAGE_SIZE) end') end')
      else Some True)"

definition check_user_range :: "phys_mem \<Rightarrow> usize \<Rightarrow> usize \<Rightarrow> usize \<Rightarrow> bool \<Rightarrow> bool option" where
  "check_user_range m tok ptr len write =
     (if len = 0 then Some True
      else case checked_add ptr len of
             None \<Rightarrow> Some False
           | Some end' \<Rightarrow>
               if USER_VA_LIMIT \<le> ptr \<or> USER_VA_LIMIT < end' then Some False
               else check_range_loop m (from_token tok) write ptr end')"

type_synonym slice = "PhysPageNum \<times> nat \<times> nat"

partial_function (option) byte_buffer_loop ::
    "phys_mem \<Rightarrow> PageTable \<Rightarrow> usize \<Rightarrow> usize \<Rightarrow> slice list \<Rightarrow> slice list run option" where
  "byte_buffer_loop m page_table start end' v =
     (if start < end' then
        (case translate m page_table (va_floor (va_from_usize start)) of
           None \<Rightarrow> Some Panic
         | Some pte \<Rightarrow>
             (case (va_page_offset (va_from_usize start),
                    min (va_from_vpn (va_floor (va_from_usize start) + 1)) (va_from_usize end')) of
                (offset, end_va) \<Rightarrow>
                  if va_page_offset end_va = 0 then
                    byte_buffer_loop m page_table (usize_from_va end_va) end'
                      (v @ [(pte_ppn pte, unat offset, 4096)])
                  else if va_page_offset end_va < offset then Some Panic
                  else byte_buffer_loop m page_table (usize_from_va end_va) end'
                      (v @ [(pte_ppn pte, unat offset, unat (va_page_offset end_va))])))
      else Some (Ret v))"

definition try_translated_byte_buffer ::
    "phys_mem \<Rightarrow> usize \<Rightarrow> usize \<Rightarrow> usize \<Rightarrow> bool \<Rightarrow> slice list option run option" where
  "try_translated_byte_buffer m tok ptr len write =
     (case check_user_range m tok ptr len write of
        None \<Rightarrow> None
      | Some False \<Rightarrow> Some (Ret None)
      | Some True \<Rightarrow>
          map_option (map_run Some) (byte_buffer_loop m (from_token tok) ptr (ptr + len) []))"

text \<open>A string is the list of its characters, each the code of one byte.\<close>

partial_function (option) str_loop ::
    "phys_mem \<Rightarrow> PageTable \<Rightarrow> usize \<Rightarrow> usize \<Rightarrow> u8 list \<Rightarrow> u8 list option run option" where
  "str_loop m page_table limit cur string =
     (if cur < limit then
        (case translate m page_table (va_floor (va_from_usize cur)) of
           None \<Rightarrow> Some (Ret None)
         | Some pte \<Rightarrow>
             if \<not> flags_contain (pte_flags pte) PTE_U \<or> \<not> flags_contain (pte_flags pte) PTE_R
             then Some (Ret None)
             else
               (case (cur AND (PAGE_SIZE - 1), min (PAGE_SIZE - (cur AND (PAGE_SIZE - 1))) (limit - cur)) of
                  (offset, chunk) \<Rightarrow>
                    if PAGE_SIZE < offset + chunk then Some Panic
                    else
                      (case take (unat chunk) (drop (unat offset) (get_bytes_array m (pte_ppn pte))) of
                         sl \<Rightarrow>
                           (case position (\<lambda>b. b = 0) sl of
                              Some z \<Rightarrow> Some (Ret (Some (string @ take z sl)))
                            | None \<Rightarrow> str_loop m page_table limit (cur + chunk) (string @ sl)))))
      else Some (Ret None))"

definition try_translated_str ::
    "phys_mem \<Rightarrow> usize \<Rightarrow> usize \<Rightarrow> usize \<Rightarrow> u8 list option run option" where
  "try_translated_str m tok start max_len =
     (if start = 0 \<or> max_len = 0 then Some (Ret None)
      else case checked_add start max_len of
             None \<Rightarrow> Some (Ret None)
           | Some limit \<Rightarrow>
               if USER_VA_LIMIT < limit then Some (Ret None)
               else str_loop m (from_token tok) limit start [])"

text \<open>
  \<open>try_translated_ref\<close> and \<open>try_translated_refmut\<close> differ in the intent they pass on; the
  reference is the physical address it points to.
\<close>

definition try_translated_with ::
    "bool \<Rightarrow> usize \<Rightarrow> usize \<Rightarrow> phys_mem \<Rightarrow> usize \<Rightarrow> usize \<Rightarrow> PhysAddr option option" where
  "try_translated_with write sz align m tok addr =
     (if sz = 0 \<or> addr = 0 \<or> addr mod align \<noteq> 0 then Some None
      else case checked_add addr sz of
             None \<Rightarrow> Some None
           | Some end' \<Rightarrow>
               if USER_VA_LIMIT < end' then Some None
               else if drop_bit PAGE_SIZE_BITS addr \<noteq> drop_bit PAGE_SIZE_BITS (end' - 1) then Some None
               else (case check_user_range m tok addr sz write of
                       None \<Rightarrow> None
                     | Some False \<Rightarrow> Some None
                     | Some True \<Rightarrow> Some (translate_va m (from_token tok) (va_from_usize addr))))"

definition try_translated_ref :: "usize \<Rightarrow> usize \<Rightarrow> phys_mem \<Rightarrow> usize \<Rightarrow> usize \<Rightarrow> PhysAddr option option" where
  "try_translated_ref = try_translated_with False"

definition try_translated_refmut :: "usize \<Rightarrow> usize \<Rightarrow> phys_mem \<Rightarrow> usize \<Rightarrow> usize \<Rightarrow> PhysAddr option option" where
  "try_translated_refmut = try_translated_with True"

subsection \<open>User buffers\<close>

fun slice_len :: "slice \<Rightarrow> nat" where
  "slice_len (p, a, b) = b - a"

fun slice_locs :: "slice \<Rightarrow> (PhysPageNum \<times> nat) list" where
  "slice_locs (p, a, b) = map (Pair p) [a..<b]"

fun slice_bytes :: "phys_mem \<Rightarrow> slice \<Rightarrow> u8 list" where
  "slice_bytes m (p, a, b) = map (m p) [a..<b]"

fun slice_write :: "slice \<Rightarrow> u8 list \<Rightarrow> phys_mem \<Rightarrow> phys_mem" where
  "slice_write (p, a, b) bs m = m(p := \<lambda>off. if a \<le> off \<and> off < b then bs ! (off - a) else m p off)"

definition ub_len :: "slice list \<Rightarrow> nat" where
  "ub_len buffers = fold (\<lambda>b total. total + slice_len b) buffers 0"

record UserBufferIterator =
  it_buffers :: "slice list"
  it_current_buffer :: nat
  it_current_idx :: nat

definition into_iter :: "slice list \<Rightarrow> UserBufferIterator" where
  "into_iter buffers = \<lparr>it_buffers = buffers, it_current_buffer = 0, it_current_idx = 0\<rparr>"

text \<open>Indexing past the end of a slice panics.\<close>

definition ub_next :: "UserBufferIterator \<Rightarrow> ((PhysPageNum \<times> nat) option \<times> UserBufferIterator) run" where
  "ub_next it =
     (if length (it_buffers it) \<le> it_current_buffer it then Ret (None, it)
      else case it_buffers it ! it_current_buffer it of (p, a, b) \<Rightarrow>
        if b - a \<le> it_current_idx it then Panic
        else Ret (Some (p, a + it_current_idx it),
               if it_current_idx it + 1 = b - a
               then it\<lparr>it_current_idx := 0, it_current_buffer := it_current_buffer it + 1\<rparr>
               else it\<lparr>it_current_idx := it_current_idx it + 1\<rparr>))"

subsection \<open>Copying values\<close>

text \<open>
  The loop of \<open>copy_from_user\<close>. The destination is an uninitialised value, so each of its
  bytes is \<open>None\<close> until it has been copied.
\<close>

fun copy_in_loop :: "phys_mem \<Rightarrow> slice list \<Rightarrow> nat \<Rightarrow> u8 option list \<Rightarrow> u8 option list run" where
  "copy_in_loop m [] offset destination = Ret destination"
| "copy_in_loop m (buffer # buffers) offset destination =
     (let end' = offset + slice_len buffer in
      if length destination < end' then Panic
      else copy_in_loop m buffers end'
             (take offset destination @ map Some (slice_bytes m buffer) @ drop end' destination))"

definition copy_from_user :: "phys_mem \<Rightarrow> usize \<Rightarrow> usize \<Rightarrow> usize \<Rightarrow> (IpcError + u8 option list) run option" where
  "copy_from_user m tok src sz =
     (if sz = 0 then Some (Ret (Inl InvalidArgument))
      else case try_translated_byte_buffer m tok src sz False of
             None \<Rightarrow> None
           | Some Panic \<Rightarrow> Some Panic
           | Some (Ret None) \<Rightarrow> Some (Ret (Inl InvalidAddress))
           | Some (Ret (Some buffers)) \<Rightarrow>
               Some (map_run Inr (copy_in_loop m buffers 0 (replicate (unat sz) None))))"

fun copy_out_loop :: "slice list \<Rightarrow> nat \<Rightarrow> u8 list \<Rightarrow> phys_mem \<Rightarrow> phys_mem run" where
  "copy_out_loop [] offset source m = Ret m"
| "copy_out_loop (buffer # buffers) offset source m =
     (let end' = offset + slice_len buffer in
      if length source < end' then Panic
      else copy_out_loop buffers end' source
             (slice_write buffer (take (slice_len buffer) (drop offset source)) m))"

text \<open>The value to copy is given by its bytes; the memory is returned on success.\<close>

definition copy_to_user :: "phys_mem \<Rightarrow> usize \<Rightarrow> usize \<Rightarrow> u8 list \<Rightarrow> (IpcError + phys_mem) run option" where
  "copy_to_user m tok dst value =
     (if value = [] then Some (Ret (Inl InvalidArgument))
      else case try_translated_byte_buffer m tok dst (of_nat (length value)) True of
             None \<Rightarrow> None
           | Some Panic \<Rightarrow> Some Panic
           | Some (Ret None) \<Rightarrow> Some (Ret (Inl InvalidAddress))
           | Some (Ret (Some buffers)) \<Rightarrow> Some (map_run Inr (copy_out_loop buffers 0 value m)))"

definition copy_bytes_from_user :: "phys_mem \<Rightarrow> usize \<Rightarrow> usize \<Rightarrow> usize \<Rightarrow> (IpcError + slice list) run option" where
  "copy_bytes_from_user m tok src len =
     (case try_translated_byte_buffer m tok src len False of
        None \<Rightarrow> None
      | Some Panic \<Rightarrow> Some Panic
      | Some (Ret None) \<Rightarrow> Some (Ret (Inl InvalidAddress))
      | Some (Ret (Some buffers)) \<Rightarrow> Some (Ret (Inr buffers)))"

section \<open>What a user address denotes\<close>

text \<open>
  \<open>user_ok\<close>: the page of the address is mapped for user mode with the permission the access
  needs. \<open>user_loc\<close>: the byte of physical memory behind a mapped address.
\<close>

definition user_ok :: "phys_mem \<Rightarrow> PageTable \<Rightarrow> bool \<Rightarrow> nat \<Rightarrow> bool" where
  "user_ok m pt write a \<longleftrightarrow>
     (case translate m pt (of_nat (a div 4096)) of
        None \<Rightarrow> False
      | Some pte \<Rightarrow> flags_contain (pte_flags pte) PTE_U
                 \<and> flags_contain (pte_flags pte) (if write then PTE_W else PTE_R))"

definition user_range_ok :: "phys_mem \<Rightarrow> PageTable \<Rightarrow> bool \<Rightarrow> nat \<Rightarrow> nat \<Rightarrow> bool" where
  "user_range_ok m pt write a b \<longleftrightarrow> (\<forall>x \<in> {a..<b}. user_ok m pt write x)"

definition user_loc :: "phys_mem \<Rightarrow> PageTable \<Rightarrow> nat \<Rightarrow> (PhysPageNum \<times> nat) option" where
  "user_loc m pt a =
     map_option (\<lambda>pte. (pte_ppn pte, a mod 4096)) (translate m pt (of_nat (a div 4096)))"

lemma va_floor_of_nat: "va_floor v = of_nat (unat v div 4096)"
  by (simp add: unat_va_floor [symmetric])

lemma USER_VA_LIMIT_nat: "unat USER_VA_LIMIT = 2 ^ 38"
  by (simp add: USER_VA_LIMIT_def)

lemma unat_and_not_low: "unat ((v :: u64) AND NOT (2 ^ n - 1)) = unat v div 2 ^ n * 2 ^ n"
proof -
  have "v AND NOT (mask n) = push_bit n (drop_bit n v)"
    by (rule bit_word_eqI) (auto simp: bit_and_iff bit_not_iff bit_mask_iff bit_push_bit_iff bit_drop_bit_eq)
  then have "unat (v AND NOT (2 ^ n - 1)) = unat (drop_bit n v) * 2 ^ n mod 2 ^ 64"
    by (simp only: mask_eq_exp_minus_1 unat_shl)
  also have "\<dots> = unat v div 2 ^ n * 2 ^ n"
  proof -
    have "unat v div 2 ^ n * 2 ^ n \<le> unat v" by simp
    also have "\<dots> < 2 ^ 64" using unat_u64_less [of v] by simp
    finally show ?thesis by (simp only: unat_shr mod_less)
  qed
  finally show ?thesis .
qed

lemma unat_page_end:
  assumes "unat cur < 2 ^ 39"
  shows "unat ((cur AND NOT (PAGE_SIZE - 1)) + PAGE_SIZE) = (unat cur div 4096 + 1) * 4096"
proof -
  have eq: "unat (cur AND NOT (PAGE_SIZE - 1)) = unat cur div 4096 * 4096"
    using unat_and_not_low [of cur 12] by (simp add: PAGE_SIZE_def)
  have "unat cur div 4096 * 4096 \<le> unat cur" by simp
  then have "unat (cur AND NOT (PAGE_SIZE - 1)) + unat PAGE_SIZE < 2 ^ LENGTH(64)"
    using assms unfolding eq page_size_nat by simp
  from unat_add_lem' [OF this] show ?thesis unfolding eq page_size_nat by simp
qed

lemma user_ok_same_page: "a div 4096 = b div 4096 \<Longrightarrow> user_ok m pt w a = user_ok m pt w b"
  by (simp add: user_ok_def)

lemma page_of_interval:
  "(a :: nat) \<le> x \<Longrightarrow> x < (a div 4096 + 1) * 4096 \<Longrightarrow> x div 4096 = a div 4096"
  by (metis Suc_eq_plus1 div_le_mono le_antisym less_Suc_eq_le less_mult_imp_div_less)

lemma page_interval_end:
  assumes "(a :: nat) mod 4096 + c \<le> 4096"
  shows "a + c \<le> (a div 4096 + 1) * 4096"
proof -
  have "a + c = a div 4096 * 4096 + (a mod 4096 + c)" by (simp flip: add.assoc)
  also have "\<dots> \<le> a div 4096 * 4096 + 4096" by (rule add_left_mono [OF assms])
  finally show ?thesis by simp
qed

lemma page_offset_interval:
  assumes "(x :: nat) div 4096 = a div 4096" "a \<le> x"
  shows "x mod 4096 = a mod 4096 + (x - a)"
proof -
  have "x div 4096 * 4096 + x mod 4096 = a div 4096 * 4096 + a mod 4096 + (x - a)"
    using assms(2) by simp
  then show ?thesis unfolding assms(1) by (simp only: add.assoc add_left_cancel)
qed

lemma user_range_ok_page:
  assumes "a < b"
  shows "user_range_ok m pt w a b \<longleftrightarrow>
     user_ok m pt w a \<and> user_range_ok m pt w (min ((a div 4096 + 1) * 4096) b) b"
proof -
  let ?e = "(a div 4096 + 1) * 4096"
  have "a < ?e" by simp
  have page: "user_ok m pt w x = user_ok m pt w a" if "a \<le> x" "x < ?e" for x
    using page_of_interval [OF that] by (rule user_ok_same_page)
  show ?thesis
  proof
    assume "user_range_ok m pt w a b"
    then show "user_ok m pt w a \<and> user_range_ok m pt w (min ?e b) b"
      using assms \<open>a < ?e\<close> unfolding user_range_ok_def Ball_def atLeastLessThan_iff
      by (meson le_trans less_imp_le min.boundedI order_refl)
  next
    assume *: "user_ok m pt w a \<and> user_range_ok m pt w (min ?e b) b"
    have "user_ok m pt w x" if "a \<le> x" "x < b" for x
    proof (cases "x < ?e")
      case True
      then show ?thesis using page [OF that(1) True] * by blast
    next
      case False
      then have "x \<in> {min ?e b..<b}" using that(2) by simp
      then show ?thesis using * unfolding user_range_ok_def by blast
    qed
    then show "user_range_ok m pt w a b" by (simp add: user_range_ok_def)
  qed
qed

lemma check_range_loop_spec:
  assumes "unat end' \<le> 2 ^ 38"
  shows "check_range_loop m pt w cur end' = Some (user_range_ok m pt w (unat cur) (unat end'))"
proof (induction "unat end' - unat cur" arbitrary: cur rule: less_induct)
  case less
  show ?case
  proof (cases "cur < end'")
    case False
    then show ?thesis
      by (simp add: check_range_loop.simps [of m pt w cur] user_range_ok_def word_less_nat_alt)
  next
    case True
    then have lt: "unat cur < unat end'" by (simp add: word_less_nat_alt)
    have c39: "unat cur < 2 ^ 39" using lt assms by simp
    let ?n = "min ((cur AND NOT (PAGE_SIZE - 1)) + PAGE_SIZE) end'"
    have n: "unat ?n = min ((unat cur div 4096 + 1) * 4096) (unat end')"
      using unat_page_end [OF c39] by (simp add: min_def word_le_nat_alt)
    moreover have "unat cur < (unat cur div 4096 + 1) * 4096" by simp
    ultimately have "unat end' - unat ?n < unat end' - unat cur" using lt by linarith
    then have IH: "check_range_loop m pt w ?n end' = Some (user_range_ok m pt w (unat ?n) (unat end'))"
      by (rule less)
    have "check_range_loop m pt w cur end' =
        Some (user_ok m pt w (unat cur) \<and> user_range_ok m pt w (unat ?n) (unat end'))"
      using True IH
      by (subst check_range_loop.simps)
        (auto simp: va_from_usize_id [OF c39] va_floor_of_nat user_ok_def split: option.splits)
    then show ?thesis unfolding n user_range_ok_page [OF lt, symmetric] .
  qed
qed

lemma check_user_range_eq:
  "check_user_range m tok ptr len write =
     Some (len = 0 \<or> unat ptr + unat len \<le> 2 ^ 38
           \<and> user_range_ok m (from_token tok) write (unat ptr) (unat ptr + unat len))"
proof (cases "len = 0")
  case False
  then have pos: "0 < unat len" by (simp add: unat_gt_0)
  show ?thesis
  proof (cases "checked_add ptr len")
    case None
    then have "2 ^ 64 \<le> unat ptr + unat len" by (simp add: checked_add_None_iff)
    with None False show ?thesis by (simp add: check_user_range_def)
  next
    case (Some e)
    then have e: "unat e = unat ptr + unat len" by (rule checked_add_SomeD)
    have "check_user_range m tok ptr len write =
        (if USER_VA_LIMIT \<le> ptr \<or> USER_VA_LIMIT < e then Some False
         else check_range_loop m (from_token tok) write ptr e)"
      using False Some by (simp add: check_user_range_def)
    moreover have "USER_VA_LIMIT \<le> ptr \<or> USER_VA_LIMIT < e \<longleftrightarrow> 2 ^ 38 < unat ptr + unat len"
      using pos unfolding word_le_nat_alt word_less_nat_alt USER_VA_LIMIT_nat e by auto
    ultimately show ?thesis
      using False check_range_loop_spec [of e m "from_token tok" "write" ptr] e by auto
  qed
qed (simp add: check_user_range_def)

text \<open>
  C29: the check of a user range always ends, and accepts a range exactly when it is empty or
  it lies below the user limit and every page it touches is mapped for user mode with the
  permission of the access; in particular an overflowing range is refused.
\<close>

theorem check_user_range_spec:
  "check_user_range m tok ptr len write =
     Some (len = 0 \<or> (unat ptr + unat len \<le> 2 ^ 38
           \<and> list_all (user_ok m (from_token tok) write) [unat ptr..<unat ptr + unat len]))"
  unfolding check_user_range_eq user_range_ok_def by (simp add: list_all_iff)

section \<open>Translated buffers\<close>

definition slices_denote :: "phys_mem \<Rightarrow> PageTable \<Rightarrow> slice list \<Rightarrow> nat \<Rightarrow> nat \<Rightarrow> bool" where
  "slices_denote m pt v a b \<longleftrightarrow>
     map Some (concat (map slice_locs v)) = map (user_loc m pt) [a..<b]
     \<and> (\<forall>(p, x, y) \<in> set v. x < y \<and> y \<le> 4096)"

lemma slices_denote_append:
  "slices_denote m pt v a b \<Longrightarrow> slices_denote m pt w b c \<Longrightarrow> a \<le> b \<Longrightarrow> b \<le> c \<Longrightarrow>
     slices_denote m pt (v @ w) a c"
  using upt_add_eq_append [of a b "c - b"] by (auto simp: slices_denote_def)

lemma slice_denotes_page:
  assumes t: "translate m pt (of_nat (a div 4096)) = Some pte" and "a < b" "b \<le> (a div 4096 + 1) * 4096"
  shows "slices_denote m pt [(pte_ppn pte, a mod 4096, a mod 4096 + (b - a))] a b"
proof -
  have arith: "(a + i) div 4096 = a div 4096" "(a + i) mod 4096 = a mod 4096 + i" if "i < b - a" for i
  proof -
    show "(a + i) div 4096 = a div 4096"
      using that assms(3) by (intro page_of_interval) linarith+
    then show "(a + i) mod 4096 = a mod 4096 + i"
      by (metis add_left_cancel add.assoc div_mult_mod_eq)
  qed
  have "map Some (slice_locs (pte_ppn pte, a mod 4096, a mod 4096 + (b - a))) = map (user_loc m pt) [a..<b]"
    by (rule nth_equalityI) (simp_all add: user_loc_def arith t)
  moreover have "a mod 4096 + (b - a) \<le> 4096" using arith(2) [of "b - a - 1"] assms(2,3) by linarith
  ultimately show ?thesis using assms(2) by (simp add: slices_denote_def)
qed

text \<open>The last address of one slice: the next page boundary or the end of the range.\<close>

lemma slice_end:
  assumes lt: "unat start < unat end'" and e38: "unat end' \<le> 2 ^ 38"
  defines "e \<equiv> min (va_from_vpn (va_floor (va_from_usize start) + 1)) (va_from_usize end')"
  shows "unat e = min ((unat start div 4096 + 1) * 4096) (unat end')"
    and "va_page_offset e = 0 \<Longrightarrow> unat e = (unat start div 4096 + 1) * 4096"
    and "va_page_offset e \<noteq> 0 \<Longrightarrow> unat e = unat end'
           \<and> unat end' mod 4096 = unat start mod 4096 + (unat end' - unat start)"
    and "unat (usize_from_va e) = unat e \<or> unat e = unat end' \<and> end' \<le> usize_from_va e"
proof -
  have s39: "unat start < 2 ^ 39" "unat end' < 2 ^ 39" using lt e38 by simp_all
  have "unat (va_floor start) < 2 ^ 27" using s39 by (simp add: unat_va_floor less_mult_imp_div_less)
  then have "unat (va_floor start + 1) = unat start div 4096 + 1"
    using unat_add_lem' [of "va_floor start" 1] by (simp add: unat_va_floor)
  moreover have "unat start div 4096 + 1 < 2 ^ 52" using s39 by (simp add: less_mult_imp_div_less)
  ultimately have E: "unat (va_from_vpn (va_floor start + 1)) = (unat start div 4096 + 1) * 4096"
    using unat_va_from_vpn [of "va_floor start + 1"] by simp
  have e_def': "e = min (va_from_vpn (va_floor start + 1)) end'"
    using s39 by (simp add: e_def va_from_usize_id)
  show e: "unat e = min ((unat start div 4096 + 1) * 4096) (unat end')"
    unfolding e_def' using E by (simp add: min_def word_le_nat_alt)
  have off: "va_page_offset e = 0 \<longleftrightarrow> unat e mod 4096 = 0"
    using unat_va_page_offset [of e] by (simp add: word_unat_eq_iff)
  have less: "unat start < (unat start div 4096 + 1) * 4096" by simp
  show "unat e = (unat start div 4096 + 1) * 4096" if "va_page_offset e = 0"
  proof (rule ccontr)
    assume "unat e \<noteq> (unat start div 4096 + 1) * 4096"
    then have "unat start < unat e" "unat e < (unat start div 4096 + 1) * 4096" using e lt less by linarith+
    then have "unat e div 4096 = unat start div 4096" by (intro page_of_interval) simp_all
    with that off have "unat e = unat start div 4096 * 4096" by (metis add_0_right div_mult_mod_eq)
    then have "unat e \<le> unat start" by simp
    with \<open>unat start < unat e\<close> show False by simp
  qed
  show "unat e = unat end' \<and> unat end' mod 4096 = unat start mod 4096 + (unat end' - unat start)"
    if "va_page_offset e \<noteq> 0"
  proof -
    have "unat e \<noteq> (unat start div 4096 + 1) * 4096" using that off by auto
    then have e': "unat e = unat end'" "unat end' < (unat start div 4096 + 1) * 4096" using e by linarith+
    then have "unat end' div 4096 = unat start div 4096" using lt by (intro page_of_interval) simp_all
    then have "unat end' mod 4096 = unat start mod 4096 + (unat end' - unat start)"
      using div_mult_mod_eq [of "unat end'" 4096] div_mult_mod_eq [of "unat start" 4096] lt by linarith
    with e' show ?thesis by simp
  qed
  show "unat (usize_from_va e) = unat e \<or> unat e = unat end' \<and> end' \<le> usize_from_va e"
  proof (cases "unat e < 2 ^ 38")
    case True
    then have "\<not> (2 ^ 38 \<le> e)" by (simp add: word_le_nat_alt)
    then show ?thesis by (simp add: usize_from_va_def VA_WIDTH_SV39_def)
  next
    case False
    then have "unat e = 2 ^ 38" "unat end' = 2 ^ 38" using e e38 by linarith+
    then have "e = 2 ^ 38" "end' = 2 ^ 38" by (simp_all add: word_unat_eq_iff)
    then show ?thesis by (simp add: usize_from_va_def VA_WIDTH_SV39_def)
  qed
qed

lemma byte_buffer_loop_spec:
  assumes "unat end' \<le> 2 ^ 38" "user_range_ok m pt w (unat start) (unat end')"
  shows "\<exists>v'. byte_buffer_loop m pt start end' v = Some (Ret (v @ v'))
       \<and> slices_denote m pt v' (unat start) (unat end')"
  using assms(2)
proof (induction "unat end' - unat start" arbitrary: start v rule: less_induct)
  case less
  show ?case
  proof (cases "start < end'")
    case False
    then show ?thesis
      by (simp add: byte_buffer_loop.simps [of m pt start] slices_denote_def word_less_nat_alt)
  next
    case True
    then have lt: "unat start < unat end'" by (simp add: word_less_nat_alt)
    let ?s = "unat start"
    let ?e = "min (va_from_vpn (va_floor (va_from_usize start) + 1)) (va_from_usize end')"
    note se = slice_end [OF lt assms(1)]
    have e_gt: "?s < unat ?e" "unat ?e \<le> unat end'" "unat ?e \<le> (?s div 4096 + 1) * 4096"
      using se(1) lt by simp_all
    have s39: "unat start < 2 ^ 39" using lt assms(1) by simp
    have "user_ok m pt w ?s" using less.prems lt by (simp add: user_range_ok_def)
    then obtain pte where t: "translate m pt (of_nat (?s div 4096)) = Some pte"
      by (auto simp: user_ok_def split: option.splits)
    let ?seg = "(pte_ppn pte, ?s mod 4096, ?s mod 4096 + (unat ?e - ?s))"
    have seg: "slices_denote m pt [?seg] ?s (unat ?e)"
      by (rule slice_denotes_page [OF t e_gt(1,3)])
    have step: "byte_buffer_loop m pt start end' v = byte_buffer_loop m pt (usize_from_va ?e) end' (v @ [?seg])"
    proof (cases "va_page_offset ?e = 0")
      case True
      have "?s mod 4096 + (unat ?e - ?s) = 4096" using se(2) [OF True] by simp
      with True \<open>start < end'\<close> t show ?thesis
        by (subst byte_buffer_loop.simps)
          (simp add: va_from_usize_id [OF s39] va_floor_of_nat unat_va_page_offset)
    next
      case False
      then have "unat (va_page_offset ?e) = ?s mod 4096 + (unat ?e - ?s)"
        using se(3) by (simp add: unat_va_page_offset)
      moreover from this have "\<not> va_page_offset ?e < va_page_offset start"
        by (simp add: word_less_nat_alt unat_va_page_offset)
      ultimately show ?thesis using False \<open>start < end'\<close> t
        by (subst byte_buffer_loop.simps)
          (simp add: va_from_usize_id [OF s39] va_floor_of_nat unat_va_page_offset)
    qed
    show ?thesis
    proof (cases "unat (usize_from_va ?e) = unat ?e")
      case True
      have ok: "user_range_ok m pt w (unat (usize_from_va ?e)) (unat end')"
        using less.prems e_gt True by (auto simp: user_range_ok_def)
      have dec: "unat end' - unat (usize_from_va ?e) < unat end' - ?s" using e_gt True by linarith
      obtain v' where v': "byte_buffer_loop m pt (usize_from_va ?e) end' (v @ [?seg])
            = Some (Ret ((v @ [?seg]) @ v'))"
          "slices_denote m pt v' (unat ?e) (unat end')"
        using less.hyps [OF dec ok, of "v @ [?seg]"] unfolding True by blast
      have "slices_denote m pt ([?seg] @ v') ?s (unat end')"
        using slices_denote_append [OF seg v'(2)] e_gt by simp
      with step v'(1) show ?thesis by (intro exI [of _ "[?seg] @ v'"]) simp
    next
      case False
      then have "unat ?e = unat end'" "end' \<le> usize_from_va ?e" using se(4) by blast+
      then have "byte_buffer_loop m pt (usize_from_va ?e) end' (v @ [?seg]) = Some (Ret (v @ [?seg]))"
        by (subst byte_buffer_loop.simps) (simp add: not_less [symmetric])
      with step seg \<open>unat ?e = unat end'\<close> show ?thesis by (intro exI [of _ "[?seg]"]) simp
    qed
  qed
qed

text \<open>A user range as the source accepts it.\<close>

definition access_ok :: "phys_mem \<Rightarrow> usize \<Rightarrow> usize \<Rightarrow> usize \<Rightarrow> bool \<Rightarrow> bool" where
  "access_ok m tok ptr len write \<longleftrightarrow>
     len = 0 \<or> unat ptr + unat len \<le> 2 ^ 38
           \<and> user_range_ok m (from_token tok) write (unat ptr) (unat ptr + unat len)"

lemma byte_buffer_denotes:
  "\<exists>v. try_translated_byte_buffer m tok ptr len write = Some (Ret (if access_ok m tok ptr len write then Some v else None))
     \<and> (if access_ok m tok ptr len write
        then slices_denote m (from_token tok) v (unat ptr) (unat ptr + unat len) else True)"
proof (cases "access_ok m tok ptr len write")
  case False
  then have "check_user_range m tok ptr len write = Some False"
    by (simp add: check_user_range_eq access_ok_def)
  with False show ?thesis by (simp add: try_translated_byte_buffer_def)
next
  case True
  then have c: "check_user_range m tok ptr len write = Some True"
    by (simp add: check_user_range_eq access_ok_def)
  show ?thesis
  proof (cases "len = 0")
    case True
    with c \<open>access_ok m tok ptr len write\<close> show ?thesis
      by (simp add: try_translated_byte_buffer_def byte_buffer_loop.simps slices_denote_def)
  next
    case False
    with True have r: "unat ptr + unat len \<le> 2 ^ 38"
        "user_range_ok m (from_token tok) write (unat ptr) (unat ptr + unat len)"
      by (simp_all add: access_ok_def)
    then have e: "unat (ptr + len) = unat ptr + unat len" by (intro unat_add_lem') simp
    show ?thesis
      using byte_buffer_loop_spec [of "ptr + len" m "from_token tok" "write" ptr "[]"] r c True
      by (auto simp: e try_translated_byte_buffer_def)
  qed
qed

lemma concat_slice_locs_length: "length (concat (map slice_locs v)) = sum_list (map slice_len v)"
  by (induction v) auto

lemma ub_len_eq: "ub_len v = sum_list (map slice_len v)"
proof -
  have "fold (\<lambda>b total. total + slice_len b) v n = n + sum_list (map slice_len v)" for n
    by (induction v arbitrary: n) auto
  then show ?thesis by (simp add: ub_len_def)
qed

lemma slices_denote_len: "slices_denote m pt v a b \<Longrightarrow> ub_len v = b - a"
  unfolding slices_denote_def ub_len_eq concat_slice_locs_length [symmetric]
  by (metis length_map length_upt)

text \<open>
  C30: translating a user buffer never panics and always ends. It returns slices exactly when
  the range is accessible; the slices then hold, in order and without gap or overlap, the
  physical bytes behind the addresses of the range, so their total length is the length
  that was asked for.
\<close>

theorem byte_buffer_spec:
  "\<exists>v. try_translated_byte_buffer m tok ptr len write = Some (Ret (if access_ok m tok ptr len write then Some v else None))
     \<and> (if access_ok m tok ptr len write
        then map Some (concat (map slice_locs v)) = map (user_loc m (from_token tok)) [unat ptr..<unat ptr + unat len]
             \<and> ub_len v = unat len
        else True)"
  using byte_buffer_denotes [of m tok ptr len "write"] slices_denote_len
  by (auto simp: slices_denote_def split: if_splits)

section \<open>Iterating over a user buffer\<close>

fun ub_collect :: "nat \<Rightarrow> UserBufferIterator \<Rightarrow> (PhysPageNum \<times> nat) list run" where
  "ub_collect 0 it = Ret []"
| "ub_collect (Suc n) it =
     (case ub_next it of
        Panic \<Rightarrow> Panic
      | Ret (None, _) \<Rightarrow> Ret []
      | Ret (Some l, it) \<Rightarrow> map_run (Cons l) (ub_collect n it))"

text \<open>The bytes an iterator has still to deliver.\<close>

definition ub_rest :: "UserBufferIterator \<Rightarrow> (PhysPageNum \<times> nat) list" where
  "ub_rest it = drop (it_current_idx it) (concat (map slice_locs (drop (it_current_buffer it) (it_buffers it))))"

definition ub_ok :: "UserBufferIterator \<Rightarrow> bool" where
  "ub_ok it \<longleftrightarrow> (\<forall>b \<in> set (it_buffers it). 0 < slice_len b)
     \<and> (if it_current_buffer it < length (it_buffers it)
        then it_current_idx it < slice_len (it_buffers it ! it_current_buffer it) else it_current_idx it = 0)"

lemma ub_next_facts:
  assumes "ub_ok it"
  shows "\<exists>it'. ub_next it = Ret (case ub_rest it of [] \<Rightarrow> None | l # _ \<Rightarrow> Some l, it')
      \<and> ub_ok it' \<and> ub_rest it' = tl (ub_rest it)"
proof (cases "it_current_buffer it < length (it_buffers it)")
  case False
  then have "ub_rest it = []" by (simp add: ub_rest_def)
  with False assms show ?thesis by (simp add: ub_next_def)
next
  case True
  let ?bs = "it_buffers it" and ?c = "it_current_buffer it" and ?i = "it_current_idx it"
  obtain p a b where s: "?bs ! ?c = (p, a, b)" by (cases "?bs ! ?c")
  have i: "?i < b - a" using assms True s by (simp add: ub_ok_def)
  have d: "drop ?c ?bs = (p, a, b) # drop (Suc ?c) ?bs" using True s by (metis Cons_nth_drop_Suc)
  have r: "ub_rest it = (p, a + ?i) # drop (Suc ?i) (map (Pair p) [a..<b]) @ concat (map slice_locs (drop (Suc ?c) ?bs))"
    using i by (simp add: ub_rest_def d Cons_nth_drop_Suc [symmetric] drop_map flip: upt_conv_Cons)
      (simp add: upt_conv_Cons)
  show ?thesis
  proof (cases "?i + 1 = b - a")
    case True
    let ?it = "it\<lparr>it_current_idx := 0, it_current_buffer := ?c + 1\<rparr>"
    have "ub_ok ?it" using assms by (auto simp: ub_ok_def)
    moreover have "ub_rest ?it = tl (ub_rest it)" using True r by (simp add: ub_rest_def)
    ultimately show ?thesis using True i s r \<open>?c < length ?bs\<close> by (simp add: ub_next_def)
  next
    case False
    let ?it = "it\<lparr>it_current_idx := ?i + 1\<rparr>"
    have "ub_ok ?it" using assms False i s \<open>?c < length ?bs\<close> by (auto simp: ub_ok_def)
    moreover have "ub_rest ?it = tl (ub_rest it)" using i r by (simp add: ub_rest_def d)
    ultimately show ?thesis using False i s r \<open>?c < length ?bs\<close> by (simp add: ub_next_def)
  qed
qed

lemma ub_collect_eq: "ub_ok it \<Longrightarrow> ub_collect n it = Ret (take n (ub_rest it))"
proof (induction n arbitrary: it)
  case (Suc n)
  obtain it' where n: "ub_next it = Ret (case ub_rest it of [] \<Rightarrow> None | l # _ \<Rightarrow> Some l, it')"
      "ub_ok it'" "ub_rest it' = tl (ub_rest it)"
    using ub_next_facts [OF Suc.prems] by blast
  then show ?case using Suc.IH [OF n(2)] by (cases "ub_rest it") auto
qed simp

lemma ub_ok_into_iter:
  assumes "slices_denote m pt v a b"
  shows "ub_ok (into_iter v)" "ub_rest (into_iter v) = concat (map slice_locs v)"
proof -
  have pos: "\<forall>x \<in> set v. 0 < slice_len x" using assms by (auto simp: slices_denote_def)
  then have "0 < slice_len (v ! 0)" if "v \<noteq> []" using that by simp
  with pos show "ub_ok (into_iter v)" by (auto simp: ub_ok_def into_iter_def)
  show "ub_rest (into_iter v) = concat (map slice_locs v)" by (simp add: ub_rest_def into_iter_def)
qed

text \<open>
  C31: iterating over the buffer of an accessible user range visits the physical bytes behind
  the addresses of the range one by one, in order, and never panics.
\<close>

theorem user_buffer_iteration:
  assumes "try_translated_byte_buffer m tok ptr len w = Some (Ret (Some v))"
  shows "\<exists>ls. ub_collect n (into_iter v) = Ret ls
       \<and> map Some ls = map (user_loc m (from_token tok)) (take n [unat ptr..<unat ptr + unat len])"
proof -
  have d: "slices_denote m (from_token tok) v (unat ptr) (unat ptr + unat len)"
    using byte_buffer_denotes [of m tok ptr len w] assms by (auto split: if_splits)
  have "ub_collect n (into_iter v) = Ret (take n (concat (map slice_locs v)))"
    using ub_collect_eq [OF ub_ok_into_iter(1) [OF d]] ub_ok_into_iter(2) [OF d] by simp
  moreover have "map Some (take n (concat (map slice_locs v)))
      = map (user_loc m (from_token tok)) (take n [unat ptr..<unat ptr + unat len])"
    using d by (simp only: slices_denote_def take_map [symmetric])
  ultimately show ?thesis by blast
qed

section \<open>Copying values\<close>

definition user_byte :: "phys_mem \<Rightarrow> PageTable \<Rightarrow> nat \<Rightarrow> u8" where
  "user_byte m pt a = (case user_loc m pt a of Some (p, off) \<Rightarrow> m p off | None \<Rightarrow> 0)"

lemma slices_bytes:
  assumes "slices_denote m pt v a b"
  shows "concat (map (slice_bytes m) v) = map (user_byte m pt) [a..<b]"
proof -
  have "concat (map (slice_bytes m) v) = map (\<lambda>(p, off). m p off) (concat (map slice_locs v))"
    by (induction v) (auto simp: comp_def)
  also have "\<dots> = map (\<lambda>l. case l of Some (p, off) \<Rightarrow> m p off | None \<Rightarrow> 0) (map Some (concat (map slice_locs v)))"
    by (simp add: comp_def)
  also have "\<dots> = map (user_byte m pt) [a..<b]"
    using assms by (simp only: slices_denote_def) (simp add: user_byte_def comp_def)
  finally show ?thesis .
qed

lemma copy_in_loop_eq:
  assumes "length dst = off + sum_list (map slice_len v)"
  shows "copy_in_loop m v off dst = Ret (take off dst @ map Some (concat (map (slice_bytes m) v)))"
  using assms
proof (induction m v off dst rule: copy_in_loop.induct)
  case (2 m b bs off dst)
  have len: "length (slice_bytes m b) = slice_len b" by (cases b) simp
  let ?d = "take off dst @ map Some (slice_bytes m b) @ drop (off + slice_len b) dst"
  have "copy_in_loop m bs (off + slice_len b) ?d
      = Ret (take (off + slice_len b) ?d @ map Some (concat (map (slice_bytes m) bs)))"
    using "2.prems" len by (intro "2.IH") auto
  then show ?case using "2.prems" len by (simp add: Let_def)
qed simp

lemma copy_from_user_eq:
  assumes "sz \<noteq> 0"
  shows "copy_from_user m tok src sz = Some (Ret
     (if access_ok m tok src sz False
      then Inr (map (Some \<circ> user_byte m (from_token tok)) [unat src..<unat src + unat sz])
      else Inl InvalidAddress))"
proof -
  obtain v where v: "try_translated_byte_buffer m tok src sz False =
        Some (Ret (if access_ok m tok src sz False then Some v else None))"
      "access_ok m tok src sz False \<Longrightarrow> slices_denote m (from_token tok) v (unat src) (unat src + unat sz)"
    using byte_buffer_denotes [of m tok src sz False] by (auto split: if_splits)
  show ?thesis
  proof (cases "access_ok m tok src sz False")
    case True
    from v(2) [OF True] have "unat sz = sum_list (map slice_len v)"
      using slices_denote_len ub_len_eq by fastforce
    then show ?thesis
      using True v(1) assms copy_in_loop_eq [of "replicate (unat sz) None" 0 v m] slices_bytes [OF v(2) [OF True]]
      by (simp add: copy_from_user_def)
  qed (use v(1) assms in \<open>simp add: copy_from_user_def\<close>)
qed

text \<open>
  C32: copying a value of positive size from user memory always ends without a panic. It
  fails with \<open>InvalidAddress\<close> exactly when the range is not readable by the user; otherwise
  every byte of the value is initialised, with the byte behind its address.
\<close>

theorem copy_from_user_spec:
  assumes "sz \<noteq> 0"
  shows "copy_from_user m tok src sz = Some (Ret
     (if access_ok m tok src sz False
      then Inr (map (Some \<circ> user_byte m (from_token tok)) [unat src..<unat src + unat sz])
      else Inl InvalidAddress))"
  by (rule copy_from_user_eq [OF assms])

theorem copy_from_user_spec_witness:
  "copy_from_user (\<lambda>_ _. 0) 0 (- 8) 16 = Some (Ret (Inl InvalidAddress))"
proof -
  have "unat (- 8 :: u64) = 18446744073709551608" by simp
  then show ?thesis using copy_from_user_spec [of 16 "\<lambda>_ _. 0" 0 "- 8"] by (simp add: access_ok_def)
qed

lemma copy_out_loop_facts:
  assumes "length src = off + sum_list (map slice_len v)" "distinct (concat (map slice_locs v))"
  shows "\<exists>m'. copy_out_loop v off src m = Ret m'
      \<and> (\<forall>i < sum_list (map slice_len v). case concat (map slice_locs v) ! i of (p, o') \<Rightarrow> m' p o' = src ! (off + i))
      \<and> (\<forall>p o'. (p, o') \<notin> set (concat (map slice_locs v)) \<longrightarrow> m' p o' = m p o')"
  using assms
proof (induction v off src m rule: copy_out_loop.induct)
  case (2 b bs off src m)
  obtain p x y where b: "b = (p, x, y)" by (cases b)
  let ?n = "slice_len b" and ?L = "concat (map slice_locs bs)"
  let ?m = "slice_write b (take ?n (drop off src)) m"
  have n: "?n = y - x" by (simp add: b)
  obtain m' where m': "copy_out_loop bs (off + ?n) src ?m = Ret m'"
      "\<forall>i < sum_list (map slice_len bs). case ?L ! i of (p, o') \<Rightarrow> m' p o' = src ! (off + ?n + i)"
      "\<forall>p o'. (p, o') \<notin> set ?L \<longrightarrow> m' p o' = ?m p o'"
    using "2.IH" [OF refl] "2.prems" by fastforce
  have here: "m' p (x + i) = src ! (off + i)" if i: "i < ?n" for i
  proof -
    have "(p, x + i) \<in> set (slice_locs b)" using i by (auto simp: b)
    then have "(p, x + i) \<notin> set ?L" using "2.prems"(2) by auto
    then have "m' p (x + i) = ?m p (x + i)" using m'(3) by blast
    moreover have "x + i < y" using i n by simp
    ultimately show ?thesis using i "2.prems"(1) by (simp add: b)
  qed
  have "case concat (map slice_locs (b # bs)) ! i of (q, o') \<Rightarrow> m' q o' = src ! (off + i)"
    if i: "i < sum_list (map slice_len (b # bs))" for i
  proof (cases "i < ?n")
    case True
    then show ?thesis using here by (simp add: b nth_append)
  next
    case False
    then have "concat (map slice_locs (b # bs)) ! i = ?L ! (i - ?n)" by (simp add: b nth_append)
    moreover have "i - ?n < sum_list (map slice_len bs)" using i False by simp
    ultimately show ?thesis using m'(2) False by fastforce
  qed
  moreover have "m' q o' = m q o'" if "(q, o') \<notin> set (concat (map slice_locs (b # bs)))" for q o'
    using that m'(3) by (auto simp: b)
  ultimately show ?case using m'(1) "2.prems"(1) by (simp add: Let_def)
qed simp

text \<open>
  A user address space in which no page shares its frame with another user page or with a
  page table: what \<open>MemorySet\<close> builds, since each framed page gets a frame of its own.
\<close>

definition user_frame :: "phys_mem \<Rightarrow> PageTable \<Rightarrow> nat \<Rightarrow> PhysPageNum option" where
  "user_frame m pt p =
     (case translate m pt (of_nat p) of
        None \<Rightarrow> None
      | Some pte \<Rightarrow> if flags_contain (pte_flags pte) PTE_U then Some (pte_ppn pte) else None)"

definition user_space_ok :: "phys_mem \<Rightarrow> PageTable \<Rightarrow> bool" where
  "user_space_ok m pt \<longleftrightarrow>
     (\<forall>p < 2 ^ 26. \<forall>f. user_frame m pt p = Some f \<longrightarrow> f \<notin> pt_tables m (root_ppn pt)
        \<and> (\<forall>q < 2 ^ 26. user_frame m pt q = Some f \<longrightarrow> p = q))"

lemma user_ok_frame:
  assumes "user_ok m pt w a"
  obtains f where "user_frame m pt (a div 4096) = Some f" "user_loc m pt a = Some (f, a mod 4096)"
  using assms by (auto simp: user_ok_def user_frame_def user_loc_def split: option.splits)

lemma user_loc_inj:
  assumes sp: "user_space_ok m pt" and "a < 2 ^ 38" "b < 2 ^ 38"
    and fr: "user_frame m pt (a div 4096) \<noteq> None" "user_frame m pt (b div 4096) \<noteq> None"
    and eq: "user_loc m pt a = user_loc m pt b"
  shows "a = b"
proof -
  have p: "a div 4096 < 2 ^ 26" "b div 4096 < 2 ^ 26"
    using assms(2,3) by (simp_all add: less_mult_imp_div_less)
  obtain f where f: "user_frame m pt (a div 4096) = Some f" using fr(1) by blast
  then have "user_loc m pt a = Some (f, a mod 4096)"
    by (auto simp: user_frame_def user_loc_def split: option.splits if_splits)
  then have "user_frame m pt (b div 4096) = Some f" "b mod 4096 = a mod 4096"
    using fr(2) eq by (auto simp: user_frame_def user_loc_def split: option.splits if_splits)
  then have "a div 4096 = b div 4096" using sp f p unfolding user_space_ok_def by blast
  with \<open>b mod 4096 = a mod 4096\<close> show ?thesis by (metis div_mult_mod_eq)
qed

lemma user_range_locs_distinct:
  assumes "user_space_ok m pt" "user_range_ok m pt w a b" "b \<le> 2 ^ 38"
  shows "distinct (map (user_loc m pt) [a..<b])"
proof -
  have "user_frame m pt (x div 4096) \<noteq> None" if "x \<in> {a..<b}" for x
    using assms(2) that user_ok_frame [of m pt w x] by (auto simp: user_range_ok_def)
  then have "inj_on (user_loc m pt) {a..<b}"
    using assms(1,3) by (intro inj_onI user_loc_inj [OF assms(1)]) auto
  then show ?thesis by (simp add: distinct_map)
qed

text \<open>\<open>copied m m' pt a bs\<close>: the user bytes from address \<open>a\<close> on become \<open>bs\<close>, nothing else changes.\<close>

definition copied :: "phys_mem \<Rightarrow> phys_mem \<Rightarrow> PageTable \<Rightarrow> nat \<Rightarrow> u8 list \<Rightarrow> bool" where
  "copied m m' pt a bs \<longleftrightarrow>
     translate m' pt = translate m pt
     \<and> map (user_byte m' pt) [a..<a + length bs] = bs
     \<and> (\<forall>p off. Some (p, off) \<notin> user_loc m pt ` {a..<a + length bs} \<longrightarrow> m' p off = m p off)"

lemma copy_to_user_facts:
  fixes dst :: usize
  assumes sp: "user_space_ok m (from_token tok)" and ne: "value \<noteq> []" and len: "length value < 2 ^ 64"
  defines "ok \<equiv> access_ok m tok dst (of_nat (length value)) True"
  obtains m' where "copy_to_user m tok dst value = Some (Ret (if ok then Inr m' else Inl InvalidAddress))"
    and "ok \<Longrightarrow> copied m m' (from_token tok) (unat dst) value"
proof -
  let ?pt = "from_token tok" and ?n = "of_nat (length value) :: usize" and ?a = "unat dst"
  have n: "unat ?n = length value" using len by (simp add: unat_of_nat)
  obtain v where v: "try_translated_byte_buffer m tok dst ?n True = Some (Ret (if ok then Some v else None))"
      "ok \<Longrightarrow> slices_denote m ?pt v ?a (?a + length value)"
    using byte_buffer_denotes [of m tok dst ?n True] n by (auto simp: ok_def split: if_splits)
  show thesis
  proof (cases ok)
    case False
    with v(1) ne show thesis by (intro that [of m]) (simp_all add: copy_to_user_def)
  next
    case True
    let ?L = "concat (map slice_locs v)"
    have L: "map Some ?L = map (user_loc m ?pt) [?a..<?a + length value]"
      using v(2) [OF True] by (simp add: slices_denote_def)
    have "?n \<noteq> 0" using n ne by (metis length_0_conv unat_0)
    then have rng: "?a + length value \<le> 2 ^ 38" "user_range_ok m ?pt True ?a (?a + length value)"
      using True n by (simp_all add: ok_def access_ok_def)
    have "distinct (map Some ?L)" unfolding L by (rule user_range_locs_distinct [OF sp rng(2,1)])
    then have dL: "distinct ?L" by (simp add: distinct_map)
    have lL: "length ?L = length value" using arg_cong [OF L, of length] by simp
    then have sum: "sum_list (map slice_len v) = length value" by (simp add: concat_slice_locs_length)
    obtain m' where m': "copy_out_loop v 0 value m = Ret m'"
        "\<And>i. i < length value \<Longrightarrow> case ?L ! i of (p, o') \<Rightarrow> m' p o' = value ! i"
        "\<And>p o'. (p, o') \<notin> set ?L \<Longrightarrow> m' p o' = m p o'"
      using copy_out_loop_facts [of "value" 0 v m] sum dL by auto
    have imL: "Some ` set ?L = user_loc m ?pt ` {?a..<?a + length value}"
      using arg_cong [OF L, of set] by (simp only: set_map set_upt)
    have setL: "(p, o') \<in> set ?L \<longleftrightarrow> Some (p, o') \<in> user_loc m ?pt ` {?a..<?a + length value}" for p o'
      unfolding imL [symmetric] by blast
    have nt: "t \<notin> fst ` set ?L" if "t \<in> pt_tables m (root_ppn ?pt)" for t
    proof
      assume "t \<in> fst ` set ?L"
      then obtain l where "l \<in> set ?L" "t = fst l" by blast
      then have "(t, snd l) \<in> set ?L" by (simp only: prod.collapse)
      then obtain x o' where x: "x \<in> {?a..<?a + length value}" "user_loc m ?pt x = Some (t, o')"
        unfolding setL by (elim imageE) metis
      then have "user_ok m ?pt True x" using rng(2) by (simp add: user_range_ok_def)
      then obtain f where "user_frame m ?pt (x div 4096) = Some f" "f = t"
        using x(2) by (elim user_ok_frame) auto
      moreover have "x div 4096 < 2 ^ 26" using x(1) rng(1) by (simp add: less_mult_imp_div_less)
      ultimately show False using sp that unfolding user_space_ok_def by blast
    qed
    have "m' t = m t" if "t \<in> pt_tables m (root_ppn ?pt)" for t
    proof (rule ext)
      fix o'
      have "(t, o') \<notin> set ?L"
      proof
        assume "(t, o') \<in> set ?L"
        from imageI [OF this, of fst] nt [OF that] show False by (simp only: fst_conv)
      qed
      then show "m' t o' = m t o'" by (rule m'(3))
    qed
    then have tr: "translate m' ?pt = translate m ?pt" by (rule translate_frames(1))
    then have loc: "user_loc m' ?pt = user_loc m ?pt" by (intro ext) (simp add: user_loc_def)
    have "map (user_byte m' ?pt) [?a..<?a + length value] = value"
    proof (rule nth_equalityI)
      fix i assume "i < length (map (user_byte m' ?pt) [?a..<?a + length value])"
      then have i: "i < length value" by simp
      have "user_loc m ?pt (?a + i) = Some (?L ! i)"
        using arg_cong [OF L, of "\<lambda>xs. xs ! i"] i lL by simp
      then show "map (user_byte m' ?pt) [?a..<?a + length value] ! i = value ! i"
        using m'(2) [OF i] i by (auto simp: user_byte_def loc split: prod.splits)
    qed simp
    with tr m'(3) have "copied m m' ?pt ?a value" unfolding copied_def setL by blast
    moreover have "copy_to_user m tok dst value = Some (Ret (Inr m'))"
      using v(1) True ne m'(1) by (simp add: copy_to_user_def)
    ultimately show thesis using True by (intro that [of m']) simp_all
  qed
qed

text \<open>
  C33: copying a value to user memory always ends without a panic. It fails with
  \<open>InvalidAddress\<close>, changing nothing, exactly when the range is not writable by the user.
  Otherwise the bytes of the range become the value, every other byte of physical memory,
  the page tables included, is unchanged, and reading the value back returns it.
\<close>

theorem copy_to_user_roundtrip:
  assumes "user_space_ok m (from_token tok)" "value \<noteq> []" "length value < 2 ^ 64"
  shows "\<exists>m'. copy_to_user m tok dst value =
      Some (Ret (if access_ok m tok dst (of_nat (length value)) True then Inr m' else Inl InvalidAddress))
    \<and> (access_ok m tok dst (of_nat (length value)) True \<longrightarrow>
         copied m m' (from_token tok) (unat dst) value
         \<and> (access_ok m tok dst (of_nat (length value)) False \<longrightarrow>
              copy_from_user m' tok dst (of_nat (length value)) = Some (Ret (Inr (map Some value)))))"
proof -
  let ?n = "of_nat (length value) :: usize"
  obtain m' where m': "copy_to_user m tok dst value =
        Some (Ret (if access_ok m tok dst ?n True then Inr m' else Inl InvalidAddress))"
      "access_ok m tok dst ?n True \<Longrightarrow> copied m m' (from_token tok) (unat dst) value"
    by (rule copy_to_user_facts [OF assms, where dst = dst]) (rule that)
  have n1: "unat ?n = length value" using assms(3) by (simp add: unat_of_nat)
  then have "unat ?n \<noteq> unat (0 :: usize)" using assms(2) by simp
  then have n: "unat ?n = length value" "?n \<noteq> 0" using n1 by auto
  have "copy_from_user m' tok dst ?n = Some (Ret (Inr (map Some value)))"
    if "access_ok m tok dst ?n True" "access_ok m tok dst ?n False"
  proof -
    note c = m'(2) [OF that(1), unfolded copied_def]
    have "access_ok m' tok dst ?n False"
      using that(2) c by (simp add: access_ok_def user_range_ok_def user_ok_def)
    then show ?thesis
      using copy_from_user_eq [OF n(2), of m' tok dst] c n(1) by (simp flip: map_map)
  qed
  with m' show ?thesis by blast
qed

section \<open>Strings\<close>

text \<open>The reference: reading a terminated string byte by byte, at most \<open>n\<close> bytes from \<open>a\<close> on.\<close>

fun scan_str :: "phys_mem \<Rightarrow> PageTable \<Rightarrow> nat \<Rightarrow> nat \<Rightarrow> u8 list option" where
  "scan_str m pt 0 a = None"
| "scan_str m pt (Suc n) a =
     (if \<not> user_ok m pt False a then None
      else if user_byte m pt a = 0 then Some []
      else map_option (Cons (user_byte m pt a)) (scan_str m pt n (Suc a)))"

lemma scan_str_chunk:
  assumes "\<forall>x \<in> {a..<a + c}. user_ok m pt False x"
  shows "scan_str m pt (c + n) a =
     (let sl = map (user_byte m pt) [a..<a + c] in
      case position (\<lambda>b. b = 0) sl of
        Some z \<Rightarrow> Some (take z sl)
      | None \<Rightarrow> map_option ((@) sl) (scan_str m pt n (a + c)))"
  using assms
proof (induction c arbitrary: a)
  case 0
  then show ?case by (simp add: option.map_ident_strong)
next
  case (Suc c)
  have "\<forall>x \<in> {Suc a..<Suc a + c}. user_ok m pt False x" using Suc.prems by simp
  note IH = Suc.IH [OF this]
  define sl where "sl = map (user_byte m pt) [Suc a..<Suc a + c]"
  have up: "map (user_byte m pt) [a..<a + Suc c] = user_byte m pt a # sl"
    unfolding sl_def by (subst upt_conv_Cons) simp_all
  have ok: "user_ok m pt False a" using Suc.prems by simp
  show ?case
    unfolding up using ok IH [folded sl_def]
    by (cases "scan_str m pt n (Suc (a + c))") (auto simp: Let_def split: option.splits)
qed

lemma map_option_append_append:
  "map_option ((@) (xs @ ys)) x = map_option ((@) xs) (map_option ((@) ys) x)"
  by (cases x) simp_all

lemma str_chunk:
  assumes lt: "unat cur < unat limit" and l38: "unat limit \<le> 2 ^ 38"
  defines "offset \<equiv> cur AND (PAGE_SIZE - 1)"
    and "chunk \<equiv> min (PAGE_SIZE - (cur AND (PAGE_SIZE - 1))) (limit - cur)"
  shows "unat offset = unat cur mod 4096" "unat chunk = min (4096 - unat cur mod 4096) (unat limit - unat cur)"
    "\<not> PAGE_SIZE < offset + chunk" "unat (cur + chunk) = unat cur + unat chunk"
proof -
  show off: "unat offset = unat cur mod 4096"
    using unat_and_low [of cur 12] by (simp add: offset_def PAGE_SIZE_def)
  have le: "offset \<le> PAGE_SIZE" using off page_size_nat by (simp add: word_le_nat_alt)
  have "unat (PAGE_SIZE - offset) = 4096 - unat cur mod 4096" using unat_sub [OF le] off page_size_nat by simp
  moreover have "unat (limit - cur) = unat limit - unat cur"
    using lt by (intro unat_sub) (simp add: word_le_nat_alt)
  ultimately show ch: "unat chunk = min (4096 - unat cur mod 4096) (unat limit - unat cur)"
    unfolding chunk_def offset_def [symmetric] by (simp add: min_def word_le_nat_alt)
  have "unat offset + unat chunk \<le> 4096"
    using off ch mod_less_divisor [of 4096 "unat cur"] by linarith
  moreover from this have "unat (offset + chunk) = unat offset + unat chunk" by (intro unat_add_lem') simp
  ultimately show "\<not> PAGE_SIZE < offset + chunk" using page_size_nat by (simp add: word_less_nat_alt)
  show "unat (cur + chunk) = unat cur + unat chunk" using ch lt l38 by (intro unat_add_lem') simp
qed

lemma str_loop_spec:
  assumes l38: "unat limit \<le> 2 ^ 38"
  shows "str_loop m pt limit cur string =
     Some (Ret (map_option ((@) string) (scan_str m pt (unat limit - unat cur) (unat cur))))"
proof (induction "unat limit - unat cur" arbitrary: cur string rule: less_induct)
  case less
  show ?case
  proof (cases "cur < limit")
    case False
    then show ?thesis by (simp add: str_loop.simps [of m pt limit cur] word_less_nat_alt)
  next
    case True
    let ?off = "cur AND (PAGE_SIZE - 1)"
    let ?c = "min (PAGE_SIZE - ?off) (limit - cur)"
    let ?a = "unat cur"
    have lt: "?a < unat limit" using True by (simp add: word_less_nat_alt)
    note sc = str_chunk [OF lt l38]
    have c39: "?a < 2 ^ 39" using lt l38 by simp
    have cpos: "0 < unat ?c" "?a + unat ?c \<le> unat limit" "?a mod 4096 + unat ?c \<le> 4096"
      using sc(2) lt mod_less_divisor [of 4096 ?a] by linarith+
    show ?thesis
    proof (cases "user_ok m pt False ?a")
      case False
      then have "str_loop m pt limit cur string = Some (Ret None)"
        using True
        by (subst str_loop.simps)
          (auto simp: va_from_usize_id [OF c39] va_floor_of_nat user_ok_def split: option.splits)
      moreover obtain k where "unat limit - ?a = Suc k" using lt by (cases "unat limit - ?a") auto
      ultimately show ?thesis using False by simp
    next
      case ok: True
      then obtain pte where t: "translate m pt (of_nat (?a div 4096)) = Some pte"
        "flags_contain (pte_flags pte) PTE_U" "flags_contain (pte_flags pte) PTE_R"
        by (auto simp: user_ok_def split: option.splits)
      let ?sl = "take (unat ?c) (drop (unat ?off) (get_bytes_array m (pte_ppn pte)))"
      have page: "x div 4096 = ?a div 4096" "x mod 4096 = ?a mod 4096 + (x - ?a)"
        if "?a \<le> x" "x < ?a + unat ?c" for x
      proof -
        have "x < (?a div 4096 + 1) * 4096"
          by (rule less_le_trans [OF that(2) page_interval_end [OF cpos(3)]])
        then show d: "x div 4096 = ?a div 4096" by (rule page_of_interval [OF that(1)])
        show "x mod 4096 = ?a mod 4096 + (x - ?a)" by (rule page_offset_interval [OF d that(1)])
      qed
      have sl: "?sl = map (user_byte m pt) [?a..<?a + unat ?c]"
      proof (rule nth_equalityI)
        show "length ?sl = length (map (user_byte m pt) [?a..<?a + unat ?c])"
          using cpos(3) sc(1) by (simp add: get_bytes_array_def)
        fix i assume "i < length ?sl"
        then have i: "i < unat ?c" by simp
        then have "user_byte m pt (?a + i) = m (pte_ppn pte) (?a mod 4096 + i)"
          using page [of "?a + i"] t(1) by (simp add: user_byte_def user_loc_def)
        moreover have "?a mod 4096 + i < 4096"
          by (rule less_le_trans [OF add_strict_left_mono [OF i] cpos(3)])
        ultimately show "?sl ! i = map (user_byte m pt) [?a..<?a + unat ?c] ! i"
          using i sc(1) by (simp add: get_bytes_array_def)
      qed
      have all: "\<forall>x \<in> {?a..<?a + unat ?c}. user_ok m pt False x"
        using ok page(1) user_ok_same_page by (metis atLeastLessThan_iff)
      have dec: "unat limit - unat (cur + ?c) < unat limit - ?a" using sc(4) cpos by linarith
      have rest: "unat limit - ?a = unat ?c + (unat limit - unat (cur + ?c))" using sc(4) cpos by linarith
      have "str_loop m pt limit cur string =
          (case position (\<lambda>b. b = 0) ?sl of
             Some z \<Rightarrow> Some (Ret (Some (string @ take z ?sl)))
           | None \<Rightarrow> str_loop m pt limit (cur + ?c) (string @ ?sl))"
        using True t sc(3)
        by (subst str_loop.simps) (simp add: va_from_usize_id [OF c39] va_floor_of_nat)
      also have "\<dots> = Some (Ret (map_option ((@) string) (scan_str m pt (unat limit - ?a) ?a)))"
        unfolding rest scan_str_chunk [OF all] sl less.hyps [OF dec] sc(4)
        by (simp add: Let_def map_option_append_append split: option.split)
      finally show ?thesis .
    qed
  qed
qed

text \<open>
  C34: loading a string page by page always ends, never panics, and gives the same result as
  reading it byte by byte: the bytes up to the first zero when that zero comes within the
  limit and every byte up to it is readable by the user, and nothing otherwise. Memory after
  the terminator need not be mapped.
\<close>

theorem translated_str_equiv:
  "try_translated_str m tok start max_len =
     Some (Ret (if start = 0 \<or> max_len = 0 \<or> 2 ^ 38 < unat start + unat max_len then None
                else scan_str m (from_token tok) (unat max_len) (unat start)))"
proof (cases "checked_add start max_len")
  case None
  then have "2 ^ 64 \<le> unat start + unat max_len" by (simp add: checked_add_None_iff)
  with None show ?thesis by (auto simp: try_translated_str_def)
next
  case (Some limit)
  then have e: "unat limit = unat start + unat max_len" by (rule checked_add_SomeD)
  then have lim: "USER_VA_LIMIT < limit \<longleftrightarrow> 2 ^ 38 < unat start + unat max_len"
    by (simp only: word_less_nat_alt USER_VA_LIMIT_nat)
  have id: "map_option ((@) []) x = x" for x :: "u8 list option" by (cases x) simp_all
  show ?thesis
    using Some str_loop_spec [of limit m "from_token tok" start "[]"] e lim
    by (auto simp: try_translated_str_def id)
qed

section \<open>A concrete user address space\<close>

text \<open>One page, at address 4096, mapped readable and writable for the user to a frame of its own.\<close>

abbreviation demo_flags :: PTEFlags where
  "demo_flags \<equiv> PTE_U OR PTE_R OR PTE_W"

lemma demo_user:
  obtains m tok where "user_space_ok m (from_token tok)"
    "\<And>a w. 4096 \<le> a \<Longrightarrow> a < 8192 \<Longrightarrow> user_ok m (from_token tok) w a"
proof -
  obtain pt ph where n: "pt_inv 1 ph pt {1}" "root_ppn pt = 1" "2 < fa_free (ph_frames ph)"
    and none: "\<And>v. pt_lookup (ph_mem ph) pt v = None"
    by (rule demo_new) (rule that)
  obtain f ph1 where fa: "frame_alloc ph = (Some f, ph1)" "2 \<le> fa_free (ph_frames ph1)"
    using frame_alloc_succeeds [OF n(3)] by blast
  note fr = frame_alloc_pt [OF n(1) fa(1)]
  have "pt_tables (ph_mem ph) 1 \<subseteq> {1}" using n(1,2) by (simp add: pt_inv_def)
  with fr(2,5) n(2) have fnt: "f \<notin> pt_tables (ph_mem ph1) 1" by auto
  have none1: "pt_lookup (ph_mem ph1) pt v = None" for v using none fr(4) by (simp add: pt_lookup_def)
  obtain pt2 ph2 where mp: "pt_map 1 f demo_flags pt ph1 = Some (pt2, ph2)"
    using pt_map_succeeds [OF fr(1) fa(2) none1] by blast
  let ?e = "pte_new f (demo_flags OR PTE_V)"
  obtain L2 where inv: "pt_inv 1 ph2 pt2 L2" and root: "root_ppn pt2 = 1"
    and lk: "\<And>w. unat w < 2 ^ 27 \<Longrightarrow> pt_lookup (ph_mem ph2) pt2 w = (if w = 1 then Some ?e else None)"
    and kept: "data_kept (ph_mem ph1) (ph_mem ph2) 1 {f, 1}"
    by (rule pt_map_facts [OF fr(1) mp]) (use fr(3) n(2) none1 in simp_all)
  let ?m = "ph_mem ph2" and ?pt = "from_token (token pt2)"
  have tok: "root_ppn ?pt = 1" using from_token_token [of pt2] root by simp
  then have tr: "translate ?m ?pt = translate ?m pt2" using root by (intro translate_root) simp
  have clean: "pt_clean ?m pt2" using inv by (simp add: pt_inv_def)
  have t1: "translate ?m pt2 1 = Some ?e"
    using lk [of 1] by (auto simp: pt_lookup_def split: option.splits if_splits)
  have only: "p = 1 \<and> g = f" if p26: "p < 2 ^ 26" and uf: "user_frame ?m ?pt p = Some g" for p g
  proof -
    obtain e where e: "translate ?m pt2 (of_nat p) = Some e" "flags_contain (pte_flags e) PTE_U" "g = pte_ppn e"
      using uf tr by (auto simp: user_frame_def split: option.splits if_splits)
    have u: "unat (of_nat p :: usize) = p" using p26 by (simp add: unat_of_nat)
    have "e \<noteq> 0" using e(2) by (auto simp: flags_contain_def pte_flags_def PTE_U_def)
    then have "pt_lookup ?m pt2 (of_nat p) = Some e" by (rule pt_clean_translate [OF clean e(1)])
    then have "of_nat p = (1 :: usize)" "e = ?e" using lk [of "of_nat p"] p26 u by (auto split: if_splits)
    moreover from this have "p = 1" using u by simp
    ultimately show ?thesis using e(3) fr(3) by simp
  qed
  have "f \<notin> pt_tables ?m (root_ppn ?pt)"
    using kept fnt unfolding tok data_kept_def by auto
  with only have "user_space_ok ?m ?pt" unfolding user_space_ok_def by metis
  moreover have "user_ok ?m ?pt w a" if "4096 \<le> a" "a < 8192" for a w
  proof -
    have "a div 4096 = 1" using that by simp
    then show ?thesis using t1 by (simp add: user_ok_def tr flags_contain_def pte_flag_defs)
  qed
  ultimately show thesis by (rule that)
qed

lemma demo_access:
  assumes "\<And>a w. 4096 \<le> a \<Longrightarrow> a < 8192 \<Longrightarrow> user_ok m (from_token tok) w a"
  shows "access_ok m tok 4096 2 w"
  using assms by (auto simp: access_ok_def user_range_ok_def)

theorem user_buffer_iteration_witness:
  "\<exists>m tok v ls. try_translated_byte_buffer m tok 4096 2 False = Some (Ret (Some v))
     \<and> ub_collect 2 (into_iter v) = Ret ls \<and> length ls = 2"
proof (rule demo_user)
  fix m tok assume ok: "\<And>a w. 4096 \<le> a \<Longrightarrow> a < 8192 \<Longrightarrow> user_ok m (from_token tok) w a"
  obtain v where v: "try_translated_byte_buffer m tok 4096 2 False = Some (Ret (Some v))"
    using byte_buffer_denotes [of m tok 4096 2 False] demo_access [OF ok] by auto
  obtain ls where ls: "ub_collect 2 (into_iter v) = Ret ls"
      "map Some ls = map (user_loc m (from_token tok)) (take 2 [unat (4096 :: usize)..<unat (4096 :: usize) + unat (2 :: usize)])"
    using user_buffer_iteration [OF v, of 2] by blast
  have "length ls = 2" using arg_cong [OF ls(2), of length] by simp
  with v ls(1) show ?thesis by blast
qed

theorem copy_to_user_roundtrip_witness:
  "\<exists>m tok m'. copy_to_user m tok 4096 [5, 6] = Some (Ret (Inr m'))
     \<and> copy_from_user m' tok 4096 2 = Some (Ret (Inr [Some 5, Some 6]))"
proof (rule demo_user)
  fix m tok assume sp: "user_space_ok m (from_token tok)"
    and ok: "\<And>a w. 4096 \<le> a \<Longrightarrow> a < 8192 \<Longrightarrow> user_ok m (from_token tok) w a"
  show ?thesis
    using copy_to_user_roundtrip [OF sp, of "[5, 6]" 4096] demo_access [OF ok] by auto
qed

end
