(* ===== verification/Pipe.thy ===== *)
theory Pipe
  imports Security_Api
begin

text \<open>
  Pipes (os/src/fs/pipe.rs): the 32-byte ring buffer, the two ends, and the blocking read
  and write loops. A loop runs in activations: from the point where the scheduler resumes
  the process up to its return or to the next call of \<open>suspend_current_and_run_next\<close>.
  Between two activations other processes run, so the behaviour of a pipe is the behaviour
  of an arbitrary interleaving of read and write activations.

  Array indices are natural numbers below 32. A buffer is found by the stable identifier of
  its pipe. The strong count of the write end, which decides \<open>upgrade()\<close> of the weak
  reference in the buffer, is an argument.
\<close>

section \<open>The ring buffer\<close>

definition RING_BUFFER_SIZE :: nat where
  "RING_BUFFER_SIZE = 32"

datatype RingBufferStatus = Full | Empty | Normal

record PipeRingBuffer =
  pb_arr :: "u8 list"
  pb_head :: nat
  pb_tail :: nat
  pb_status :: RingBufferStatus
  pb_write_end :: "ResourceId option"

definition pb_new :: PipeRingBuffer where
  "pb_new =
     \<lparr>pb_arr = replicate RING_BUFFER_SIZE 0, pb_head = 0, pb_tail = 0, pb_status = Empty,
      pb_write_end = None\<rparr>"

definition set_write_end :: "ResourceId \<Rightarrow> PipeRingBuffer \<Rightarrow> PipeRingBuffer" where
  "set_write_end write_end b = b\<lparr>pb_write_end := Some write_end\<rparr>"

definition write_byte :: "u8 \<Rightarrow> PipeRingBuffer \<Rightarrow> PipeRingBuffer" where
  "write_byte byte b =
     (let b = b\<lparr>pb_status := Normal\<rparr>;
          b = b\<lparr>pb_arr := (pb_arr b)[pb_tail b := byte]\<rparr>;
          b = b\<lparr>pb_tail := (pb_tail b + 1) mod RING_BUFFER_SIZE\<rparr>
      in if pb_tail b = pb_head b then b\<lparr>pb_status := Full\<rparr> else b)"

definition read_byte :: "PipeRingBuffer \<Rightarrow> u8 \<times> PipeRingBuffer" where
  "read_byte b =
     (let b = b\<lparr>pb_status := Normal\<rparr>;
          c = pb_arr b ! pb_head b;
          b = b\<lparr>pb_head := (pb_head b + 1) mod RING_BUFFER_SIZE\<rparr>;
          b = (if pb_head b = pb_tail b then b\<lparr>pb_status := Empty\<rparr> else b)
      in (c, b))"

definition available_read :: "PipeRingBuffer \<Rightarrow> nat" where
  "available_read b =
     (if pb_status b = Empty then 0
      else if pb_head b < pb_tail b then pb_tail b - pb_head b
      else pb_tail b + RING_BUFFER_SIZE - pb_head b)"

definition available_write :: "PipeRingBuffer \<Rightarrow> nat" where
  "available_write b =
     (if pb_status b = Full then 0 else RING_BUFFER_SIZE - available_read b)"

text \<open>\<open>None\<close> is the panic of \<open>unwrap\<close> on a buffer whose write end was never set.\<close>

definition all_write_ends_closed :: "(ResourceId \<Rightarrow> nat) \<Rightarrow> PipeRingBuffer \<Rightarrow> bool option" where
  "all_write_ends_closed strong_count b = map_option (\<lambda>w. strong_count w = 0) (pb_write_end b)"

section \<open>Ends and identifiers\<close>

record Pipe =
  pipe_readable :: bool
  pipe_writable :: bool
  pipe_buffer :: ResourceId
  pipe_object :: IpcObject

definition read_end_with_buffer :: "ResourceId \<Rightarrow> IpcObject \<Rightarrow> Pipe" where
  "read_end_with_buffer buffer object =
     \<lparr>pipe_readable = True, pipe_writable = False, pipe_buffer = buffer, pipe_object = object\<rparr>"

definition write_end_with_buffer :: "ResourceId \<Rightarrow> IpcObject \<Rightarrow> Pipe" where
  "write_end_with_buffer buffer object =
     \<lparr>pipe_readable = False, pipe_writable = True, pipe_buffer = buffer, pipe_object = object\<rparr>"

record PipeStore =
  NEXT_PIPE_ID :: ResourceId
  pipe_buffers :: "ResourceId \<rightharpoonup> PipeRingBuffer"

definition pipe_store_init :: PipeStore where
  "pipe_store_init = \<lparr>NEXT_PIPE_ID = 1, pipe_buffers = Map.empty\<rparr>"

definition allocate_pipe_id :: "PipeStore \<Rightarrow> ResourceId IpcResult \<times> PipeStore" where
  "allocate_pipe_id s =
     (let pipe_id = NEXT_PIPE_ID s in
      case checked_add pipe_id 1 of
        None \<Rightarrow> (Inl ResourceExhausted, s)
      | Some n \<Rightarrow> (Inr pipe_id, s\<lparr>NEXT_PIPE_ID := n\<rparr>))"

definition make_pipe :: "Uid \<Rightarrow> PipeStore \<Rightarrow> (Pipe \<times> Pipe) IpcResult \<times> PipeStore" where
  "make_pipe owner_uid s =
     (case allocate_pipe_id s of
        (Inl e, s) \<Rightarrow> (Inl e, s)
      | (Inr pipe_id, s) \<Rightarrow>
          let object = \<lparr>obj_id = pipe_id, obj_owner_uid = owner_uid\<rparr>;
              read_end = read_end_with_buffer pipe_id object;
              write_end = write_end_with_buffer pipe_id object;
              buffer = set_write_end pipe_id pb_new
          in (Inr (read_end, write_end), s\<lparr>pipe_buffers := (pipe_buffers s)(pipe_id \<mapsto> buffer)\<rparr>))"

section \<open>The blocking loops\<close>

text \<open>How an activation ends.\<close>

datatype activation = Returned nat | Suspended

text \<open>
  The inner \<open>for _ in 0..loop_read\<close>: \<open>got\<close> are the bytes stored through the buffer iterator
  so far, which yields \<open>want\<close> places in all. The flag tells that the loop returned.
\<close>

fun read_bytes :: "nat \<Rightarrow> PipeRingBuffer \<Rightarrow> nat \<Rightarrow> u8 list \<Rightarrow> PipeRingBuffer \<times> u8 list \<times> bool" where
  "read_bytes 0 b want got = (b, got, False)"
| "read_bytes (Suc n) b want got =
     (if length got < want then
        let (c, b) = read_byte b; got = got @ [c]
        in if length got = want then (b, got, True) else read_bytes n b want got
      else (b, got, True))"

partial_function (option) read_activation ::
  "bool \<Rightarrow> PipeRingBuffer \<Rightarrow> nat \<Rightarrow> u8 list \<Rightarrow> (PipeRingBuffer \<times> u8 list \<times> activation) option" where
  "read_activation closed b want got =
     (let loop_read = available_read b in
      if loop_read = 0 then
        Some (b, got, if closed then Returned (length got) else Suspended)
      else (case read_bytes loop_read b want got of
              (b', got', returned) \<Rightarrow>
                if returned then Some (b', got', Returned (length got'))
                else read_activation closed b' want got'))"

text \<open>\<open>rest\<close> are the bytes the buffer iterator still yields.\<close>

fun write_bytes :: "nat \<Rightarrow> PipeRingBuffer \<Rightarrow> u8 list \<Rightarrow> PipeRingBuffer \<times> u8 list \<times> bool" where
  "write_bytes 0 b rest = (b, rest, False)"
| "write_bytes (Suc n) b [] = (b, [], True)"
| "write_bytes (Suc n) b (x # rest) =
     (let b = write_byte x b
      in if rest = [] then (b, rest, True) else write_bytes n b rest)"

partial_function (option) write_activation ::
  "PipeRingBuffer \<Rightarrow> nat \<Rightarrow> u8 list \<Rightarrow> (PipeRingBuffer \<times> u8 list \<times> activation) option" where
  "write_activation b want rest =
     (let loop_write = available_write b in
      if loop_write = 0 then Some (b, rest, Suspended)
      else (case write_bytes loop_write b rest of
              (b', rest', returned) \<Rightarrow>
                if returned then Some (b', rest', Returned (want - length rest'))
                else write_activation b' want rest'))"

section \<open>The ring buffer is a bounded queue\<close>

definition pb_inv :: "PipeRingBuffer \<Rightarrow> bool" where
  "pb_inv b \<longleftrightarrow>
     length (pb_arr b) = 32 \<and> pb_head b < 32 \<and> pb_tail b < 32
     \<and> (pb_status b = Normal \<longleftrightarrow> pb_head b \<noteq> pb_tail b)"

definition pb_list :: "PipeRingBuffer \<Rightarrow> u8 list" where
  "pb_list b = ring_window (pb_arr b) (pb_head b) (available_read b)"

lemma length_pb_list [simp]: "length (pb_list b) = available_read b"
  by (simp add: pb_list_def)

lemma available_read_pos: "0 < available_read b \<longleftrightarrow> pb_list b \<noteq> []"
  using length_greater_0_conv [of "pb_list b"] by simp

lemma available_read_0_iff: "available_read b = 0 \<longleftrightarrow> pb_list b = []"
  using available_read_pos [of b] by auto

lemma pb_tail_eq: "pb_inv b \<Longrightarrow> pb_tail b = (pb_head b + available_read b) mod 32"
  by (cases "pb_status b") (auto simp: pb_inv_def available_read_def RING_BUFFER_SIZE_def mod_if)

lemma available_read_le: "pb_inv b \<Longrightarrow> available_read b \<le> 32"
  by (auto simp: pb_inv_def available_read_def RING_BUFFER_SIZE_def)

lemma available_write_eq: "pb_inv b \<Longrightarrow> available_write b = 32 - available_read b"
  by (auto simp: pb_inv_def available_write_def available_read_def RING_BUFFER_SIZE_def)

lemma pb_inv_new: "pb_inv pb_new" "pb_list pb_new = []"
  by (simp_all add: pb_inv_def pb_new_def pb_list_def available_read_def RING_BUFFER_SIZE_def)

lemma pb_inv_set_write_end [simp]:
  "pb_inv (set_write_end w b) = pb_inv b" "pb_list (set_write_end w b) = pb_list b"
  by (simp_all add: set_write_end_def pb_inv_def pb_list_def available_read_def)

lemma write_byte_facts:
  assumes "pb_inv b" "available_read b < 32"
  shows "pb_inv (write_byte x b)" "available_read (write_byte x b) = Suc (available_read b)"
    "pb_list (write_byte x b) = pb_list b @ [x]"
proof -
  show "pb_inv (write_byte x b)"
    using assms by (auto simp: pb_inv_def write_byte_def Let_def RING_BUFFER_SIZE_def)
  show av: "available_read (write_byte x b) = Suc (available_read b)"
    using assms
    by (cases "pb_status b")
      (auto simp: pb_inv_def write_byte_def Let_def RING_BUFFER_SIZE_def available_read_def mod_if)
  have arr: "pb_arr (write_byte x b) = (pb_arr b)[pb_tail b := x]" "pb_head (write_byte x b) = pb_head b"
    by (auto simp: write_byte_def Let_def)
  have len: "length (pb_arr b) = 32" using assms(1) by (simp add: pb_inv_def)
  have "ring_window ((pb_arr b)[pb_tail b := x]) (pb_head b) (Suc (available_read b)) = pb_list b @ [x]"
    using ring_window_append [of "available_read b" "pb_arr b" "pb_head b" x] assms(2)
    unfolding pb_list_def pb_tail_eq [OF assms(1)] len by simp
  then show "pb_list (write_byte x b) = pb_list b @ [x]"
    unfolding pb_list_def [of "write_byte x b"] av arr .
qed

lemma read_byte_facts:
  assumes "pb_inv b" "0 < available_read b"
  shows "pb_inv (snd (read_byte b))" "available_read (snd (read_byte b)) = available_read b - 1"
    "pb_list b = fst (read_byte b) # pb_list (snd (read_byte b))"
proof -
  show "pb_inv (snd (read_byte b))"
    using assms by (auto simp: pb_inv_def read_byte_def Let_def RING_BUFFER_SIZE_def)
  show av: "available_read (snd (read_byte b)) = available_read b - 1"
    using assms
    by (cases "pb_status b")
      (auto simp: pb_inv_def read_byte_def Let_def RING_BUFFER_SIZE_def available_read_def mod_if)
  have arr: "pb_arr (snd (read_byte b)) = pb_arr b" "fst (read_byte b) = pb_arr b ! pb_head b"
    "pb_head (snd (read_byte b)) = Suc (pb_head b) mod 32"
    by (auto simp: read_byte_def Let_def RING_BUFFER_SIZE_def)
  have "length (pb_arr b) = 32" "pb_head b < 32" using assms(1) by (simp_all add: pb_inv_def)
  then have "ring_window (pb_arr b) (pb_head b) (Suc (available_read b - 1))
      = pb_arr b ! pb_head b # ring_window (pb_arr b) (Suc (pb_head b) mod 32) (available_read b - 1)"
    using ring_window_Cons [of "pb_arr b" "pb_head b" "available_read b - 1"] by simp
  then show "pb_list b = fst (read_byte b) # pb_list (snd (read_byte b))"
    using assms(2) unfolding pb_list_def av arr by simp
qed

text \<open>
  The contract of a bounded first-in first-out buffer. The client-side fact is about any
  interleaving of producers and consumers, each of which only acts when it may.
\<close>

datatype 'a fifo_op = Put 'a | Get

fun fifo_run :: "nat \<Rightarrow> ('a \<Rightarrow> 'q \<Rightarrow> 'q) \<Rightarrow> ('q \<Rightarrow> 'a \<times> 'q) \<Rightarrow> ('q \<Rightarrow> nat)
    \<Rightarrow> 'a fifo_op list \<Rightarrow> 'q \<Rightarrow> 'a list \<times> 'a list \<times> 'q" where
  "fifo_run cap put get len [] q = ([], [], q)"
| "fifo_run cap put get len (Put x # ops) q =
     (if len q < cap
      then let (ins, outs, q') = fifo_run cap put get len ops (put x q) in (x # ins, outs, q')
      else fifo_run cap put get len ops q)"
| "fifo_run cap put get len (Get # ops) q =
     (if 0 < len q
      then let (y, q1) = get q; (ins, outs, q') = fifo_run cap put get len ops q1
           in (ins, y # outs, q')
      else fifo_run cap put get len ops q)"

locale bounded_fifo =
  fixes put :: "'a \<Rightarrow> 'q \<Rightarrow> 'q"
    and get :: "'q \<Rightarrow> 'a \<times> 'q"
    and items :: "'q \<Rightarrow> 'a list"
    and ok :: "'q \<Rightarrow> bool"
    and cap :: nat
  assumes put_ok: "ok q \<Longrightarrow> length (items q) < cap \<Longrightarrow> ok (put x q)"
    and put_items: "ok q \<Longrightarrow> length (items q) < cap \<Longrightarrow> items (put x q) = items q @ [x]"
    and get_ok: "ok q \<Longrightarrow> items q \<noteq> [] \<Longrightarrow> ok (snd (get q))"
    and get_items: "ok q \<Longrightarrow> items q \<noteq> [] \<Longrightarrow> items q = fst (get q) # items (snd (get q))"
    and bounded: "ok q \<Longrightarrow> length (items q) \<le> cap"
begin

lemma fifo_run_conserves:
  "ok q \<Longrightarrow> fifo_run cap put get (\<lambda>q. length (items q)) ops q = (ins, outs, q') \<Longrightarrow>
     ok q' \<and> outs @ items q' = items q @ ins"
proof (induction ops arbitrary: q ins outs)
  case (Cons op ops)
  show ?case
  proof (cases op)
    case (Put x)
    show ?thesis
    proof (cases "length (items q) < cap")
      case True
      then obtain ins' where rec: "fifo_run cap put get (\<lambda>q. length (items q)) ops (put x q) = (ins', outs, q')"
        and ins: "ins = x # ins'"
        using Cons.prems Put by (auto split: prod.splits)
      have "ok q' \<and> outs @ items q' = items (put x q) @ ins'"
        using Cons.IH [OF _ rec] put_ok [OF Cons.prems(1) True] by blast
      with ins put_items [OF Cons.prems(1) True] show ?thesis by simp
    qed (use Cons Put in auto)
  next
    case Get
    show ?thesis
    proof (cases "items q = []")
      case False
      then obtain outs' where rec: "fifo_run cap put get (\<lambda>q. length (items q)) ops (snd (get q)) = (ins, outs', q')"
        and outs: "outs = fst (get q) # outs'"
        using Cons.prems Get by (auto split: prod.splits)
      have "ok q' \<and> outs' @ items q' = items (snd (get q)) @ ins"
        using Cons.IH [OF _ rec] get_ok [OF Cons.prems(1) False] by blast
      with outs get_items [OF Cons.prems(1) False] show ?thesis by simp
    qed (use Cons Get in auto)
  qed
qed simp

end

interpretation ring_fifo: bounded_fifo write_byte read_byte pb_list pb_inv 32
proof (unfold_locales, goal_cases)
  case (1 q x)
  then show ?case by (simp add: write_byte_facts(1))
next
  case (2 q x)
  then show ?case by (simp add: write_byte_facts(3))
next
  case (3 q)
  then show ?case by (intro read_byte_facts(1)) (simp_all add: available_read_pos)
next
  case (4 q)
  then show ?case by (intro read_byte_facts(3)) (simp_all add: available_read_pos)
next
  case (5 q)
  then show ?case by (simp add: available_read_le)
qed

lemma available_read_length: "(\<lambda>b. length (pb_list b)) = available_read"
  by (rule ext) simp

text \<open>
  C19: the ring buffer is a first-in first-out queue of at most 32 bytes: for every
  interleaving of byte writes (done only when there is room) and byte reads (done only when
  there is data) on a fresh pipe, the bytes read followed by the bytes still in the buffer
  are exactly the bytes written, in order, and at most 32 bytes are in the buffer.
\<close>

theorem pipe_fifo:
  assumes "fifo_run 32 write_byte read_byte available_read ops pb_new = (ins, outs, b)"
  shows "outs @ pb_list b = ins \<and> available_read b \<le> 32"
proof -
  have "pb_inv b \<and> outs @ pb_list b = pb_list pb_new @ ins"
    using ring_fifo.fifo_run_conserves [OF pb_inv_new(1), of ops ins outs b] assms
    by (simp only: available_read_length)
  then show ?thesis by (simp add: pb_inv_new available_read_le)
qed

theorem pipe_fifo_witness:
  "\<exists>b. fifo_run 32 write_byte read_byte available_read [Put 7, Put 9, Get] pb_new = ([7, 9], [7], b)
     \<and> [7] @ pb_list b = [7, 9]"
proof -
  have "fst (fifo_run 32 write_byte read_byte available_read [Put 7, Put 9, Get] pb_new) = [7, 9]
    \<and> fst (snd (fifo_run 32 write_byte read_byte available_read [Put 7, Put 9, Get] pb_new)) = [7]"
    by (simp add: pb_new_def write_byte_def read_byte_def available_read_def Let_def
        RING_BUFFER_SIZE_def)
  then obtain b where run:
      "fifo_run 32 write_byte read_byte available_read [Put 7, Put 9, Get] pb_new = ([7, 9], [7], b)"
    by (metis prod.collapse)
  from run pipe_fifo [OF run] show ?thesis by blast
qed

section \<open>Activations\<close>

lemma read_bytes_facts:
  assumes "pb_inv b" "n \<le> available_read b" "length got \<le> want"
    and "read_bytes n b want got = (b', got', ret)"
  shows "pb_inv b' \<and> got' @ pb_list b' = got @ pb_list b
       \<and> length got' = length got + min n (want - length got)
       \<and> (ret \<longleftrightarrow> 0 < n \<and> want \<le> length got + n)"
  using assms
proof (induction n b want got rule: read_bytes.induct)
  case (2 n b want got)
  show ?case
  proof (cases "length got < want")
    case True
    obtain c b1 where rb: "read_byte b = (c, b1)" by fastforce
    have f: "pb_inv b1" "available_read b1 = available_read b - 1" "pb_list b = c # pb_list b1"
      using read_byte_facts [of b] "2.prems" rb by auto
    show ?thesis
    proof (cases "Suc (length got) = want")
      case full: True
      then show ?thesis using "2.prems"(4) True rb f by auto
    next
      case more: False
      then have "read_bytes n b1 want (got @ [c]) = (b', got', ret)"
        using "2.prems"(4) True rb by simp
      moreover have "n \<le> available_read b1" using f "2.prems"(2) by simp
      ultimately have "pb_inv b' \<and> got' @ pb_list b' = (got @ [c]) @ pb_list b1
         \<and> length got' = length (got @ [c]) + min n (want - length (got @ [c]))
         \<and> (ret \<longleftrightarrow> 0 < n \<and> want \<le> length (got @ [c]) + n)"
        using "2.IH" [OF True rb [symmetric] refl] more True f by simp
      with f more True show ?thesis by auto
    qed
  next
    case False
    then show ?thesis using "2.prems" by auto
  qed
qed auto

lemma read_activation_facts:
  assumes "pb_inv b" "length got \<le> want"
  obtains b' got' out where "read_activation closed b want got = Some (b', got', out)"
    and "pb_inv b'" and "got' @ pb_list b' = got @ pb_list b"
    and "length got \<le> length got'" and "length got' \<le> want"
    and "out = (if closed \<or> length got' = want \<and> pb_list b \<noteq> [] then Returned (length got') else Suspended)"
    and "length got' = want \<or> pb_list b' = []"
proof -
  let ?n = "available_read b"
  obtain b1 got1 ret where rb: "read_bytes ?n b want got = (b1, got1, ret)" by (metis prod_cases3)
  note f = read_bytes_facts [OF assms(1) order_refl assms(2) rb]
  show thesis
  proof (cases "?n = 0")
    case True
    then have "pb_list b = []" using available_read_pos [of b] by simp
    with True assms show thesis
      by (intro that [of b got]) (simp_all add: read_activation.simps)
  next
    case False
    then have ne: "pb_list b \<noteq> []" using available_read_pos [of b] by simp
    show thesis
    proof (cases ret)
      case True
      with False rb f have "read_activation closed b want got = Some (b1, got1, Returned (length got1))"
        "length got1 = want"
        using assms(2) by (auto simp: read_activation.simps [of closed b] min_def)
      with f ne assms(2) show thesis by (intro that [of b1 got1]) auto
    next
      case ret: False
      with f False have lt: "length got + ?n < want" by auto
      with f have l1: "length got1 = length got + ?n" by simp
      have "length got1 + length (pb_list b1) = length got + length (pb_list b)"
        using f by (metis length_append)
      with l1 have "available_read b1 = 0" by simp
      moreover from this have "pb_list b1 = []" using available_read_pos [of b1] by simp
      ultimately show thesis
        using ret False rb f l1 lt ne
        by (intro that [of b1 got1])
          (auto simp: read_activation.simps [of closed b] read_activation.simps [of closed b1])
    qed
  qed
qed

lemma write_bytes_facts:
  assumes "pb_inv b" "available_read b + n \<le> 32" "write_bytes n b rest = (b', rest', ret)"
  shows "pb_inv b' \<and> pb_list b' @ rest' = pb_list b @ rest
       \<and> length rest' = length rest - n \<and> (ret \<longleftrightarrow> 0 < n \<and> length rest \<le> n)"
  using assms
proof (induction n b rest rule: write_bytes.induct)
  case (3 n b x rest)
  have f: "pb_inv (write_byte x b)" "available_read (write_byte x b) = Suc (available_read b)"
    "pb_list (write_byte x b) = pb_list b @ [x]"
    using write_byte_facts [of b x] "3.prems" by auto
  show ?case
  proof (cases "rest = []")
    case False
    then have "write_bytes n (write_byte x b) rest = (b', rest', ret)"
      using "3.prems"(3) by (simp add: Let_def)
    then have "pb_inv b' \<and> pb_list b' @ rest' = pb_list (write_byte x b) @ rest
       \<and> length rest' = length rest - n \<and> (ret \<longleftrightarrow> 0 < n \<and> length rest \<le> n)"
      using "3.IH" [OF refl False] f "3.prems"(2) by simp
    with f False show ?thesis by auto
  qed (use "3.prems" f in \<open>auto simp: Let_def\<close>)
qed auto

lemma write_activation_facts:
  assumes "pb_inv b"
  obtains b' rest' out where "write_activation b want rest = Some (b', rest', out)"
    and "pb_inv b'" and "pb_list b' @ rest' = pb_list b @ rest"
    and "out = (if rest' = [] \<and> available_read b < 32 then Returned want else Suspended)"
    and "rest' = [] \<or> available_read b' = 32" and "length rest' \<le> length rest"
proof -
  let ?n = "available_write b"
  have n: "?n = 32 - available_read b" "available_read b \<le> 32"
    using assms by (simp_all add: available_write_eq available_read_le)
  obtain b1 rest1 ret where wb: "write_bytes ?n b rest = (b1, rest1, ret)" by (metis prod_cases3)
  have "available_read b + ?n \<le> 32" using n by simp
  note f = write_bytes_facts [OF assms this wb]
  show thesis
  proof (cases "?n = 0")
    case True
    with n assms show thesis
      by (intro that [of b rest]) (simp_all add: write_activation.simps [of b])
  next
    case False
    show thesis
    proof (cases ret)
      case True
      with False wb f n show thesis
        by (intro that [of b1 rest1]) (auto simp: write_activation.simps [of b])
    next
      case ret: False
      with f False have lt: "?n < length rest" by auto
      have "length (pb_list b1) + length rest1 = length (pb_list b) + length rest"
        using f by (metis length_append)
      with f lt n have full: "available_read b1 = 32" by simp
      with f have "available_write b1 = 0" by (simp add: available_write_eq)
      moreover have "rest1 \<noteq> []" using f lt by auto
      ultimately show thesis
        using ret False wb f full
        by (intro that [of b1 rest1])
          (auto simp: write_activation.simps [of b] write_activation.simps [of b1])
    qed
  qed
qed

text \<open>
  C20: an activation of the read loop always ends. It never loses or duplicates a byte (what
  it has delivered followed by what is left in the buffer is what was delivered before
  followed by what was in the buffer), never delivers more than was asked for, and a read
  that returns fewer bytes than asked for has seen the end of the stream: the buffer is
  empty and every write end is closed.
\<close>

theorem pipe_read_activation:
  assumes "pb_inv b" "length got \<le> want"
  shows "\<exists>b' got' out. read_activation closed b want got = Some (b', got', out)
       \<and> pb_inv b' \<and> got' @ pb_list b' = got @ pb_list b \<and> length got' \<le> want
       \<and> (\<forall>n. out = Returned n \<longrightarrow> n = length got' \<and> (n < want \<longrightarrow> closed \<and> pb_list b' = []))
       \<and> (out = Suspended \<longrightarrow> \<not> closed \<and> pb_list b' = [])"
  by (rule read_activation_facts [OF assms, of closed])
    (use assms in \<open>auto simp: available_read_0_iff split: if_splits\<close>)

theorem pipe_read_activation_witness:
  "\<exists>b' got' out. read_activation False (write_byte 5 pb_new) 3 [] = Some (b', got', out)
     \<and> got' @ pb_list b' = [5] \<and> length got' \<le> 3 \<and> (out = Suspended \<longrightarrow> pb_list b' = [])"
proof -
  have "available_read pb_new < 32" by (simp add: available_read_def pb_new_def)
  then have b: "pb_inv (write_byte 5 pb_new)" "pb_list (write_byte 5 pb_new) = [5]"
    using write_byte_facts [OF pb_inv_new(1)] pb_inv_new(2) by simp_all
  show ?thesis using pipe_read_activation [OF b(1), of "[]" 3 False] b(2) by auto
qed

text \<open>
  C21: an activation of the write loop always ends, appends a prefix of the bytes it still
  has to write to the buffer contents without losing or reordering any, returns the full
  requested count only when every byte is in the buffer, and otherwise suspends with the
  buffer full.
\<close>

theorem pipe_write_activation:
  assumes "pb_inv b"
  shows "\<exists>b' rest' out. write_activation b want rest = Some (b', rest', out)
       \<and> pb_inv b' \<and> pb_list b' @ rest' = pb_list b @ rest
       \<and> (\<forall>n. out = Returned n \<longrightarrow> n = want \<and> rest' = [])
       \<and> (out = Suspended \<longrightarrow> available_read b' = 32)"
proof -
  obtain b' rest' out where w: "write_activation b want rest = Some (b', rest', out)"
    and f: "pb_inv b'" "pb_list b' @ rest' = pb_list b @ rest"
      "out = (if rest' = [] \<and> available_read b < 32 then Returned want else Suspended)"
      "rest' = [] \<or> available_read b' = 32" "length rest' \<le> length rest"
    by (rule write_activation_facts [OF assms])
  have "available_read b' = 32" if "out = Suspended"
  proof (cases "rest' = []")
    case True
    then have "32 \<le> available_read b" using that f(3) by (simp split: if_splits)
    moreover have "available_read b' = available_read b + length rest"
      using arg_cong [OF f(2), of length] True by simp
    ultimately show ?thesis using available_read_le [OF f(1)] by simp
  qed (use f(4) in simp)
  with w f show ?thesis by (auto split: if_splits)
qed

theorem pipe_write_activation_witness:
  "\<exists>b' rest' out. write_activation pb_new 2 [4, 6] = Some (b', rest', out) \<and> pb_list b' @ rest' = [4, 6]"
  using pipe_write_activation [OF pb_inv_new(1), of 2 "[4, 6]"] pb_inv_new(2) by auto

section \<open>Interleaved readers and writers\<close>

text \<open>
  A pipe with the ghost record of every byte ever written to it and read from it. A step is
  one activation of some process that reads or writes; any number of processes may share
  the two ends.
\<close>

record pipe_sys =
  ps_buf :: PipeRingBuffer
  ps_written :: "u8 list"
  ps_read :: "u8 list"

definition pipe_sys_init :: pipe_sys where
  "pipe_sys_init = \<lparr>ps_buf = pb_new, ps_written = [], ps_read = []\<rparr>"

inductive pipe_step :: "pipe_sys \<Rightarrow> pipe_sys \<Rightarrow> bool" where
  write_step: "write_activation (ps_buf s) want rest = Some (b', rest', out) \<Longrightarrow>
     pipe_step s (s\<lparr>ps_buf := b', ps_written := ps_written s @ take (length rest - length rest') rest\<rparr>)"
| read_step: "length got \<le> want \<Longrightarrow> read_activation closed (ps_buf s) want got = Some (b', got', out) \<Longrightarrow>
     pipe_step s (s\<lparr>ps_buf := b', ps_read := ps_read s @ drop (length got) got'\<rparr>)"

inductive_cases pipe_stepE: "pipe_step s t"

definition pipe_conserved :: "pipe_sys \<Rightarrow> bool" where
  "pipe_conserved s \<longleftrightarrow> pb_inv (ps_buf s) \<and> ps_read s @ pb_list (ps_buf s) = ps_written s"

lemma append_eq_prefix_split:
  assumes "xs @ rest' = ys @ rest" "length rest' \<le> length rest"
  shows "xs = ys @ take (length rest - length rest') rest"
proof -
  have "length xs = length ys + (length rest - length rest')"
    using arg_cong [OF assms(1), of length] assms(2) by simp
  then have "xs = take (length ys + (length rest - length rest')) (ys @ rest)"
    using assms(1) by (metis append_eq_conv_conj)
  then show ?thesis by simp
qed

lemma pipe_step_conserved: "pipe_step s t \<Longrightarrow> pipe_conserved s \<Longrightarrow> pipe_conserved t"
proof (erule pipe_stepE)
  fix want rest b' rest' out
  assume inv: "pipe_conserved s"
    and w: "write_activation (ps_buf s) want rest = Some (b', rest', out)"
    and t: "t = s\<lparr>ps_buf := b', ps_written := ps_written s @ take (length rest - length rest') rest\<rparr>"
  have "pb_inv (ps_buf s)" using inv by (simp add: pipe_conserved_def)
  then have f: "pb_inv b'" "pb_list b' @ rest' = pb_list (ps_buf s) @ rest" "length rest' \<le> length rest"
    using write_activation_facts [of "ps_buf s" want rest] w by (metis option.inject prod.inject)+
  have "pb_list b' = pb_list (ps_buf s) @ take (length rest - length rest') rest"
    by (rule append_eq_prefix_split [OF f(2,3)])
  with inv f(1) t show "pipe_conserved t" by (simp add: pipe_conserved_def flip: append_assoc)
next
  fix got want closed b' got' out
  assume inv: "pipe_conserved s" and le: "length got \<le> want"
    and r: "read_activation closed (ps_buf s) want got = Some (b', got', out)"
    and t: "t = s\<lparr>ps_buf := b', ps_read := ps_read s @ drop (length got) got'\<rparr>"
  have "pb_inv (ps_buf s)" using inv by (simp add: pipe_conserved_def)
  then have f: "pb_inv b'" "got' @ pb_list b' = got @ pb_list (ps_buf s)" "length got \<le> length got'"
    using read_activation_facts [of "ps_buf s" got want closed] le r by (metis option.inject prod.inject)+
  have "drop (length got) got' @ pb_list b' = pb_list (ps_buf s)"
    using arg_cong [OF f(2), of "drop (length got)"] f(3) by simp
  with inv f(1) t show "pipe_conserved t" by (simp add: pipe_conserved_def)
qed

text \<open>
  C22: under every interleaving of blocking reads and writes of any number of processes, the
  bytes read from a pipe are a prefix of the bytes written to it, and exactly the at most
  32 bytes in between are in its buffer.
\<close>

theorem pipe_interleaving_safe:
  assumes "pipe_step\<^sup>*\<^sup>* pipe_sys_init s"
  shows "ps_read s @ pb_list (ps_buf s) = ps_written s
       \<and> length (ps_written s) - length (ps_read s) \<le> 32"
proof -
  have "pipe_conserved s"
    using assms
  proof (induction rule: rtranclp_induct)
    case base
    then show ?case by (simp add: pipe_conserved_def pipe_sys_init_def pb_inv_new)
  next
    case (step s t)
    then show ?case using pipe_step_conserved by blast
  qed
  then have "pb_inv (ps_buf s)" "ps_read s @ pb_list (ps_buf s) = ps_written s"
    by (simp_all add: pipe_conserved_def)
  then show ?thesis using available_read_le [of "ps_buf s"] by (simp add: flip: length_append) (metis add_diff_cancel_left' length_append length_pb_list)
qed

theorem pipe_interleaving_safe_witness:
  "\<exists>s. pipe_step\<^sup>*\<^sup>* pipe_sys_init s \<and> ps_written s = [4, 6]
     \<and> ps_read s @ pb_list (ps_buf s) = [4, 6]"
proof -
  obtain b' rest' out where w: "write_activation (ps_buf pipe_sys_init) 2 [4, 6] = Some (b', rest', out)"
    and f: "pb_list b' @ rest' = [4, 6]" "rest' = [] \<or> available_read b' = 32"
    by (rule write_activation_facts [OF pb_inv_new(1), of 2 "[4, 6]"])
      (simp add: pipe_sys_init_def pb_inv_new(2))
  have "rest' = []"
    using f(2) arg_cong [OF f(1), of length] by auto
  let ?s = "pipe_sys_init\<lparr>ps_buf := b', ps_written := [4, 6]\<rparr>"
  have "pipe_step pipe_sys_init ?s"
    using pipe_step.write_step [OF w] \<open>rest' = []\<close> by (simp add: pipe_sys_init_def)
  then have "pipe_step\<^sup>*\<^sup>* pipe_sys_init ?s" by blast
  from this pipe_interleaving_safe [OF this] show ?thesis by (intro exI [of _ ?s]) simp
qed

end
