(* ===== verification/Quota.thy ===== *)
theory Quota
  imports Security_Api
begin

text \<open>
  Per-process resource accounting (os/src/security/quota.rs): two counters and a bitmap of
  the descriptors that are pipe endpoints. Every operation takes the state and returns the
  new one next to its result, also on its error paths, so that "on failure the state is
  left unchanged" is a theorem. The abstract view of a state is the set of open descriptors
  and its subset of pipe endpoints (\<open>quota_repr\<close>); each operation is shown to refine the
  corresponding set operation.
\<close>

section \<open>State and operations\<close>

definition MAX_OPEN_FILES :: usize where
  "MAX_OPEN_FILES = 32"

definition MAX_OPEN_PIPE_FDS :: usize where
  "MAX_OPEN_PIPE_FDS = 16"

definition PIPE_ENDPOINTS_PER_PIPE :: usize where
  "PIPE_ENDPOINTS_PER_PIPE = 2"

record QuotaState =
  open_files :: usize
  open_pipes :: usize
  pipe_fd_mask :: u64

definition quota_initial :: QuotaState where
  "quota_initial = \<lparr>open_files = 3, open_pipes = 0, pipe_fd_mask = 0\<rparr>"

definition quota_fork_from :: "QuotaState \<Rightarrow> QuotaState" where
  "quota_fork_from parent = parent"

definition reserve_files :: "usize \<Rightarrow> QuotaState \<Rightarrow> unit IpcResult \<times> QuotaState" where
  "reserve_files amount q =
     (case checked_add (open_files q) amount of
        None \<Rightarrow> (Inl TooManyFiles, q)
      | Some next \<Rightarrow>
          if MAX_OPEN_FILES < next then (Inl TooManyFiles, q)
          else (Inr (), q\<lparr>open_files := next\<rparr>))"

definition release_files :: "usize \<Rightarrow> QuotaState \<Rightarrow> QuotaState" where
  "release_files amount q = q\<lparr>open_files := saturating_sub (open_files q) amount\<rparr>"

definition reserve_pipe_fds :: "usize \<Rightarrow> QuotaState \<Rightarrow> unit IpcResult \<times> QuotaState" where
  "reserve_pipe_fds amount q =
     (case checked_add (open_files q) amount of
        None \<Rightarrow> (Inl TooManyFiles, q)
      | Some next_files \<Rightarrow>
          if MAX_OPEN_FILES < next_files then (Inl TooManyFiles, q)
          else (case checked_add (open_pipes q) amount of
                  None \<Rightarrow> (Inl ResourceExhausted, q)
                | Some next_pipes \<Rightarrow>
                    if MAX_OPEN_PIPE_FDS < next_pipes then (Inl ResourceExhausted, q)
                    else (Inr (), q\<lparr>open_files := next_files, open_pipes := next_pipes\<rparr>)))"

definition release_pipe_fds :: "usize \<Rightarrow> QuotaState \<Rightarrow> QuotaState" where
  "release_pipe_fds amount q =
     q\<lparr>open_files := saturating_sub (open_files q) amount,
       open_pipes := saturating_sub (open_pipes q) amount\<rparr>"

definition register_pipe_fd :: "usize \<Rightarrow> QuotaState \<Rightarrow> QuotaState" where
  "register_pipe_fd fd q =
     (if fd < 64 then q\<lparr>pipe_fd_mask := pipe_fd_mask q OR push_bit (unat fd) 1\<rparr> else q)"

definition is_pipe_fd :: "QuotaState \<Rightarrow> usize \<Rightarrow> bool" where
  "is_pipe_fd q fd = (if 64 \<le> fd then False else pipe_fd_mask q AND push_bit (unat fd) 1 \<noteq> 0)"

definition quota_reserve_dup_fd :: "usize \<Rightarrow> QuotaState \<Rightarrow> bool IpcResult \<times> QuotaState" where
  "quota_reserve_dup_fd source_fd q =
     (let is_pipe = is_pipe_fd q source_fd in
      case (if is_pipe then reserve_pipe_fds 1 q else reserve_files 1 q) of
        (Inl e, q') \<Rightarrow> (Inl e, q')
      | (Inr _, q') \<Rightarrow> (Inr is_pipe, q'))"

definition unregister_pipe_fd :: "usize \<Rightarrow> QuotaState \<Rightarrow> QuotaState" where
  "unregister_pipe_fd fd q =
     (if fd < 64 then q\<lparr>pipe_fd_mask := pipe_fd_mask q AND NOT (push_bit (unat fd) 1)\<rparr> else q)"

definition quota_release_fd :: "usize \<Rightarrow> QuotaState \<Rightarrow> QuotaState" where
  "quota_release_fd fd q =
     (let was_pipe = is_pipe_fd q fd;
          q1 = (if fd < 64 then q\<lparr>pipe_fd_mask := pipe_fd_mask q AND NOT (push_bit (unat fd) 1)\<rparr> else q);
          q2 = q1\<lparr>open_files := saturating_sub (open_files q1) 1\<rparr>
      in if was_pipe then q2\<lparr>open_pipes := saturating_sub (open_pipes q2) 1\<rparr> else q2)"

datatype QuotaReservationKind = QR_None | QR_PipeFds

record QuotaReservation =
  res_kind :: QuotaReservationKind
  res_amount :: usize

definition quota_reserve :: "QuotaState \<Rightarrow> IpcRequest \<Rightarrow> QuotaReservation IpcResult \<times> QuotaState" where
  "quota_reserve q request =
     (case req_operation request of
        PipeCreate \<Rightarrow>
          (case reserve_pipe_fds PIPE_ENDPOINTS_PER_PIPE q of
             (Inl e, q') \<Rightarrow> (Inl e, q')
           | (Inr _, q') \<Rightarrow> (Inr \<lparr>res_kind = QR_PipeFds, res_amount = PIPE_ENDPOINTS_PER_PIPE\<rparr>, q'))
      | _ \<Rightarrow> (Inr \<lparr>res_kind = QR_None, res_amount = 0\<rparr>, q))"

definition quota_finish :: "QuotaState \<Rightarrow> QuotaReservation \<Rightarrow> bool \<Rightarrow> QuotaState" where
  "quota_finish q reservation success =
     (if success then q
      else (case res_kind reservation of
              QR_None \<Rightarrow> q
            | QR_PipeFds \<Rightarrow> release_pipe_fds (res_amount reservation) q))"

lemmas quota_consts [model_defs] =
  MAX_OPEN_FILES_def MAX_OPEN_PIPE_FDS_def PIPE_ENDPOINTS_PER_PIPE_def

section \<open>The bitmap as a set of descriptors\<close>

lemma and_pow2_iff: "(m :: u64) AND 2 ^ i \<noteq> 0 \<longleftrightarrow> bit m i"
  using and_exp_eq_0_iff_not_bit [of m i] by simp

lemma is_pipe_fd_iff: "is_pipe_fd q fd \<longleftrightarrow> bit (pipe_fd_mask q) (unat fd)"
proof (cases "64 \<le> fd")
  case True
  then have "64 \<le> unat fd" by (simp add: word_le_nat_alt)
  then have "\<not> bit (pipe_fd_mask q) (unat fd)"
    using bit_imp_le_length [of "pipe_fd_mask q" "unat fd"] by auto
  with True show ?thesis by (simp add: is_pipe_fd_def)
qed (simp add: is_pipe_fd_def and_pow2_iff)

lemma bit_register:
  "unat fd < 64 \<Longrightarrow> bit (pipe_fd_mask (register_pipe_fd fd q)) i \<longleftrightarrow> bit (pipe_fd_mask q) i \<or> i = unat fd"
  by (auto simp: register_pipe_fd_def word_less_nat_alt bit_or_iff bit_exp_iff)

lemma bit_mask_clear:
  "bit ((m :: u64) AND NOT (2 ^ k)) i \<longleftrightarrow> bit m i \<and> i \<noteq> k"
  by (auto simp: bit_and_iff bit_not_iff bit_exp_iff dest: bit_imp_le_length)

text \<open>C14: a descriptor number below 64 reads back as a pipe endpoint after it is registered,
  every other descriptor keeps its status, and unregistering it removes exactly it.\<close>

theorem pipe_mask_roundtrip:
  assumes "fd < 64"
  shows "(is_pipe_fd (register_pipe_fd fd q) fd' \<longleftrightarrow> fd' = fd \<or> is_pipe_fd q fd')
       \<and> (is_pipe_fd (unregister_pipe_fd fd q) fd' \<longleftrightarrow> fd' \<noteq> fd \<and> is_pipe_fd q fd')"
proof -
  have "unat fd < 64" using assms by (simp add: word_less_nat_alt)
  then have "is_pipe_fd (register_pipe_fd fd q) fd' \<longleftrightarrow> fd' = fd \<or> is_pipe_fd q fd'"
    by (auto simp: is_pipe_fd_iff bit_register word_unat_eq_iff)
  moreover have "is_pipe_fd (unregister_pipe_fd fd q) fd' \<longleftrightarrow> fd' \<noteq> fd \<and> is_pipe_fd q fd'"
    using assms by (auto simp: is_pipe_fd_iff unregister_pipe_fd_def bit_mask_clear word_unat_eq_iff)
  ultimately show ?thesis by blast
qed

theorem pipe_mask_roundtrip_witness:
  "(5 :: usize) < 64 \<and> is_pipe_fd (register_pipe_fd 5 quota_initial) 5
     \<and> \<not> is_pipe_fd (unregister_pipe_fd 5 (register_pipe_fd 5 quota_initial)) 5"
  using pipe_mask_roundtrip [of 5 quota_initial 5]
    pipe_mask_roundtrip [of 5 "register_pipe_fd 5 quota_initial" 5] by simp

section \<open>Abstract view: sets of open descriptors\<close>

text \<open>
  \<open>F\<close> is the set of open descriptors, \<open>P\<close> its subset of registered pipe endpoints, \<open>rf\<close>
  the number of descriptors that are charged but not installed yet, and \<open>rp\<close> the number of
  endpoints that are charged but not registered yet.
\<close>

definition quota_repr :: "QuotaState \<Rightarrow> nat set \<Rightarrow> nat set \<Rightarrow> nat \<Rightarrow> nat \<Rightarrow> bool" where
  "quota_repr q F P rf rp \<longleftrightarrow>
     F \<subseteq> {..<32} \<and> P \<subseteq> F
     \<and> unat (open_files q) = card F + rf \<and> unat (open_pipes q) = card P + rp
     \<and> card F + rf \<le> 32 \<and> card P + rp \<le> 16
     \<and> (\<forall>i. bit (pipe_fd_mask q) i \<longleftrightarrow> i \<in> P)"

lemma quota_reprD:
  assumes "quota_repr q F P rf rp"
  shows "F \<subseteq> {..<32}" "P \<subseteq> F" "finite F" "finite P"
    "unat (open_files q) = card F + rf" "unat (open_pipes q) = card P + rp"
    "card F + rf \<le> 32" "card P + rp \<le> 16" "\<And>i. bit (pipe_fd_mask q) i \<longleftrightarrow> i \<in> P"
proof -
  show F: "F \<subseteq> {..<32}" and P: "P \<subseteq> F" using assms by (simp_all add: quota_repr_def)
  show fin: "finite F" by (rule finite_subset [OF F]) simp
  show "finite P" by (rule finite_subset [OF P fin])
qed (use assms in \<open>simp_all add: quota_repr_def\<close>)

lemma quota_repr_initial: "quota_repr quota_initial {0, 1, 2} {} 0 0"
  by (auto simp: quota_repr_def quota_initial_def)

lemma quota_repr_is_pipe: "quota_repr q F P rf rp \<Longrightarrow> is_pipe_fd q fd \<longleftrightarrow> unat fd \<in> P"
  by (simp add: is_pipe_fd_iff quota_reprD)

lemma unat_quota_consts [simp]:
  "unat MAX_OPEN_FILES = 32" "unat MAX_OPEN_PIPE_FDS = 16" "unat PIPE_ENDPOINTS_PER_PIPE = 2"
  by (simp_all add: model_defs)

lemma reserve_files_cases:
  assumes "quota_repr q F P rf rp"
  shows "reserve_files n q =
     (if card F + rf + unat n \<le> 32 then (Inr (), q\<lparr>open_files := open_files q + n\<rparr>)
      else (Inl TooManyFiles, q))"
proof -
  have of: "unat (open_files q) = card F + rf" and le: "card F + rf \<le> 32"
    using assms by (simp_all add: quota_reprD)
  show ?thesis
  proof (cases "checked_add (open_files q) n")
    case None
    then have "2 ^ 64 \<le> card F + rf + unat n" by (simp add: checked_add_None_iff of)
    with None show ?thesis by (simp add: reserve_files_def)
  next
    case (Some c)
    then have c: "c = open_files q + n" by (auto simp: checked_add_def split: if_splits)
    have "unat c = card F + rf + unat n" using checked_add_SomeD [OF Some] by (simp add: of)
    with Some c show ?thesis
      by (simp add: reserve_files_def word_less_nat_alt not_less)
  qed
qed

lemma reserve_pipe_fds_cases:
  assumes "quota_repr q F P rf rp"
  shows "reserve_pipe_fds n q =
     (if 32 < card F + rf + unat n then (Inl TooManyFiles, q)
      else if 16 < card P + rp + unat n then (Inl ResourceExhausted, q)
      else (Inr (), q\<lparr>open_files := open_files q + n, open_pipes := open_pipes q + n\<rparr>))"
proof -
  have of: "unat (open_files q) = card F + rf" and op: "unat (open_pipes q) = card P + rp"
    using assms by (simp_all add: quota_reprD)
  show ?thesis
  proof (cases "card F + rf + unat n \<le> 32")
    case False
    then show ?thesis
      by (cases "checked_add (open_files q) n")
        (use checked_add_SomeD [of "open_files q" n] in
          \<open>auto simp: reserve_pipe_fds_def word_less_nat_alt of\<close>)
  next
    case True
    have f: "checked_add (open_files q) n = Some (open_files q + n)"
      "unat (open_files q + n) = card F + rf + unat n"
      using True unat_add_lem' [of "open_files q" n] by (simp_all add: checked_add_def of)
    show ?thesis
    proof (cases "checked_add (open_pipes q) n")
      case None
      then have "16 < card P + rp + unat n" by (simp add: checked_add_None_iff op)
      with None f True show ?thesis by (simp add: reserve_pipe_fds_def word_less_nat_alt)
    next
      case (Some c)
      then have c: "c = open_pipes q + n" by (auto simp: checked_add_def split: if_splits)
      have "unat c = card P + rp + unat n" using checked_add_SomeD [OF Some] by (simp add: op)
      with Some c f True show ?thesis by (simp add: reserve_pipe_fds_def word_less_nat_alt not_less)
    qed
  qed
qed

lemma quota_repr_charge_files:
  assumes "quota_repr q F P rf rp" "card F + rf + unat n \<le> 32"
  shows "quota_repr (q\<lparr>open_files := open_files q + n\<rparr>) F P (rf + unat n) rp"
proof -
  have "unat (open_files q + n) = card F + rf + unat n"
    using unat_add_lem' [of "open_files q" n] assms by (simp add: quota_reprD)
  with assms show ?thesis by (simp add: quota_repr_def)
qed

lemma quota_repr_charge_pipes:
  assumes "quota_repr q F P rf rp" "card F + rf + unat n \<le> 32" "card P + rp + unat n \<le> 16"
  shows "quota_repr (q\<lparr>open_files := open_files q + n, open_pipes := open_pipes q + n\<rparr>)
           F P (rf + unat n) (rp + unat n)"
proof -
  have "unat (open_files q + n) = card F + rf + unat n" "unat (open_pipes q + n) = card P + rp + unat n"
    using unat_add_lem' [of "open_files q" n] unat_add_lem' [of "open_pipes q" n] assms
    by (simp_all add: quota_reprD)
  with assms show ?thesis by (simp add: quota_repr_def)
qed

lemma quota_repr_rollback:
  assumes "quota_repr q F P (rf + unat n) (rp + unat n)"
  shows "quota_repr (release_pipe_fds n q) F P rf rp"
  using assms by (auto simp: quota_repr_def release_pipe_fds_def unat_saturating_sub)

lemma quota_repr_install:
  assumes "quota_repr q F P (Suc rf) rp" "i \<notin> F" "i < 32"
  shows "quota_repr q (insert i F) P rf rp"
  using assms quota_reprD(3) [OF assms(1)] by (auto simp: quota_repr_def)

lemma quota_repr_uninstall:
  assumes "quota_repr q F P rf rp" "i \<in> F" "i \<notin> P"
  shows "quota_repr q (F - {i}) P (Suc rf) rp"
  using assms quota_reprD(3) [OF assms(1)] card_Suc_Diff1 [of F i]
  by (auto simp: quota_repr_def)

lemma quota_repr_register:
  assumes "quota_repr q F P rf (Suc rp)" "unat fd \<in> F" "unat fd \<notin> P"
  shows "quota_repr (register_pipe_fd fd q) F (insert (unat fd) P) rf rp"
proof -
  have *: "unat fd < 32" using assms quota_reprD(1) by blast
  have "finite P" by (rule quota_reprD(4) [OF assms(1)])
  moreover have "open_files (register_pipe_fd fd q) = open_files q"
    "open_pipes (register_pipe_fd fd q) = open_pipes q"
    by (simp_all add: register_pipe_fd_def)
  ultimately show ?thesis
    using assms bit_register [of fd q] * by (auto simp: quota_repr_def)
qed

lemma quota_repr_release:
  assumes "quota_repr q F P rf rp" "unat fd \<in> F"
  shows "quota_repr (quota_release_fd fd q) (F - {unat fd}) (P - {unat fd}) rf rp"
proof -
  have fin: "finite F" "finite P" by (rule quota_reprD [OF assms(1)])+
  have lt: "fd < 64"
    using assms quota_reprD(1) [OF assms(1)] by (auto simp: word_less_nat_alt)
  have is_p: "is_pipe_fd q fd \<longleftrightarrow> unat fd \<in> P" by (rule quota_repr_is_pipe [OF assms(1)])
  have cF: "0 < card F" using fin(1) assms(2) by (auto simp: card_gt_0_iff)
  have cP: "unat fd \<in> P \<Longrightarrow> 0 < card P" using fin(2) by (auto simp: card_gt_0_iff)
  have q': "unat (open_files (quota_release_fd fd q)) = unat (open_files q) - 1"
    "unat (open_pipes (quota_release_fd fd q)) = unat (open_pipes q) - (if unat fd \<in> P then 1 else 0)"
    "\<And>i. bit (pipe_fd_mask (quota_release_fd fd q)) i \<longleftrightarrow> bit (pipe_fd_mask q) i \<and> i \<noteq> unat fd"
    using lt is_p by (auto simp: quota_release_fd_def Let_def unat_saturating_sub bit_mask_clear)
  show ?thesis
    using assms cF cP fin unfolding quota_repr_def q'
    by (auto simp: card_Diff_singleton)
qed

lemma quota_reserve_dup_fd_cases:
  assumes "quota_repr q F P rf rp"
  shows "quota_reserve_dup_fd fd q =
     (if unat fd \<in> P
      then (if 32 \<le> card F + rf then (Inl TooManyFiles, q)
            else if 16 \<le> card P + rp then (Inl ResourceExhausted, q)
            else (Inr True, q\<lparr>open_files := open_files q + 1, open_pipes := open_pipes q + 1\<rparr>))
      else (if 32 \<le> card F + rf then (Inl TooManyFiles, q)
            else (Inr False, q\<lparr>open_files := open_files q + 1\<rparr>)))"
  by (simp add: quota_reserve_dup_fd_def quota_repr_is_pipe [OF assms] reserve_files_cases [OF assms]
      reserve_pipe_fds_cases [OF assms] less_Suc_eq_le not_le Suc_le_eq)

text \<open>
  C13: a reservation succeeds exactly while the limits allow it. Ordinary descriptors are
  granted exactly up to 32 in all and refused with TooManyFiles beyond; pipe endpoints are
  granted exactly up to 32 descriptors and 16 endpoints, the first limit deciding the error;
  a duplicate counts as one of the kind of its source. A refusal leaves the state as it is, a
  grant charges exactly the amount, in a state that stays within both limits.
\<close>

theorem reservation_bounds:
  assumes "quota_repr q F P rf rp"
  shows "(if card F + rf + unat n \<le> 32
          then \<exists>q'. reserve_files n q = (Inr (), q') \<and> quota_repr q' F P (rf + unat n) rp
          else reserve_files n q = (Inl TooManyFiles, q))
       \<and> (if 32 < card F + rf + unat n then reserve_pipe_fds n q = (Inl TooManyFiles, q)
          else if 16 < card P + rp + unat n then reserve_pipe_fds n q = (Inl ResourceExhausted, q)
          else \<exists>q'. reserve_pipe_fds n q = (Inr (), q') \<and> quota_repr q' F P (rf + unat n) (rp + unat n))
       \<and> (if 32 \<le> card F + rf then quota_reserve_dup_fd fd q = (Inl TooManyFiles, q)
          else if unat fd \<in> P \<and> 16 \<le> card P + rp then quota_reserve_dup_fd fd q = (Inl ResourceExhausted, q)
          else \<exists>q'. quota_reserve_dup_fd fd q = (Inr (unat fd \<in> P), q')
             \<and> quota_repr q' F P (rf + 1) (if unat fd \<in> P then rp + 1 else rp))"
  using quota_repr_charge_files [OF assms, of n] quota_repr_charge_pipes [OF assms, of n]
    quota_repr_charge_files [OF assms, of 1] quota_repr_charge_pipes [OF assms, of 1]
  by (auto simp: reserve_files_cases [OF assms] reserve_pipe_fds_cases [OF assms] quota_reserve_dup_fd_cases [OF assms])

theorem reservation_bounds_witness:
  "reserve_files 30 quota_initial = (Inl TooManyFiles, quota_initial)
     \<and> (\<exists>q. reserve_files 29 quota_initial = (Inr (), q) \<and> quota_repr q {0, 1, 2} {} 29 0)
     \<and> reserve_pipe_fds 17 quota_initial = (Inl ResourceExhausted, quota_initial)
     \<and> (\<exists>q. quota_reserve_dup_fd 1 quota_initial = (Inr False, q) \<and> quota_repr q {0, 1, 2} {} 1 0)"
  using reservation_bounds [OF quota_repr_initial, of 30 1] reservation_bounds [OF quota_repr_initial, of 29 1]
    reservation_bounds [OF quota_repr_initial, of 17 1]
  by simp

end
