(* ===== verification/Audit_Ring.thy ===== *)
theory Audit_Ring
  imports Security_Api
begin

text \<open>
  The bounded security audit log (os/src/security/audit.rs): conversion of requests and
  their outcomes to events, the stable ABI records, and the ring of the last 256 events
  with its counters. The array indices \<open>head\<close> and \<open>len\<close> are natural numbers (they stay
  below 256, and an index is only used modulo 256, which divides the word size);
  sequence numbers and counters are 64-bit words.

  The abstract view of a ring is the complete history of accepted events (\<open>audit_inv\<close>):
  pushing appends to it, a snapshot is a filter of what is retained of it, and the
  statistics are its lengths.
\<close>

section \<open>Constants and ABI records\<close>

definition AUDIT_RING_CAPACITY :: nat where "AUDIT_RING_CAPACITY = 256"
definition AUDIT_READ_MAX_RECORDS :: nat where "AUDIT_READ_MAX_RECORDS = 32"
definition AUDIT_ABI_VERSION :: u16 where "AUDIT_ABI_VERSION = 1"
definition AUDIT_RECORD_V1_SIZE :: u16 where "AUDIT_RECORD_V1_SIZE = 80"
definition IPC_STATS_V1_SIZE :: u16 where "IPC_STATS_V1_SIZE = 80"
definition AUDIT_RECORD_F_GAP_BEFORE :: u16 where "AUDIT_RECORD_F_GAP_BEFORE = push_bit 0 1"
definition AUDIT_OBJECT_NONE :: u64 where "AUDIT_OBJECT_NONE = 0"
definition AUDIT_UID_UNKNOWN :: u32 where "AUDIT_UID_UNKNOWN = - 1"

definition AUDIT_OP_UNSPECIFIED :: u16 where "AUDIT_OP_UNSPECIFIED = 0"
definition AUDIT_OP_SIGNAL_SEND :: u16 where "AUDIT_OP_SIGNAL_SEND = 1"
definition AUDIT_OP_PIPE_CREATE :: u16 where "AUDIT_OP_PIPE_CREATE = 2"
definition AUDIT_OP_PIPE_READ :: u16 where "AUDIT_OP_PIPE_READ = 3"
definition AUDIT_OP_PIPE_WRITE :: u16 where "AUDIT_OP_PIPE_WRITE = 4"
definition AUDIT_OP_AUDIT_READ :: u16 where "AUDIT_OP_AUDIT_READ = 5"
definition AUDIT_OP_IPC_STAT :: u16 where "AUDIT_OP_IPC_STAT = 6"

lemmas audit_consts [model_defs] =
  AUDIT_RING_CAPACITY_def AUDIT_READ_MAX_RECORDS_def AUDIT_ABI_VERSION_def
  AUDIT_RECORD_V1_SIZE_def IPC_STATS_V1_SIZE_def AUDIT_RECORD_F_GAP_BEFORE_def
  AUDIT_OBJECT_NONE_def AUDIT_UID_UNKNOWN_def AUDIT_OP_UNSPECIFIED_def
  AUDIT_OP_SIGNAL_SEND_def AUDIT_OP_PIPE_CREATE_def AUDIT_OP_PIPE_READ_def
  AUDIT_OP_PIPE_WRITE_def AUDIT_OP_AUDIT_READ_def AUDIT_OP_IPC_STAT_def

record AuditRecordV1 =
  rec_abi_version :: u16
  rec_record_size :: u16
  rec_operation :: u16
  rec_flags :: u16
  rec_errno :: i32
  rec_subject_uid :: u32
  rec_object_owner_uid :: u32
  rec_reserved0 :: u32
  rec_sequence :: u64
  rec_timestamp_ms :: u64
  rec_subject_pid :: u64
  rec_object_id :: u64
  rec_requested_amount :: u64
  rec_result_value :: u64
  rec_reserved1 :: u64

record IpcStatsV1 =
  stat_abi_version :: u16
  stat_struct_size :: u16
  stat_flags :: u32
  stat_capacity :: u64
  stat_retained :: u64
  stat_first_sequence :: u64
  stat_next_sequence :: u64
  stat_total_events :: u64
  stat_successful_events :: u64
  stat_failed_events :: u64
  stat_overwritten_events :: u64
  stat_reserved0 :: u64

section \<open>Events\<close>

fun operation_to_audit_id :: "IpcOperation \<Rightarrow> u16" where
  "operation_to_audit_id SignalSend = AUDIT_OP_SIGNAL_SEND"
| "operation_to_audit_id PipeCreate = AUDIT_OP_PIPE_CREATE"
| "operation_to_audit_id PipeRead = AUDIT_OP_PIPE_READ"
| "operation_to_audit_id PipeWrite = AUDIT_OP_PIPE_WRITE"
| "operation_to_audit_id AuditRead = AUDIT_OP_AUDIT_READ"

fun error_to_errno :: "IpcError \<Rightarrow> i32" where
  "error_to_errno PermissionDenied = 1"
| "error_to_errno ProcessNotFound = 3"
| "error_to_errno TryAgain = 11"
| "error_to_errno InvalidAddress = 14"
| "error_to_errno InvalidArgument = 22"
| "error_to_errno TooManyFiles = 24"
| "error_to_errno ResourceExhausted = 28"

datatype AuditControlOperation = ControlAuditRead | ControlIpcStat

record AuditEvent =
  ev_sequence :: u64
  ev_timestamp_ms :: u64
  ev_operation :: u16
  ev_errno :: i32
  ev_subject_pid :: u64
  ev_subject_uid :: u32
  ev_object_id :: u64
  ev_object_owner_uid :: u32
  ev_requested_amount :: u64
  ev_result_value :: u64

definition EVENT_EMPTY :: AuditEvent where
  "EVENT_EMPTY =
     \<lparr>ev_sequence = 0, ev_timestamp_ms = 0, ev_operation = AUDIT_OP_UNSPECIFIED, ev_errno = 0,
      ev_subject_pid = 0, ev_subject_uid = 0, ev_object_id = 0, ev_object_owner_uid = 0,
      ev_requested_amount = 0, ev_result_value = 0\<rparr>"

definition from_request :: "IpcRequest \<Rightarrow> usize IpcResult \<Rightarrow> u64 \<Rightarrow> AuditEvent" where
  "from_request request outcome timestamp_ms =
     (let (errno, result_value) =
        (case outcome of
           Inr v \<Rightarrow>
             (0, if req_operation request = SignalSend \<or> req_operation request = PipeCreate
                 then 1 else v)
         | Inl e \<Rightarrow> (error_to_errno e, 0))
      in \<lparr>ev_sequence = 0, ev_timestamp_ms = timestamp_ms,
          ev_operation = operation_to_audit_id (req_operation request), ev_errno = errno,
          ev_subject_pid = subj_pid (req_subject request),
          ev_subject_uid = subj_uid (req_subject request),
          ev_object_id = obj_id (req_object request),
          ev_object_owner_uid = obj_owner_uid (req_object request),
          ev_requested_amount = req_amount request,
          ev_result_value = result_value\<rparr>)"

definition from_control_failure ::
  "AuditControlOperation \<Rightarrow> IpcSubject \<Rightarrow> usize \<Rightarrow> IpcError \<Rightarrow> u64 \<Rightarrow> AuditEvent" where
  "from_control_failure operation subject requested_amount error timestamp_ms =
     (let (operation, requested_amount) =
        (case operation of
           ControlAuditRead \<Rightarrow> (AUDIT_OP_AUDIT_READ, requested_amount)
         | ControlIpcStat \<Rightarrow> (AUDIT_OP_IPC_STAT, 0))
      in \<lparr>ev_sequence = 0, ev_timestamp_ms = timestamp_ms, ev_operation = operation,
          ev_errno = error_to_errno error,
          ev_subject_pid = subj_pid subject, ev_subject_uid = subj_uid subject,
          ev_object_id = AUDIT_OBJECT_NONE, ev_object_owner_uid = AUDIT_UID_UNKNOWN,
          ev_requested_amount = requested_amount, ev_result_value = 0\<rparr>)"

definition event_to_record :: "AuditEvent \<Rightarrow> bool \<Rightarrow> AuditRecordV1" where
  "event_to_record e gap_before =
     \<lparr>rec_abi_version = AUDIT_ABI_VERSION, rec_record_size = AUDIT_RECORD_V1_SIZE,
      rec_operation = ev_operation e,
      rec_flags = (if gap_before then AUDIT_RECORD_F_GAP_BEFORE else 0),
      rec_errno = ev_errno e, rec_subject_uid = ev_subject_uid e,
      rec_object_owner_uid = ev_object_owner_uid e, rec_reserved0 = 0,
      rec_sequence = ev_sequence e, rec_timestamp_ms = ev_timestamp_ms e,
      rec_subject_pid = ev_subject_pid e, rec_object_id = ev_object_id e,
      rec_requested_amount = ev_requested_amount e, rec_result_value = ev_result_value e,
      rec_reserved1 = 0\<rparr>"

section \<open>Batches and statistics\<close>

record AuditBatch =
  batch_events :: "AuditEvent list"
  batch_len :: nat
  batch_gap_before :: bool

definition batch_empty :: AuditBatch where
  "batch_empty =
     \<lparr>batch_events = replicate AUDIT_READ_MAX_RECORDS EVENT_EMPTY, batch_len = 0,
      batch_gap_before = False\<rparr>"

definition record_at :: "AuditBatch \<Rightarrow> nat \<Rightarrow> AuditRecordV1 option" where
  "record_at b index =
     (if batch_len b \<le> index then None
      else if index < length (batch_events b)
      then Some (event_to_record (batch_events b ! index) (index = 0 \<and> batch_gap_before b))
      else None)"

record AuditStatsSnapshot =
  snap_capacity :: u64
  snap_retained :: u64
  snap_first_sequence :: u64
  snap_next_sequence :: u64
  snap_total_events :: u64
  snap_successful_events :: u64
  snap_failed_events :: u64
  snap_overwritten_events :: u64

definition stats_to_record :: "AuditStatsSnapshot \<Rightarrow> IpcStatsV1" where
  "stats_to_record s =
     \<lparr>stat_abi_version = AUDIT_ABI_VERSION, stat_struct_size = IPC_STATS_V1_SIZE, stat_flags = 0,
      stat_capacity = snap_capacity s, stat_retained = snap_retained s,
      stat_first_sequence = snap_first_sequence s, stat_next_sequence = snap_next_sequence s,
      stat_total_events = snap_total_events s,
      stat_successful_events = snap_successful_events s,
      stat_failed_events = snap_failed_events s,
      stat_overwritten_events = snap_overwritten_events s, stat_reserved0 = 0\<rparr>"

section \<open>The ring\<close>

record AuditRing =
  ring_events :: "AuditEvent list"
  ring_head :: nat
  ring_len :: nat
  ring_next_sequence :: u64
  ring_total_events :: u64
  ring_successful_events :: u64
  ring_failed_events :: u64
  ring_overwritten_events :: u64

definition ring_new :: AuditRing where
  "ring_new =
     \<lparr>ring_events = replicate AUDIT_RING_CAPACITY EVENT_EMPTY, ring_head = 0, ring_len = 0,
      ring_next_sequence = 1, ring_total_events = 0, ring_successful_events = 0,
      ring_failed_events = 0, ring_overwritten_events = 0\<rparr>"

definition ring_push :: "AuditRing \<Rightarrow> AuditEvent \<Rightarrow> AuditRing" where
  "ring_push r event =
     (case checked_add (ring_next_sequence r) 1 of
        None \<Rightarrow> r
      | Some next_sequence \<Rightarrow>
          let event = event\<lparr>ev_sequence := ring_next_sequence r\<rparr>;
              r = r\<lparr>ring_next_sequence := next_sequence\<rparr>;
              r = (if ring_len r < AUDIT_RING_CAPACITY
                   then let index = (ring_head r + ring_len r) mod AUDIT_RING_CAPACITY
                        in r\<lparr>ring_events := (ring_events r)[index := event],
                             ring_len := ring_len r + 1\<rparr>
                   else r\<lparr>ring_events := (ring_events r)[ring_head r := event],
                          ring_head := (ring_head r + 1) mod AUDIT_RING_CAPACITY,
                          ring_overwritten_events := ring_overwritten_events r + 1\<rparr>);
              r = r\<lparr>ring_total_events := ring_total_events r + 1\<rparr>
          in if ev_errno event = 0
             then r\<lparr>ring_successful_events := ring_successful_events r + 1\<rparr>
             else r\<lparr>ring_failed_events := ring_failed_events r + 1\<rparr>)"

definition ring_first_sequence :: "AuditRing \<Rightarrow> u64" where
  "ring_first_sequence r =
     (if ring_len r = 0 then ring_next_sequence r
      else ev_sequence (ring_events r ! ring_head r))"

text \<open>The copy loop \<open>for batch_index in 0..count\<close>.\<close>

fun copy_batch :: "AuditRing \<Rightarrow> nat \<Rightarrow> nat list \<Rightarrow> AuditEvent list \<Rightarrow> AuditEvent list" where
  "copy_batch r offset [] evs = evs"
| "copy_batch r offset (i # is) evs =
     copy_batch r offset is
       (evs[i := ring_events r ! ((ring_head r + offset + i) mod AUDIT_RING_CAPACITY)])"

definition ring_snapshot :: "AuditRing \<Rightarrow> u64 \<Rightarrow> usize \<Rightarrow> AuditBatch" where
  "ring_snapshot r after_sequence requested_capacity =
     (let limit = min (unat requested_capacity) AUDIT_READ_MAX_RECORDS in
      if limit = 0 \<or> ring_len r = 0 \<or> after_sequence = - 1 then batch_empty
      else
        let wanted_sequence = after_sequence + 1;
            first_sequence = ring_first_sequence r;
            start_sequence = max wanted_sequence first_sequence
        in if ring_next_sequence r \<le> start_sequence then batch_empty
           else
             let count = min (unat (ring_next_sequence r - start_sequence)) limit;
                 offset = unat (start_sequence - first_sequence)
             in \<lparr>batch_events = copy_batch r offset [0..<count] (batch_events batch_empty),
                 batch_len = count,
                 batch_gap_before = (wanted_sequence < first_sequence)\<rparr>)"

definition ring_stats :: "AuditRing \<Rightarrow> AuditStatsSnapshot" where
  "ring_stats r =
     \<lparr>snap_capacity = of_nat AUDIT_RING_CAPACITY, snap_retained = of_nat (ring_len r),
      snap_first_sequence = ring_first_sequence r, snap_next_sequence = ring_next_sequence r,
      snap_total_events = ring_total_events r,
      snap_successful_events = ring_successful_events r,
      snap_failed_events = ring_failed_events r,
      snap_overwritten_events = ring_overwritten_events r\<rparr>"

text \<open>
  The global operations on the ring. The clock is read before the ring is borrowed; its
  value is an argument.
\<close>

definition audit_record :: "u64 \<Rightarrow> IpcRequest \<Rightarrow> usize IpcResult \<Rightarrow> AuditRing \<Rightarrow> AuditRing" where
  "audit_record now request outcome ring =
     (if req_operation request = AuditRead \<and> \<not> isl outcome then ring
      else ring_push ring (from_request request outcome now))"

definition record_control_failure ::
  "u64 \<Rightarrow> AuditControlOperation \<Rightarrow> IpcSubject \<Rightarrow> usize \<Rightarrow> IpcError \<Rightarrow> AuditRing \<Rightarrow> AuditRing" where
  "record_control_failure now operation subject requested_amount error ring =
     ring_push ring (from_control_failure operation subject requested_amount error now)"

section \<open>The ring represents the history of accepted events\<close>

definition retained :: "AuditEvent list \<Rightarrow> AuditEvent list" where
  "retained hist = drop (length hist - AUDIT_RING_CAPACITY) hist"

definition overwritten :: "AuditEvent list \<Rightarrow> AuditEvent list" where
  "overwritten hist = take (length hist - AUDIT_RING_CAPACITY) hist"

definition audit_inv :: "AuditRing \<Rightarrow> AuditEvent list \<Rightarrow> bool" where
  "audit_inv r hist \<longleftrightarrow>
     length (ring_events r) = AUDIT_RING_CAPACITY \<and> ring_head r < AUDIT_RING_CAPACITY
     \<and> ring_len r = length (retained hist)
     \<and> ring_window (ring_events r) (ring_head r) (length (retained hist)) = retained hist
     \<and> unat (ring_next_sequence r) = Suc (length hist)
     \<and> (\<forall>i < length hist. unat (ev_sequence (hist ! i)) = Suc i)
     \<and> unat (ring_total_events r) = length hist
     \<and> unat (ring_successful_events r) = length (filter (\<lambda>e. ev_errno e = 0) hist)
     \<and> unat (ring_failed_events r) = length (filter (\<lambda>e. ev_errno e \<noteq> 0) hist)
     \<and> unat (ring_overwritten_events r) = length (overwritten hist)"

lemma capacity_256 [simp]: "AUDIT_RING_CAPACITY = 256" "AUDIT_READ_MAX_RECORDS = 32"
  by (simp_all add: model_defs)

lemma length_retained: "length (retained hist) = min 256 (length hist)"
  by (simp add: retained_def)

lemma length_overwritten: "length (overwritten hist) = length hist - 256"
  by (simp add: overwritten_def)

lemma audit_invD:
  assumes "audit_inv r hist"
  shows "length (ring_events r) = 256" "ring_head r < 256" "ring_len r = length (retained hist)"
    "ring_window (ring_events r) (ring_head r) (length (retained hist)) = retained hist"
    "unat (ring_next_sequence r) = Suc (length hist)"
    "\<And>i. i < length hist \<Longrightarrow> unat (ev_sequence (hist ! i)) = Suc i"
    "unat (ring_total_events r) = length hist"
    "unat (ring_successful_events r) = length (filter (\<lambda>e. ev_errno e = 0) hist)"
    "unat (ring_failed_events r) = length (filter (\<lambda>e. ev_errno e \<noteq> 0) hist)"
    "unat (ring_overwritten_events r) = length hist - 256"
  using assms unfolding audit_inv_def capacity_256 length_overwritten by blast+

lemma audit_inv_new: "audit_inv ring_new []"
  by (simp add: audit_inv_def ring_new_def retained_def overwritten_def)

text \<open>The history after a push: the event is appended unless the sequence numbers ran out.\<close>

definition hist_push :: "AuditRing \<Rightarrow> AuditEvent list \<Rightarrow> AuditEvent \<Rightarrow> AuditEvent list" where
  "hist_push r hist e =
     (if ring_next_sequence r = - 1 then hist
      else hist @ [e\<lparr>ev_sequence := ring_next_sequence r\<rparr>])"

lemma checked_add_1_None_iff: "checked_add (a :: u64) 1 = None \<longleftrightarrow> a = - 1"
  unfolding checked_add_None_iff u64_eq_max_iff by simp

lemma retained_push_full:
  assumes "256 \<le> length hist"
  shows "retained (hist @ [e]) = tl (retained hist) @ [e]"
proof -
  have "Suc (length hist) - 256 = Suc (length hist - 256)" using assms by simp
  then show ?thesis by (simp add: retained_def drop_Suc tl_drop)
qed

lemma retained_push_room: "length hist < 256 \<Longrightarrow> retained (hist @ [e]) = retained hist @ [e]"
  by (simp add: retained_def)

lemma ring_push_window:
  assumes inv: "audit_inv r hist" and nx: "checked_add (ring_next_sequence r) 1 = Some n"
    and e': "e' = e\<lparr>ev_sequence := ring_next_sequence r\<rparr>"
  shows "length (ring_events (ring_push r e)) = 256 \<and> ring_head (ring_push r e) < 256
    \<and> ring_len (ring_push r e) = length (retained (hist @ [e']))
    \<and> ring_window (ring_events (ring_push r e)) (ring_head (ring_push r e)) (length (retained (hist @ [e'])))
        = retained (hist @ [e'])
    \<and> ring_overwritten_events (ring_push r e)
        = ring_overwritten_events r + (if length hist < 256 then 0 else 1)"
proof -
  note inv' = audit_invD(1-4) [OF inv]
  have len: "ring_len r = min 256 (length hist)" by (simp add: inv'(3) length_retained)
  show ?thesis
  proof (cases "length hist < 256")
    case True
    then show ?thesis
      using ring_window_append [of "ring_len r" "ring_events r" "ring_head r" e'] nx len inv'
      by (simp add: ring_push_def Let_def e' length_retained retained_push_room)
  next
    case False
    then show ?thesis
      using ring_window_overwrite [of "ring_head r" "ring_events r" e'] nx len inv'
      by (simp add: ring_push_def Let_def e' length_retained retained_push_full)
  qed
qed

lemma ring_push_counters:
  assumes "checked_add (ring_next_sequence r) 1 = Some n"
  shows "ring_next_sequence (ring_push r e) = n"
    "ring_total_events (ring_push r e) = ring_total_events r + 1"
    "ring_successful_events (ring_push r e) = ring_successful_events r + (if ev_errno e = 0 then 1 else 0)"
    "ring_failed_events (ring_push r e) = ring_failed_events r + (if ev_errno e = 0 then 0 else 1)"
  using assms by (simp_all add: ring_push_def Let_def)

lemma ring_push_inv:
  assumes "audit_inv r hist"
  shows "audit_inv (ring_push r e) (hist_push r hist e)"
proof (cases "checked_add (ring_next_sequence r) 1")
  case None
  then have "ring_push r e = r" "hist_push r hist e = hist"
    using checked_add_1_None_iff [of "ring_next_sequence r"] by (simp_all add: ring_push_def hist_push_def)
  then show ?thesis using assms by simp
next
  case (Some n)
  let ?e = "e\<lparr>ev_sequence := ring_next_sequence r\<rparr>"
  note ns = audit_invD(5) [OF assms] and seqs = audit_invD(6) [OF assms]
    and cnt = audit_invD(7-10) [OF assms]
  have lt: "Suc (Suc (length hist)) < 2 ^ 64" and n: "unat n = Suc (Suc (length hist))"
    using Some ns by (simp_all add: checked_add_Some_iff)
  have up: "unat (w + 1) = Suc (unat w)" if "unat w \<le> length hist" for w :: u64
    using unat_Suc_no_wrap [of w] that lt by simp
  have le: "length (filter P hist) \<le> length hist" for P by (rule length_filter_le)
  have "hist_push r hist e = hist @ [?e]"
    using Some checked_add_1_None_iff [of "ring_next_sequence r"] by (auto simp: hist_push_def)
  moreover have "\<forall>i < Suc (length hist). unat (ev_sequence ((hist @ [?e]) ! i)) = Suc i"
    using seqs ns by (auto simp: nth_append less_Suc_eq)
  ultimately show ?thesis
    using ring_push_window [OF assms Some, of ?e e] up cnt le n
    unfolding audit_inv_def
    by (simp add: ring_push_counters [OF Some] length_overwritten) arith
qed

text \<open>
  C15: pushing an event refines appending it to the history. The ring then holds the newest
  256 events of the history in order, sequence numbers are the positions in the history
  (so they never repeat or wrap), and no counter overflows; when the sequence numbers are
  exhausted the push leaves the log as it is.
\<close>

theorem ring_push_refines:
  assumes "audit_inv r hist"
  shows "audit_inv (ring_push r e) (hist_push r hist e)"
  using assms by (rule ring_push_inv)

theorem ring_push_refines_witness:
  "audit_inv ring_new [] \<and>
   audit_inv (ring_push ring_new EVENT_EMPTY) [EVENT_EMPTY\<lparr>ev_sequence := 1\<rparr>]"
  using audit_inv_new ring_push_refines [OF audit_inv_new, of EVENT_EMPTY]
  by (simp add: hist_push_def ring_new_def)

section \<open>Runs of the log\<close>

text \<open>
  The log that a sequence of pushes leaves behind: the events in the order in which they were
  pushed, numbered from 1. There are \<open>2 ^ 64 - 2\<close> sequence numbers; what comes after the last
  one is not accepted.
\<close>

definition accepted :: "AuditEvent list \<Rightarrow> AuditEvent list" where
  "accepted es = take (2 ^ 64 - 2) es"

definition log_of :: "AuditEvent list \<Rightarrow> AuditEvent list" where
  "log_of es = map (\<lambda>i. (accepted es ! i)\<lparr>ev_sequence := of_nat (Suc i)\<rparr>) [0..<length (accepted es)]"

lemma length_log_of [simp]: "length (log_of es) = length (accepted es)"
  by (simp add: log_of_def)

lemma log_of_Nil [simp]: "log_of [] = []"
  by (simp add: log_of_def accepted_def)

lemma filter_log_of:
  assumes "\<And>e n. P (e\<lparr>ev_sequence := n\<rparr>) = P e"
  shows "length (filter P (log_of es)) = length (filter P (accepted es))"
proof -
  have "map P (log_of es) = map P (accepted es)"
    by (rule nth_equalityI) (simp_all add: log_of_def assms)
  then have "filter id (map P (log_of es)) = filter id (map P (accepted es))" by simp
  then have "map P (filter P (log_of es)) = map P (filter P (accepted es))" by (simp add: filter_map comp_def)
  then show ?thesis by (metis length_map)
qed

lemma log_of_snoc:
  "log_of (es @ [e]) = (if length es < 2 ^ 64 - 2 then log_of es @ [e\<lparr>ev_sequence := of_nat (Suc (length es))\<rparr>] else log_of es)"
proof (cases "length es < 2 ^ 64 - 2")
  case True
  then have "accepted es = es" "accepted (es @ [e]) = es @ [e]" by (simp_all add: accepted_def)
  then show ?thesis using True by (auto simp: log_of_def nth_append)
next
  case False
  then have "accepted (es @ [e]) = accepted es" by (simp add: accepted_def)
  then show ?thesis using False by (simp add: log_of_def)
qed

lemma hist_push_log:
  assumes "audit_inv r (log_of es)"
  shows "hist_push r (log_of es) e = log_of (es @ [e])"
proof -
  have n: "unat (ring_next_sequence r) = Suc (length (accepted es))" using audit_invD(5) [OF assms] by simp
  have "ring_next_sequence r = - 1 \<longleftrightarrow> unat (ring_next_sequence r) = 2 ^ 64 - 1"
    using unat_u64_less [of "ring_next_sequence r"] by (auto simp: u64_eq_max_iff)
  then have "ring_next_sequence r = - 1 \<longleftrightarrow> \<not> length es < 2 ^ 64 - 2" by (auto simp: n accepted_def)
  moreover have "ring_next_sequence r = of_nat (Suc (length es))" if "length es < 2 ^ 64 - 2"
    using arg_cong [OF n, of "of_nat :: nat \<Rightarrow> u64"] that by (simp add: accepted_def)
  ultimately show ?thesis by (simp add: hist_push_def log_of_snoc)
qed

interpretation audit_log: invariant_system "\<lambda>e (r, es). (ring_push r e, es @ [e])" "(ring_new, [])"
  "\<lambda>(r, es). audit_inv r (log_of es)"
  by unfold_locales
    (auto simp: audit_inv_new hist_push_log [symmetric] intro: ring_push_inv)

lemma run_push_log: "run_ops (\<lambda>e (r, es). (ring_push r e, es @ [e])) xs (r, es) = (run_ops (\<lambda>e r. ring_push r e) xs r, es @ xs)"
  by (induction xs arbitrary: r es) simp_all

lemma ring_history: "audit_inv (run_ops (\<lambda>e r. ring_push r e) es ring_new) (log_of es)"
  using audit_log.inv_run [of es] by (simp add: run_push_log)

section \<open>Statistics\<close>

lemma retained_0: "hist \<noteq> [] \<Longrightarrow> retained hist ! 0 = hist ! (length hist - 256)"
  by (simp add: retained_def)

lemma unat_ring_first_sequence:
  assumes "audit_inv r hist"
  shows "unat (ring_first_sequence r) = Suc (length hist - 256)"
proof (cases "hist = []")
  case True
  then show ?thesis
    using audit_invD(3,5) [OF assms] by (simp add: ring_first_sequence_def retained_def)
next
  case False
  note inv = audit_invD [OF assms]
  have pos: "0 < length (retained hist)" using False by (simp add: length_retained)
  have "ring_events r ! ring_head r = retained hist ! 0"
    using arg_cong [OF inv(4), of "\<lambda>xs. xs ! 0"] pos inv(1,2) by simp
  then have "ring_events r ! ring_head r = hist ! (length hist - 256)"
    using False by (simp add: retained_0)
  moreover have "length hist - 256 < length hist" using False by (cases hist) auto
  ultimately show ?thesis
    using inv(3,6) pos by (simp add: ring_first_sequence_def)
qed

text \<open>
  C16: the statistics agree with the history. After any sequence of pushes they count the
  events that were pushed (all of them, up to the last of the \<open>2 ^ 64 - 2\<close> sequence numbers): the
  total, those that succeeded, those that failed, the last 256 as retained and the others as
  overwritten; the next sequence number is the total plus one, and the first retained one is
  the number of overwritten events plus one. No counter wraps.
\<close>

theorem audit_stats_consistent:
  "let s = ring_stats (run_ops (\<lambda>e r. ring_push r e) es ring_new); evs = take (2 ^ 64 - 2) es in
     unat (snap_total_events s) = length evs
   \<and> unat (snap_successful_events s) = length (filter (\<lambda>e. ev_errno e = 0) evs)
   \<and> unat (snap_failed_events s) = length (filter (\<lambda>e. ev_errno e \<noteq> 0) evs)
   \<and> unat (snap_retained s) = min 256 (length evs)
   \<and> unat (snap_overwritten_events s) = length evs - 256
   \<and> unat (snap_next_sequence s) = length evs + 1
   \<and> unat (snap_first_sequence s) = (length evs - 256) + 1
   \<and> unat (snap_capacity s) = 256"
proof -
  note inv = ring_history [of es]
  note D = audit_invD(3,5,7-10) [OF inv]
  have "unat (of_nat (length (retained (log_of es))) :: u64) = min 256 (length (accepted es))"
    by (simp add: length_retained unat_of_nat min_def)
  then show ?thesis
    unfolding accepted_def [symmetric] using D unat_ring_first_sequence [OF inv]
    by (simp add: Let_def ring_stats_def filter_log_of)
qed

section \<open>Snapshots\<close>

lemma copy_batch_length [simp]: "length (copy_batch r offset is evs) = length evs"
  by (induction r offset "is" evs rule: copy_batch.induct) auto

lemma nth_copy_batch:
  "j < length evs \<Longrightarrow> copy_batch r offset is evs ! j =
     (if j \<in> set is then ring_events r ! ((ring_head r + offset + j) mod 256) else evs ! j)"
  by (induction r offset "is" evs rule: copy_batch.induct) (auto simp: nth_list_update)

lemma copy_batch_window:
  assumes inv: "audit_inv r hist" and "count \<le> length evs" "offset + count \<le> length (retained hist)"
  shows "take count (copy_batch r offset [0..<count] evs) = take count (drop offset (retained hist))"
proof (rule nth_equalityI)
  fix i assume "i < length (take count (copy_batch r offset [0..<count] evs))"
  then have i: "i < count" by simp
  have "retained hist ! (offset + i)
      = ring_events r ! ((ring_head r + (offset + i)) mod length (ring_events r))"
    using arg_cong [OF audit_invD(4) [OF inv], of "\<lambda>xs. xs ! (offset + i)"] i assms(3) by simp
  with i assms show "take count (copy_batch r offset [0..<count] evs) ! i
      = take count (drop offset (retained hist)) ! i"
    by (simp add: nth_copy_batch audit_invD(1) [OF inv] add.assoc)
qed (use assms in simp)

lemma retained_after:
  assumes "audit_inv r hist"
  shows "filter (\<lambda>e. after < ev_sequence e) (retained hist)
           = drop (unat after - (length hist - 256)) (retained hist)"
proof (rule filter_threshold)
  fix i assume i: "i < length (retained hist)"
  let ?m = "length hist - 256"
  have "unat (ev_sequence (retained hist ! i)) = Suc (?m + i)"
    using i audit_invD(6) [OF assms, of "?m + i"] by (simp add: retained_def)
  then show "after < ev_sequence (retained hist ! i) \<longleftrightarrow> unat after - ?m \<le> i"
    by (auto simp: word_less_nat_alt)
qed

lemma overwritten_after:
  assumes "audit_inv r hist"
  shows "(\<exists>e \<in> set (overwritten hist). after < ev_sequence e) \<longleftrightarrow> unat after < length hist - 256"
proof -
  have *: "after < ev_sequence (overwritten hist ! i) \<longleftrightarrow> unat after \<le> i" if "i < length hist - 256" for i
    using audit_invD(6) [OF assms, of i] that by (auto simp: overwritten_def word_less_nat_alt)
  show ?thesis
  proof
    assume "unat after < length hist - 256"
    then show "\<exists>e \<in> set (overwritten hist). after < ev_sequence e"
      using * [of "unat after"] nth_mem [of "unat after" "overwritten hist"]
      by (auto simp: length_overwritten)
  qed (use * in \<open>auto simp: in_set_conv_nth length_overwritten\<close>)
qed

lemma unat_max_word: "unat (max a b) = max (unat a) (unat (b :: 'a::len word))"
  by (auto simp: max_def word_le_nat_alt)

lemma ring_snapshot_facts:
  assumes "audit_inv r hist"
  shows "let b = ring_snapshot r after cap;
             wanted = take (min (unat cap) 32) (filter (\<lambda>e. after < ev_sequence e) (retained hist))
         in batch_len b = length wanted
          \<and> take (batch_len b) (batch_events b) = wanted
          \<and> length (batch_events b) = 32
          \<and> (batch_gap_before b \<longleftrightarrow>
               wanted \<noteq> [] \<and> (\<exists>e \<in> set (overwritten hist). after < ev_sequence e))"
proof -
  let ?m = "length hist - 256" and ?limit = "min (unat cap) 32"
  let ?first = "ring_first_sequence r" and ?next = "ring_next_sequence r"
  define rest where "rest = drop (unat after - ?m) (retained hist)"
  have rest: "filter (\<lambda>e. after < ev_sequence e) (retained hist) = rest"
    unfolding rest_def by (rule retained_after [OF assms])
  have len: "length rest = length hist - max (unat after) ?m"
    by (auto simp: rest_def length_retained)
  have first: "unat ?first = Suc ?m" and nxt: "unat ?next = Suc (length hist)"
    and rl: "ring_len r = length (retained hist)"
    by (simp_all add: unat_ring_first_sequence [OF assms] audit_invD [OF assms])
  show ?thesis
  proof (cases "?limit = 0 \<or> ring_len r = 0 \<or> after = - 1")
    case True
    have "rest = []" if "after = - 1"
      using that len nxt unat_u64_less [of ?next] unat_u64_max by simp
    with True have "take ?limit rest = []" by (auto simp: rest_def rl)
    with True show ?thesis by (auto simp: ring_snapshot_def rest batch_empty_def Let_def)
  next
    case False
    then have wanted: "unat (after + 1) = Suc (unat after)"
      by (intro unat_Suc_no_wrap) (simp add: u64_eq_max_iff)
    let ?start = "max (after + 1) ?first"
    have start: "unat ?start = Suc (max (unat after) ?m)"
      by (simp add: unat_max_word wanted first)
    show ?thesis
    proof (cases "?next \<le> ?start")
      case True
      with len start nxt have "rest = []" by (simp add: word_le_nat_alt)
      with False True show ?thesis by (auto simp: ring_snapshot_def rest batch_empty_def Let_def)
    next
      case next_gt: False
      have count: "unat (?next - ?start) = length rest"
        using next_gt len start nxt by (simp add: unat_sub word_le_nat_alt)
      have offset: "unat (?start - ?first) = unat after - ?m"
        using start first by (simp add: unat_sub word_le_nat_alt max_def)
      have nonempty: "rest \<noteq> []"
        using next_gt len start nxt by (auto simp: word_le_nat_alt)
      let ?count = "min (length rest) ?limit"
      have "?count \<le> length (batch_events batch_empty)" by (simp add: batch_empty_def)
      moreover have "length rest = length (retained hist) - (unat after - ?m)" "0 < length rest"
        using nonempty by (simp_all add: rest_def)
      then have "unat after - ?m + ?count \<le> length (retained hist)" by linarith
      ultimately have "take ?count (copy_batch r (unat after - ?m) [0..<?count] (batch_events batch_empty))
          = take ?count rest"
        unfolding rest_def by (rule copy_batch_window [OF assms])
      moreover have "take ?count rest = take ?limit rest" "?limit \<noteq> 0"
        using False by (simp_all add: min_def)
      moreover have "after + 1 < ?first \<longleftrightarrow> unat after < ?m"
        by (simp add: word_less_nat_alt wanted first)
      ultimately show ?thesis
        using False next_gt nonempty
        by (simp add: ring_snapshot_def rest Let_def count offset batch_empty_def
            overwritten_after [OF assms] min.commute)
    qed
  qed
qed

text \<open>
  C17: reading the log after a cursor returns, in order, the first (at most 32, at most the
  requested number) retained events with a greater sequence number, and flags a gap exactly
  when the batch is not empty and some event after the cursor was already overwritten.
\<close>

theorem ring_snapshot_spec:
  assumes "audit_inv r hist"
  shows "let b = ring_snapshot r after cap;
             wanted = take (min (unat cap) 32) (filter (\<lambda>e. after < ev_sequence e) (retained hist))
         in batch_len b = length wanted
          \<and> take (batch_len b) (batch_events b) = wanted
          \<and> length (batch_events b) = 32
          \<and> (batch_gap_before b \<longleftrightarrow>
               wanted \<noteq> [] \<and> (\<exists>e \<in> set (overwritten hist). after < ev_sequence e))"
  by (rule ring_snapshot_facts [OF assms])

theorem ring_snapshot_spec_witness:
  "let r = ring_push ring_new EVENT_EMPTY; e = EVENT_EMPTY\<lparr>ev_sequence := 1\<rparr> in
     audit_inv r [e] \<and> batch_len (ring_snapshot r 0 5) = 1
     \<and> take 1 (batch_events (ring_snapshot r 0 5)) = [e]
     \<and> \<not> batch_gap_before (ring_snapshot r 0 5)"
proof -
  let ?r = "ring_push ring_new EVENT_EMPTY" and ?e = "EVENT_EMPTY\<lparr>ev_sequence := 1\<rparr>"
  have inv: "audit_inv ?r [?e]"
    using ring_push_inv [OF audit_inv_new, of EVENT_EMPTY]
    by (simp add: hist_push_def ring_new_def)
  show ?thesis
    using ring_snapshot_spec [OF inv, of 0 5] inv
    by (auto simp: Let_def retained_def overwritten_def)
qed

section \<open>Polling the log\<close>

text \<open>
  A reader polls with the sequence number of the last record it has got, beginning with 0,
  while others push events. \<open>poll_records\<close> is what one poll delivers (the records that
  \<open>sys_audit_read\<close> copies out).
\<close>

definition poll_records :: "AuditRing \<Rightarrow> u64 \<Rightarrow> usize \<Rightarrow> AuditRecordV1 list" where
  "poll_records r cursor cap =
     (let b = ring_snapshot r cursor cap in List.map_filter (record_at b) [0..<batch_len b])"

datatype log_op = Push AuditEvent | Poll usize

fun log_step :: "log_op \<Rightarrow> AuditRing \<times> u64 \<times> AuditRecordV1 list \<Rightarrow> AuditRing \<times> u64 \<times> AuditRecordV1 list" where
  "log_step (Push e) (r, cursor, seen) = (ring_push r e, cursor, seen)"
| "log_step (Poll cap) (r, cursor, seen) =
     (let recs = poll_records r cursor cap
      in (r, if recs = [] then cursor else rec_sequence (last recs), seen @ recs))"

fun pushed :: "log_op list \<Rightarrow> AuditEvent list" where
  "pushed [] = []"
| "pushed (Push e # ops) = e # pushed ops"
| "pushed (Poll cap # ops) = pushed ops"

text \<open>
  What a reader that has come to position \<open>p\<close> of the log should see: records of later events,
  each flagged exactly when events between it and the record before are missing, and missing
  only if they are no longer among the last 256.
\<close>

fun reads_log :: "AuditEvent list \<Rightarrow> nat \<Rightarrow> AuditRecordV1 list \<Rightarrow> bool" where
  "reads_log log p [] \<longleftrightarrow> True"
| "reads_log log p (x # xs) \<longleftrightarrow>
     (let s = unat (rec_sequence x) in
      p < s \<and> s \<le> length log \<and> x = event_to_record (log ! (s - 1)) (s \<noteq> p + 1)
      \<and> s - 1 \<le> max p (length log - 256) \<and> reads_log log s xs)"

definition last_read :: "nat \<Rightarrow> AuditRecordV1 list \<Rightarrow> nat" where
  "last_read p xs = (if xs = [] then p else unat (rec_sequence (last xs)))"

lemma pushed_append [simp]: "pushed (xs @ ys) = pushed xs @ pushed ys"
  by (induction xs rule: pushed.induct) simp_all

lemma reads_log_append: "reads_log log p (xs @ ys) \<longleftrightarrow> reads_log log p xs \<and> reads_log log (last_read p xs) ys"
  by (induction log p xs rule: reads_log.induct) (auto simp: Let_def last_read_def)

lemma reads_log_mono: "reads_log log p xs \<Longrightarrow> reads_log (log @ es) p xs"
proof (induction log p xs rule: reads_log.induct)
  case (2 log p x xs)
  have "(log @ es) ! (unat (rec_sequence x) - 1) = log ! (unat (rec_sequence x) - 1)"
    using "2.prems" by (auto simp: Let_def nth_append)
  with 2 show ?case by (auto simp: Let_def)
qed simp

lemma last_read_le: "reads_log log p xs \<Longrightarrow> p \<le> length log \<Longrightarrow> last_read p xs \<le> length log"
  by (induction log p xs rule: reads_log.induct) (auto simp: Let_def last_read_def split: if_splits)

lemma reads_log_consecutive:
  assumes "\<And>i. i < length log \<Longrightarrow> unat (ev_sequence (log ! i)) = Suc i" "b \<le> length log"
  shows "reads_log log a (map (\<lambda>i. event_to_record (log ! i) False) [a..<b])"
  using assms
proof (induction "b - a" arbitrary: a)
  case (Suc n)
  then have "[a..<b] = a # [Suc a..<b]" by (intro upt_conv_Cons) simp
  moreover have "reads_log log (Suc a) (map (\<lambda>i. event_to_record (log ! i) False) [Suc a..<b])"
    using Suc by (intro Suc.hyps(1)) simp_all
  ultimately show ?case using Suc by (simp add: event_to_record_def Let_def)
qed simp

lemma reads_log_batch:
  assumes seqs: "\<And>i. i < length log \<Longrightarrow> unat (ev_sequence (log ! i)) = Suc i" and "b \<le> length log"
    and a: "a = max p (length log - 256)"
  shows "reads_log log p (map (\<lambda>i. event_to_record (log ! i) (i = a \<and> p < a)) [a..<b])"
proof (cases "a < b")
  case True
  then have "[a..<b] = a # [Suc a..<b]" by (rule upt_conv_Cons)
  moreover have "map (\<lambda>i. event_to_record (log ! i) (i = a \<and> a \<noteq> p)) [Suc a..<b] = map (\<lambda>i. event_to_record (log ! i) False) [Suc a..<b]"
    by simp
  then have "reads_log log (Suc a) (map (\<lambda>i. event_to_record (log ! i) (i = a \<and> a \<noteq> p)) [Suc a..<b])"
    using reads_log_consecutive [OF seqs assms(2), of "Suc a"] by (simp only:)
  moreover have "unat (rec_sequence (event_to_record (log ! a) g)) = Suc a" for g
    using seqs [of a] True assms(2) by (simp add: event_to_record_def)
  moreover have "p < a \<longleftrightarrow> a \<noteq> p" "p \<le> a" "a \<le> max p (length log - 256)" using a by auto
  ultimately show ?thesis
    using True assms(2) by (simp add: Let_def)
qed simp

lemma poll_records_spec:
  assumes inv: "audit_inv r log" and c: "unat cursor \<le> length log"
  defines "a \<equiv> max (unat cursor) (length log - 256)"
  shows "poll_records r cursor cap =
    map (\<lambda>i. event_to_record (log ! i) (i = a \<and> unat cursor < a)) [a..<min (length log) (a + min (unat cap) 32)]"
proof -
  let ?b = "ring_snapshot r cursor cap" and ?n = "min (unat cap) 32" and ?m = "length log - 256"
  note facts = ring_snapshot_facts [OF inv, of cursor cap, unfolded Let_def]
  have "filter (\<lambda>e. cursor < ev_sequence e) (retained log) = drop a log"
    unfolding retained_after [OF inv] by (simp add: retained_def a_def max_def)
  note facts = facts [unfolded this overwritten_after [OF inv]]
  then have w: "take (batch_len ?b) (batch_events ?b) = take ?n (drop a log)" "length (batch_events ?b) = 32"
    and g: "batch_gap_before ?b \<longleftrightarrow> take ?n (drop a log) \<noteq> [] \<and> unat cursor < ?m"
    and len: "batch_len ?b = min (length log - a) ?n"
    by (blast, blast, blast, simp)
  have le: "a \<le> length log" using c by (simp add: a_def)
  have rec: "record_at ?b i = Some (event_to_record (log ! (a + i)) (i = 0 \<and> unat cursor < a))" if "i < batch_len ?b" for i
  proof -
    have "batch_events ?b ! i = log ! (a + i)"
      using arg_cong [OF w(1), of "\<lambda>xs. xs ! i"] that len c by (simp add: a_def)
    moreover have "batch_gap_before ?b \<longleftrightarrow> unat cursor < a" using g that len by (auto simp: a_def)
    moreover have "i < 32" using that len by simp
    ultimately show ?thesis using that w(2) by (simp add: record_at_def)
  qed
  have "poll_records r cursor cap = map (\<lambda>i. event_to_record (log ! (a + i)) (i = 0 \<and> unat cursor < a)) [0..<batch_len ?b]"
    unfolding poll_records_def Let_def List.map_filter_def using rec by (auto simp: filter_id_conv intro!: map_cong)
  also have "\<dots> = map (\<lambda>i. event_to_record (log ! i) (i = a \<and> unat cursor < a)) [a..<a + batch_len ?b]"
    by (rule nth_equalityI) auto
  also have "a + batch_len ?b = min (length log) (a + ?n)" using c len le by linarith
  finally show ?thesis .
qed

definition reader_inv :: "log_op list \<Rightarrow> AuditRing \<times> u64 \<times> AuditRecordV1 list \<Rightarrow> bool" where
  "reader_inv ops s =
     (case s of (r, cursor, seen) \<Rightarrow>
        audit_inv r (log_of (pushed ops)) \<and> reads_log (log_of (pushed ops)) 0 seen
        \<and> unat cursor = last_read 0 seen)"

lemma reader_inv_step:
  assumes "reader_inv ops s"
  shows "reader_inv (ops @ [opr]) (log_step opr s)"
proof -
  obtain r cursor seen where s: "s = (r, cursor, seen)" by (cases s)
  let ?log = "log_of (pushed ops)"
  have inv: "audit_inv r ?log" and rd: "reads_log ?log 0 seen" and c: "unat cursor = last_read 0 seen"
    using assms by (simp_all add: reader_inv_def s)
  have le: "unat cursor \<le> length ?log" using last_read_le [OF rd] c by simp
  show ?thesis
  proof (cases opr)
    case (Push e)
    have "audit_inv (ring_push r e) (log_of (pushed ops @ [e]))"
      using ring_push_inv [OF inv, of e] by (simp add: hist_push_log [OF inv])
    moreover have "reads_log (log_of (pushed ops @ [e])) 0 seen"
      using rd reads_log_mono [OF rd] by (simp add: log_of_snoc)
    ultimately show ?thesis using c by (simp add: reader_inv_def s Push)
  next
    case (Poll cap)
    let ?recs = "poll_records r cursor cap"
    have "reads_log ?log (unat cursor) ?recs"
      unfolding poll_records_spec [OF inv le] by (rule reads_log_batch [OF audit_invD(6) [OF inv]]) simp_all
    then have "reads_log ?log 0 (seen @ ?recs)" using rd c by (simp add: reads_log_append)
    moreover have "unat (if ?recs = [] then cursor else rec_sequence (last ?recs)) = last_read 0 (seen @ ?recs)"
      using c by (simp add: last_read_def)
    ultimately show ?thesis using inv by (simp add: reader_inv_def s Poll Let_def)
  qed
qed

lemma reader_inv_run: "reader_inv ops (run_ops log_step ops (ring_new, 0, []))"
proof (induction ops rule: rev_induct)
  case Nil
  then show ?case by (simp add: reader_inv_def log_of_def accepted_def audit_inv_new last_read_def)
qed (simp add: run_ops_append reader_inv_step)

text \<open>
  C18: no interleaving of pushes and polls loses an event silently. All the records that a
  polling reader has got so far are records of the pushed events, in the order of the log and
  each at most once; a record carries the gap flag exactly when events between it and the
  record before it are missing, and these have been overwritten. A further poll with room for
  a record comes back empty only when the reader has come to the end of the log.
\<close>

theorem audit_poll_no_silent_loss:
  "case run_ops log_step ops (ring_new, 0, []) of (r, cursor, seen) \<Rightarrow>
     reads_log (log_of (pushed ops)) 0 seen
     \<and> unat cursor = last_read 0 seen
     \<and> (poll_records r cursor cap = [] \<longleftrightarrow> cap = 0 \<or> unat cursor = length (log_of (pushed ops)))"
proof -
  obtain r cursor seen where s: "run_ops log_step ops (ring_new, 0, []) = (r, cursor, seen)" by (metis prod_cases3)
  let ?log = "log_of (pushed ops)"
  have i: "audit_inv r ?log" "reads_log ?log 0 seen" "unat cursor = last_read 0 seen"
    using reader_inv_run [of ops] by (simp_all add: s reader_inv_def)
  have le: "unat cursor \<le> length ?log" using last_read_le [OF i(2)] i(3) by simp
  have "poll_records r cursor cap = [] \<longleftrightarrow> cap = 0 \<or> unat cursor = length ?log"
    unfolding poll_records_spec [OF i(1) le] using le by (auto simp: unat_eq_0 min_def max_def)
  then show ?thesis using i by (simp add: s)
qed

end
