(* ===== verification/Security_Facade.thy ===== *)
theory Security_Facade
  imports Quota Audit_Ring
begin

text \<open>
  The stable facade of the security modules (os/src/security/mod.rs). Every IPC operation
  runs \<open>preflight\<close>, its own work, and \<open>complete\<close>; the facade threads the security state of
  the calling process and the global audit ring. The value of the kernel clock is an
  argument of every operation that records an event.
\<close>

section \<open>State and operations\<close>

record ProcessSecurityState =
  sec_credentials :: Credentials
  sec_quota :: QuotaState

definition security_initial :: ProcessSecurityState where
  "security_initial = \<lparr>sec_credentials = cred_initial, sec_quota = quota_initial\<rparr>"

definition security_fork_from :: "ProcessSecurityState \<Rightarrow> ProcessSecurityState" where
  "security_fork_from parent =
     \<lparr>sec_credentials = cred_fork_from (sec_credentials parent),
      sec_quota = quota_fork_from (sec_quota parent)\<rparr>"

record IpcPermit =
  permit_request :: IpcRequest
  permit_reservation :: QuotaReservation

definition preflight ::
  "u64 \<Rightarrow> ProcessSecurityState \<Rightarrow> AuditRing \<Rightarrow> IpcRequest
     \<Rightarrow> IpcPermit IpcResult \<times> ProcessSecurityState \<times> AuditRing" where
  "preflight now state ring request =
     (case authorize request of
        Inl error \<Rightarrow> (Inl error, state, audit_record now request (Inl error) ring)
      | Inr _ \<Rightarrow>
          (case quota_reserve (sec_quota state) request of
             (Inl error, q) \<Rightarrow>
               (Inl error, state\<lparr>sec_quota := q\<rparr>, audit_record now request (Inl error) ring)
           | (Inr reservation, q) \<Rightarrow>
               (Inr \<lparr>permit_request = request, permit_reservation = reservation\<rparr>,
                state\<lparr>sec_quota := q\<rparr>, ring)))"

definition complete ::
  "u64 \<Rightarrow> ProcessSecurityState \<Rightarrow> AuditRing \<Rightarrow> IpcPermit \<Rightarrow> usize IpcResult
     \<Rightarrow> usize IpcResult \<times> ProcessSecurityState \<times> AuditRing" where
  "complete now state ring permit outcome =
     (outcome,
      state\<lparr>sec_quota := quota_finish (sec_quota state) (permit_reservation permit) (\<not> isl outcome)\<rparr>,
      audit_record now (permit_request permit) outcome ring)"

definition record_failure :: "u64 \<Rightarrow> IpcRequest \<Rightarrow> IpcError \<Rightarrow> AuditRing \<Rightarrow> AuditRing" where
  "record_failure now request error ring = audit_record now request (Inl error) ring"

definition reserve_file_fd :: "ProcessSecurityState \<Rightarrow> unit IpcResult \<times> ProcessSecurityState" where
  "reserve_file_fd state =
     (let (r, q) = reserve_files 1 (sec_quota state) in (r, state\<lparr>sec_quota := q\<rparr>))"

definition reserve_dup_fd ::
  "ProcessSecurityState \<Rightarrow> usize \<Rightarrow> bool IpcResult \<times> ProcessSecurityState" where
  "reserve_dup_fd state source_fd =
     (let (r, q) = quota_reserve_dup_fd source_fd (sec_quota state) in (r, state\<lparr>sec_quota := q\<rparr>))"

definition facade_register_pipe_fd :: "ProcessSecurityState \<Rightarrow> usize \<Rightarrow> ProcessSecurityState" where
  "facade_register_pipe_fd state fd = state\<lparr>sec_quota := register_pipe_fd fd (sec_quota state)\<rparr>"

definition facade_unregister_pipe_fd :: "ProcessSecurityState \<Rightarrow> usize \<Rightarrow> ProcessSecurityState" where
  "facade_unregister_pipe_fd state fd = state\<lparr>sec_quota := unregister_pipe_fd fd (sec_quota state)\<rparr>"

definition release_fd :: "ProcessSecurityState \<Rightarrow> usize \<Rightarrow> ProcessSecurityState" where
  "release_fd state fd = state\<lparr>sec_quota := quota_release_fd fd (sec_quota state)\<rparr>"

section \<open>The history grows by the recorded events\<close>

text \<open>
  The events a ring has accepted beyond \<open>hist\<close>, as long as its sequence numbers last.
\<close>

definition hist_record ::
  "u64 \<Rightarrow> IpcRequest \<Rightarrow> usize IpcResult \<Rightarrow> AuditRing \<Rightarrow> AuditEvent list \<Rightarrow> AuditEvent list" where
  "hist_record now request outcome ring hist =
     (if req_operation request = AuditRead \<and> \<not> isl outcome then hist
      else hist_push ring hist (from_request request outcome now))"

lemma audit_record_inv:
  "audit_inv ring hist \<Longrightarrow>
     audit_inv (audit_record now request outcome ring) (hist_record now request outcome ring hist)"
  by (simp add: audit_record_def hist_record_def ring_push_inv)

lemma from_request_fields [simp]:
  "ev_operation (from_request rq out now) = operation_to_audit_id (req_operation rq)"
  "ev_subject_pid (from_request rq out now) = subj_pid (req_subject rq)"
  "ev_subject_uid (from_request rq out now) = subj_uid (req_subject rq)"
  "ev_object_id (from_request rq out now) = obj_id (req_object rq)"
  "ev_object_owner_uid (from_request rq out now) = obj_owner_uid (req_object rq)"
  "ev_requested_amount (from_request rq out now) = req_amount rq"
  "ev_errno (from_request rq (Inl e) now) = error_to_errno e"
  "ev_errno (from_request rq (Inr v) now) = 0"
  "ev_result_value (from_request rq (Inl e) now) = 0"
  by (simp_all add: from_request_def Let_def split: sum.splits)

lemma error_to_errno_pos: "0 < error_to_errno e"
  by (cases e) auto

lemma quota_reserve_Inl: "quota_reserve q rq = (Inl e, q') \<Longrightarrow> q' = q"
  by (auto simp: quota_reserve_def reserve_pipe_fds_def split: IpcOperation.splits option.splits if_splits)

section \<open>Properties of the facade\<close>

text \<open>
  C11: a refused preflight leaves the security state of the process as it was and records
  exactly one failure event, which names the caller, the object and the error; a granted
  preflight records nothing.
\<close>

theorem preflight_audits_refusals:
  assumes "audit_inv ring hist" and "ring_next_sequence ring \<noteq> - 1"
  shows "case preflight now state ring rq of
           (Inl e, state', ring') \<Rightarrow>
             state' = state \<and>
             (\<exists>ev. audit_inv ring' (hist @ [ev])
                 \<and> ev_errno ev = error_to_errno e \<and> ev_errno ev \<noteq> 0 \<and> ev_result_value ev = 0
                 \<and> ev_subject_pid ev = subj_pid (req_subject rq)
                 \<and> ev_subject_uid ev = subj_uid (req_subject rq)
                 \<and> ev_object_id ev = obj_id (req_object rq))
         | (Inr _, _, ring') \<Rightarrow> ring' = ring"
proof -
  let ?ev = "\<lambda>e. (from_request rq (Inl e) now)\<lparr>ev_sequence := ring_next_sequence ring\<rparr>"
  have "audit_inv (audit_record now rq (Inl e) ring) (hist @ [?ev e])" for e
    using audit_record_inv [OF assms(1), of now rq "Inl e"] assms(2)
    by (simp add: hist_record_def hist_push_def)
  moreover have "error_to_errno e \<noteq> 0" for e using error_to_errno_pos [of e] by simp
  ultimately have refused: "\<exists>ev. audit_inv (audit_record now rq (Inl e) ring) (hist @ [ev])
                 \<and> ev_errno ev = error_to_errno e \<and> ev_errno ev \<noteq> 0 \<and> ev_result_value ev = 0
                 \<and> ev_subject_pid ev = subj_pid (req_subject rq)
                 \<and> ev_subject_uid ev = subj_uid (req_subject rq)
                 \<and> ev_object_id ev = obj_id (req_object rq)" for e
    by (intro exI [of _ "?ev e"]) simp
  show ?thesis
  proof (cases "authorize rq")
    case (Inl e)
    then show ?thesis using refused by (simp add: preflight_def)
  next
    case (Inr u)
    obtain res q where res: "quota_reserve (sec_quota state) rq = (res, q)" by fastforce
    show ?thesis
    proof (cases res)
      case (Inl e)
      with res have "q = sec_quota state" by (simp add: quota_reserve_Inl)
      then show ?thesis using Inr Inl res refused by (simp add: preflight_def)
    qed (use Inr res in \<open>simp add: preflight_def\<close>)
  qed
qed

lemma complete_rolls_back:
  assumes "quota_repr (sec_quota state) F P rf rp"
    and "preflight now state ring rq = (Inr permit, state', ring')"
  shows "fst (snd (complete now' state' ring'' permit (Inl e))) = state"
proof -
  obtain res q where res: "quota_reserve (sec_quota state) rq = (res, q)" by fastforce
  with assms(2) have p: "res = Inr (permit_reservation permit)" "state' = state\<lparr>sec_quota := q\<rparr>"
    by (auto simp: preflight_def split: sum.splits)
  have "quota_finish q (permit_reservation permit) False = sec_quota state"
  proof (cases "req_operation rq = PipeCreate")
    case True
    then have charged: "reserve_pipe_fds 2 (sec_quota state) = (Inr (), q)"
      and r: "permit_reservation permit = \<lparr>res_kind = QR_PipeFds, res_amount = 2\<rparr>"
      using res p by (auto simp: quota_reserve_def model_defs split: sum.splits prod.splits)
    then have "q = (sec_quota state)\<lparr>open_files := open_files (sec_quota state) + 2,
                     open_pipes := open_pipes (sec_quota state) + 2\<rparr>"
      and le: "card F + rf + 2 \<le> 32" "card P + rp + 2 \<le> 16"
      using reserve_pipe_fds_cases [OF assms(1), of 2] by (auto split: if_splits)
    moreover have "saturating_sub (w + 2) 2 = w" if "unat w \<le> 32" for w :: usize
      using that unat_add_lem' [of w 2] by (simp add: saturating_sub_def word_le_nat_alt)
    ultimately show ?thesis
      using quota_reprD(5-8) [OF assms(1)] by (simp add: quota_finish_def r release_pipe_fds_def)
  next
    case False
    then have "permit_reservation permit = \<lparr>res_kind = QR_None, res_amount = 0\<rparr>" "q = sec_quota state"
      using res p by (auto simp: quota_reserve_def split: IpcOperation.splits)
    then show ?thesis by (simp add: quota_finish_def)
  qed
  with p show ?thesis by (simp add: complete_def)
qed

text \<open>
  C12: an operation that fails after its preflight gives back exactly what the preflight
  charged: the security state of the process is again the one before the request.
\<close>

theorem failed_operation_restores_quota:
  assumes "quota_repr (sec_quota state) F P rf rp"
    and "preflight now state ring rq = (Inr permit, state', ring')"
  shows "fst (snd (complete now' state' ring'' permit (Inl e))) = state"
  by (rule complete_rolls_back [OF assms])

definition sample_request :: IpcRequest where
  "sample_request =
     \<lparr>req_subject = \<lparr>subj_pid = 7, subj_uid = 1000, subj_capabilities = cap_empty\<rparr>,
      req_object = \<lparr>obj_id = 9, obj_owner_uid = 0\<rparr>, req_operation = SignalSend, req_amount = 1\<rparr>"

theorem preflight_audits_refusals_witness:
  "audit_inv ring_new [] \<and> ring_next_sequence ring_new \<noteq> - 1
   \<and> fst (preflight 5 security_initial ring_new sample_request) = Inl PermissionDenied
   \<and> (\<exists>ev. audit_inv (snd (snd (preflight 5 security_initial ring_new sample_request))) [ev]
         \<and> ev_errno ev = 1 \<and> ev_subject_uid ev = 1000)"
proof -
  have nx: "ring_next_sequence ring_new \<noteq> - 1" by (simp add: ring_new_def)
  have "fst (preflight 5 security_initial ring_new sample_request) = Inl PermissionDenied"
    by (simp add: preflight_def authorize_def authorize_signal_def sample_request_def)
  with nx show ?thesis
    using preflight_audits_refusals [OF audit_inv_new nx, where now = 5 and state = security_initial
        and rq = sample_request]
      audit_inv_new
    by (auto simp: sample_request_def split: prod.splits)
qed

theorem failed_operation_restores_quota_witness:
  "\<exists>permit state' ring'.
     preflight 5 security_initial ring_new (sample_request\<lparr>req_operation := PipeCreate\<rparr>)
       = (Inr permit, state', ring')
     \<and> open_files (sec_quota state') = 5
     \<and> fst (snd (complete 6 state' ring' permit (Inl InvalidAddress))) = security_initial"
proof -
  have repr: "quota_repr (sec_quota security_initial) {0, 1, 2} {} 0 0"
    using quota_repr_initial by (simp add: security_initial_def)
  let ?pf = "preflight 5 security_initial ring_new (sample_request\<lparr>req_operation := PipeCreate\<rparr>)"
  have "quota_reserve (sec_quota security_initial) (sample_request\<lparr>req_operation := PipeCreate\<rparr>)
      = (Inr \<lparr>res_kind = QR_PipeFds, res_amount = 2\<rparr>,
         quota_initial\<lparr>open_files := 5, open_pipes := 2\<rparr>)"
    using reserve_pipe_fds_cases [OF quota_repr_initial, of 2]
    by (simp add: quota_reserve_def sample_request_def security_initial_def model_defs quota_initial_def)
  then obtain permit state' ring' where pf: "?pf = (Inr permit, state', ring')"
    and "open_files (sec_quota state') = 5"
    by (auto simp: preflight_def authorize_def sample_request_def quota_initial_def)
  then show ?thesis
    using failed_operation_restores_quota [OF repr pf, where now' = 6 and ring'' = ring' and e = InvalidAddress] by blast
qed

end
