(* ===== verification/Signal.thy ===== *)
theory Signal
  imports Bytes
begin

text \<open>
  Signals (os/src/task/signal.rs, os/src/task/action.rs): the flag set of pending or masked
  signals is the 32-bit word of its bits, all of which are declared, so \<open>from_bits\<close> accepts
  every word. The message texts of \<open>check_error\<close> are console output and are left out.
\<close>

section \<open>Flags\<close>

type_synonym SignalFlags = u32

definition MAX_SIG :: usize where "MAX_SIG = 31"

definition SIGDEF :: SignalFlags where "SIGDEF = 1"
definition SIGINT :: SignalFlags where "SIGINT = push_bit 2 1"
definition SIGILL :: SignalFlags where "SIGILL = push_bit 4 1"
definition SIGABRT :: SignalFlags where "SIGABRT = push_bit 6 1"
definition SIGFPE :: SignalFlags where "SIGFPE = push_bit 8 1"
definition SIGKILL :: SignalFlags where "SIGKILL = push_bit 9 1"
definition SIGSEGV :: SignalFlags where "SIGSEGV = push_bit 11 1"
definition SIGCONT :: SignalFlags where "SIGCONT = push_bit 18 1"
definition SIGSTOP :: SignalFlags where "SIGSTOP = push_bit 19 1"

lemmas signal_consts =
  SIGDEF_def SIGINT_def SIGILL_def SIGABRT_def SIGFPE_def SIGKILL_def SIGSEGV_def SIGCONT_def SIGSTOP_def

definition sig_contains :: "SignalFlags \<Rightarrow> SignalFlags \<Rightarrow> bool" where
  "sig_contains self other \<longleftrightarrow> self AND other = other"

definition sig_insert :: "SignalFlags \<Rightarrow> SignalFlags \<Rightarrow> SignalFlags" where
  "sig_insert self other = self OR other"

definition sig_from_bits :: "u32 \<Rightarrow> SignalFlags option" where
  "sig_from_bits bits = (if bits AND NOT (- 1) = 0 then Some bits else None)"

text \<open>\<open>1 << sig\<close>.\<close>

definition sig_bit :: "nat \<Rightarrow> SignalFlags" where
  "sig_bit sig = push_bit sig 1"

definition check_error :: "SignalFlags \<Rightarrow> i32 option" where
  "check_error self =
     (if sig_contains self SIGINT then Some (- 2)
      else if sig_contains self SIGILL then Some (- 4)
      else if sig_contains self SIGABRT then Some (- 6)
      else if sig_contains self SIGFPE then Some (- 8)
      else if sig_contains self SIGKILL then Some (- 9)
      else if sig_contains self SIGSEGV then Some (- 11)
      else None)"

section \<open>Actions\<close>

record SignalAction =
  sa_handler :: usize
  sa_mask :: SignalFlags

definition sigaction_default :: SignalAction where
  "sigaction_default = \<lparr>sa_handler = 0, sa_mask = 40\<rparr>"

type_synonym SignalActions = "SignalAction list"

definition signal_actions_default :: SignalActions where
  "signal_actions_default = replicate (unat MAX_SIG + 1) sigaction_default"

text \<open>
  The memory of a \<open>SignalAction\<close>: the handler, the mask, and padding up to the alignment of
  sixteen bytes, whose content is not defined by the language.
\<close>

definition sigaction_bytes :: "u8 list \<Rightarrow> SignalAction \<Rightarrow> u8 list" where
  "sigaction_bytes padding a = le_bytes 8 (sa_handler a) @ le_bytes 4 (sa_mask a) @ take 4 (padding @ replicate 4 0)"

definition sigaction_from_bytes :: "u8 list \<Rightarrow> SignalAction" where
  "sigaction_from_bytes bs = \<lparr>sa_handler = le_word (take 8 bs), sa_mask = le_word (take 4 (drop 8 bs))\<rparr>"

section \<open>Flags as sets\<close>

definition sig_set :: "SignalFlags \<Rightarrow> nat set" where
  "sig_set f = {n. n < 32 \<and> bit f n}"

lemma sig_from_bits_all [simp]: "sig_from_bits b = Some b"
  by (simp add: sig_from_bits_def)

lemma bit_sig_bit: "bit (sig_bit n) k \<longleftrightarrow> k = n \<and> n < 32"
  by (auto simp: sig_bit_def bit_exp_iff)

lemma sig_consts_bit:
  "SIGDEF = sig_bit 0" "SIGINT = sig_bit 2" "SIGILL = sig_bit 4" "SIGABRT = sig_bit 6" "SIGFPE = sig_bit 8"
  "SIGKILL = sig_bit 9" "SIGSEGV = sig_bit 11" "SIGCONT = sig_bit 18" "SIGSTOP = sig_bit 19"
  by (simp_all add: signal_consts sig_bit_def)

lemma sig_contains_bit: "n < 32 \<Longrightarrow> sig_contains f (sig_bit n) \<longleftrightarrow> n \<in> sig_set f"
proof -
  assume n: "n < 32"
  have "f AND sig_bit n = sig_bit n \<longleftrightarrow> bit f n"
  proof
    assume "f AND sig_bit n = sig_bit n"
    then have "bit (f AND sig_bit n) n = bit (sig_bit n) n" by simp
    then show "bit f n" using n by (simp add: bit_and_iff bit_sig_bit)
  next
    assume "bit f n"
    then show "f AND sig_bit n = sig_bit n"
      by (intro bit_word_eqI) (auto simp: bit_and_iff bit_sig_bit)
  qed
  then show ?thesis using n by (simp add: sig_contains_def sig_set_def)
qed

lemma sig_set_insert: "n < 32 \<Longrightarrow> sig_set (sig_insert f (sig_bit n)) = insert n (sig_set f)"
  by (auto simp: sig_set_def sig_insert_def bit_or_iff bit_sig_bit)

lemma sig_set_xor: "n \<in> sig_set f \<Longrightarrow> sig_set (f XOR sig_bit n) = sig_set f - {n}"
  by (auto simp: sig_set_def bit_xor_iff bit_sig_bit)

lemma sig_bit_eq_iff: "n < 32 \<Longrightarrow> sig_bit n = sig_bit k \<longleftrightarrow> n = k"
  by (metis bit_sig_bit)

lemma sig_bit_or: "sig_insert f (sig_bit n) = f \<or> n \<notin> sig_set f"
  by (auto simp: sig_insert_def sig_set_def intro!: bit_word_eqI simp: bit_or_iff bit_sig_bit)

text \<open>The signals that end a process when they are pending.\<close>

lemma check_error_None:
  "check_error f = None \<longleftrightarrow> sig_set f \<inter> {2, 4, 6, 8, 9, 11} = {}"
  by (auto simp: check_error_def sig_consts_bit sig_contains_bit)

lemma check_error_Some: "check_error f = Some e \<Longrightarrow> e < 0"
  by (auto simp: check_error_def split: if_splits)

lemma sigaction_bytes_roundtrip: "sigaction_from_bytes (sigaction_bytes p a) = a"
  by (simp add: sigaction_from_bytes_def sigaction_bytes_def)

lemma length_sigaction_bytes: "length (sigaction_bytes p a) = 16"
  by (simp add: sigaction_bytes_def)

end
