(* ===== verification/Trap_Context.thy ===== *)
theory Trap_Context
  imports Phys_Mem
begin

text \<open>
  Trap contexts (os/src/trap/context.rs). A process keeps its trap context at the start of
  a frame of its address space; the kernel reads and writes it there as 37 words. The value
  of \<open>sstatus\<close> with the previous privilege set to user mode comes from the processor and is
  an argument.
\<close>

record TrapContext =
  tc_x :: "usize list"
  tc_sstatus :: usize
  tc_sepc :: usize
  tc_kernel_satp :: usize
  tc_kernel_sp :: usize
  tc_trap_handler :: usize

definition set_sp :: "usize \<Rightarrow> TrapContext \<Rightarrow> TrapContext" where
  "set_sp sp cx = cx\<lparr>tc_x := (tc_x cx)[2 := sp]\<rparr>"

definition app_init_context ::
    "usize \<Rightarrow> usize \<Rightarrow> usize \<Rightarrow> usize \<Rightarrow> usize \<Rightarrow> usize \<Rightarrow> TrapContext" where
  "app_init_context user_sstatus entry sp kernel_satp kernel_sp trap_handler =
     (let cx = \<lparr>tc_x = replicate 32 0, tc_sstatus = user_sstatus, tc_sepc = entry,
                tc_kernel_satp = kernel_satp, tc_kernel_sp = kernel_sp, tc_trap_handler = trap_handler\<rparr>
      in set_sp sp cx)"

text \<open>The context stored at the start of a frame (\<open>PhysPageNum::get_mut\<close>).\<close>

definition trap_cx_at :: "phys_mem \<Rightarrow> PhysPageNum \<Rightarrow> TrapContext" where
  "trap_cx_at m ppn =
     \<lparr>tc_x = map (get_pte_array m ppn) [0..<32], tc_sstatus = get_pte_array m ppn 32,
      tc_sepc = get_pte_array m ppn 33, tc_kernel_satp = get_pte_array m ppn 34,
      tc_kernel_sp = get_pte_array m ppn 35, tc_trap_handler = get_pte_array m ppn 36\<rparr>"

definition trap_cx_words :: "TrapContext \<Rightarrow> usize list" where
  "trap_cx_words cx = tc_x cx @ [tc_sstatus cx, tc_sepc cx, tc_kernel_satp cx, tc_kernel_sp cx, tc_trap_handler cx]"

fun write_words :: "PhysPageNum \<Rightarrow> nat \<Rightarrow> usize list \<Rightarrow> phys_mem \<Rightarrow> phys_mem" where
  "write_words ppn i [] m = m"
| "write_words ppn i (w # ws) m = write_words ppn (Suc i) ws (write_pte ppn i w m)"

definition set_trap_cx :: "PhysPageNum \<Rightarrow> TrapContext \<Rightarrow> phys_mem \<Rightarrow> phys_mem" where
  "set_trap_cx ppn cx m = write_words ppn 0 (trap_cx_words cx) m"

definition cx_ok :: "TrapContext \<Rightarrow> bool" where
  "cx_ok cx \<longleftrightarrow> length (tc_x cx) = 32"

lemma write_words_other: "q \<noteq> ppn \<Longrightarrow> write_words ppn i ws m q = m q"
  by (induction ws arbitrary: i m) (auto simp: write_pte_def)

lemma get_write_words:
  "get_pte_array (write_words ppn i ws m) ppn j =
     (if i \<le> j \<and> j < i + length ws then ws ! (j - i) else get_pte_array m ppn j)"
proof (induction ws arbitrary: i m)
  case (Cons w ws)
  show ?case
    by (auto simp: Cons.IH get_pte_array_write nth_Cons' split: if_splits)
qed auto

lemma trap_cx_ok [simp]: "cx_ok (trap_cx_at m ppn)"
  by (simp add: cx_ok_def trap_cx_at_def)

lemma cx_ok_app_init [simp]: "cx_ok (app_init_context s e sp ks kp th)"
  by (simp add: cx_ok_def app_init_context_def set_sp_def)

lemma trap_cx_at_set:
  assumes "cx_ok cx"
  shows "trap_cx_at (set_trap_cx ppn cx m) ppn = cx"
proof -
  have w: "get_pte_array (set_trap_cx ppn cx m) ppn j = trap_cx_words cx ! j" if "j < 37" for j
    using that assms by (simp add: set_trap_cx_def get_write_words trap_cx_words_def cx_ok_def)
  have "map (get_pte_array (set_trap_cx ppn cx m) ppn) [0..<32] = tc_x cx"
    using assms by (intro nth_equalityI) (auto simp: w trap_cx_words_def cx_ok_def nth_append)
  then show ?thesis
    using assms by (simp add: trap_cx_at_def w trap_cx_words_def cx_ok_def nth_append)
qed

lemma set_trap_cx_other: "q \<noteq> ppn \<Longrightarrow> set_trap_cx ppn cx m q = m q"
  by (simp add: set_trap_cx_def write_words_other)

lemma trap_cx_at_cong: "m' ppn = m ppn \<Longrightarrow> trap_cx_at m' ppn = trap_cx_at m ppn"
  using get_pte_array_cong [of m' ppn m] by (simp add: trap_cx_at_def)

end
