(* ===== verification/Task.thy ===== *)
theory Task
  imports Memory_Set User_Access Pipe Security_Facade Signal Trap_Context "HOL-Library.AList"
begin

text \<open>
  Processes and the scheduler (os/src/task). The kernel state holds the physical memory, the
  task control blocks by PID, the ready queue, the table of PIDs, and the objects the tasks
  share: pipe buffers, open file objects, the audit ring and the file system. An operation
  takes the state and yields its result and the new state; \<open>None\<close> means that the kernel does
  not get past the operation, because it panics.

  A saved task context is the point of the kernel at which the task goes on when it is
  switched to, with the local variables that are alive there. Everything the kernel gets from
  outside is in the \<open>platform\<close>: the successive values of the time register and of the console
  input, addresses fixed by the linker, the ELF parser, and the file system operations.
\<close>

section \<open>The platform\<close>

record ('fs, 'inode) platform =
  pf_time :: "nat \<Rightarrow> usize"
  pf_clock_freq :: usize
  pf_getchar :: "nat \<Rightarrow> usize"
  pf_user_sstatus :: usize
  pf_strampoline :: usize
  pf_trap_handler :: usize
  pf_elf :: "u8 list \<Rightarrow> ElfFile option"
  pf_padding :: "u8 list"
  fs_find :: "u8 list \<Rightarrow> 'fs \<Rightarrow> ('inode option \<times> 'fs) option"
  fs_create :: "u8 list \<Rightarrow> 'fs \<Rightarrow> ('inode option \<times> 'fs) option"
  fs_clear :: "'inode \<Rightarrow> 'fs \<Rightarrow> 'fs option"
  fs_read_at :: "'inode \<Rightarrow> usize \<Rightarrow> nat \<Rightarrow> 'fs \<Rightarrow> (u8 list \<times> 'fs) option"
  fs_write_at :: "'inode \<Rightarrow> usize \<Rightarrow> u8 list \<Rightarrow> 'fs \<Rightarrow> (usize \<times> 'fs) option"

definition MSEC_PER_SEC :: usize where "MSEC_PER_SEC = 1000"
definition TICKS_PER_SEC :: usize where "TICKS_PER_SEC = 100"

section \<open>Tasks and the kernel state\<close>

record 'inode OSInode =
  osi_readable :: bool
  osi_writable :: bool
  osi_offset :: usize
  osi_inode :: 'inode

text \<open>An open file; \<open>OSInode\<close> objects are shared between descriptors and named by a number.\<close>

datatype FileRef = F_Stdin | F_Stdout | F_Pipe Pipe | F_OSInode nat

datatype TaskStatus = Ready | Running | Zombie

text \<open>
  Where a task goes on. A reader or writer of a pipe keeps the places of its buffer, and the
  permit of the operation it is in.
\<close>

datatype TaskContext =
    Cx_zero
  | Cx_trap_return usize
  | Cx_yield
  | Cx_timer
  | Cx_frozen
  | Cx_stdin "slice list"
  | Cx_pipe_read Pipe "(PhysPageNum \<times> nat) list" nat "u8 list" "IpcPermit option"
  | Cx_pipe_write Pipe "(PhysPageNum \<times> nat) list" nat "IpcPermit option"

definition zero_init :: TaskContext where
  "zero_init = Cx_zero"

definition goto_trap_return :: "usize \<Rightarrow> TaskContext" where
  "goto_trap_return kstack_ptr = Cx_trap_return kstack_ptr"

record TaskControlBlock =
  trap_cx_ppn :: PhysPageNum
  base_size :: usize
  task_cx :: TaskContext
  task_status :: TaskStatus
  memory_set :: MemorySet
  parent :: "usize option"
  children :: "usize list"
  exit_code :: i32
  fd_table :: "FileRef option list"
  security :: ProcessSecurityState
  signals :: SignalFlags
  signal_mask :: SignalFlags
  handling_sig :: isize
  signal_actions :: SignalActions
  killed :: bool
  frozen :: bool
  trap_ctx_backup :: "TrapContext option"

record ('fs, 'inode) kernel =
  k_phys :: phys
  k_space :: MemorySet
  k_pids :: PidAllocator
  k_tasks :: "(usize \<times> TaskControlBlock) list"
  k_pid2task :: "(usize \<times> usize) list"
  k_ready :: "usize list"
  k_current :: "usize option"
  k_initproc :: usize
  k_pipes :: PipeStore
  k_inodes :: "'inode OSInode list"
  k_audit :: AuditRing
  k_fs :: 'fs
  k_ticks :: nat
  k_chars :: nat
  k_output :: "u8 list"
  k_timer :: usize

definition IDLE_PID :: usize where "IDLE_PID = 1"

abbreviation k_mem :: "('fs, 'inode) kernel \<Rightarrow> phys_mem" where
  "k_mem k \<equiv> ph_mem (k_phys k)"

definition set_mem :: "phys_mem \<Rightarrow> ('fs, 'inode) kernel \<Rightarrow> ('fs, 'inode) kernel" where
  "set_mem m k = k\<lparr>k_phys := (k_phys k)\<lparr>ph_mem := m\<rparr>\<rparr>"

definition tcb :: "('fs, 'inode) kernel \<Rightarrow> usize \<Rightarrow> TaskControlBlock option" where
  "tcb k pid = map_of (k_tasks k) pid"

definition set_tcb :: "usize \<Rightarrow> TaskControlBlock \<Rightarrow> ('fs, 'inode) kernel \<Rightarrow> ('fs, 'inode) kernel" where
  "set_tcb pid t k = k\<lparr>k_tasks := AList.update pid t (k_tasks k)\<rparr>"

text \<open>\<open>current_task().unwrap()\<close> with its inner state.\<close>

definition current_task :: "('fs, 'inode) kernel \<Rightarrow> (usize \<times> TaskControlBlock) option" where
  "current_task k = do { pid \<leftarrow> k_current k; t \<leftarrow> tcb k pid; Some (pid, t) }"

definition get_user_token :: "TaskControlBlock \<Rightarrow> usize" where
  "get_user_token t = ms_token (memory_set t)"

definition current_user_token :: "('fs, 'inode) kernel \<Rightarrow> usize option" where
  "current_user_token k = do { (pid, t) \<leftarrow> current_task k; Some (get_user_token t) }"

definition get_trap_cx :: "TaskControlBlock \<Rightarrow> ('fs, 'inode) kernel \<Rightarrow> TrapContext" where
  "get_trap_cx t k = trap_cx_at (k_mem k) (trap_cx_ppn t)"

definition put_trap_cx :: "TaskControlBlock \<Rightarrow> TrapContext \<Rightarrow> ('fs, 'inode) kernel \<Rightarrow> ('fs, 'inode) kernel" where
  "put_trap_cx t cx k = set_mem (set_trap_cx (trap_cx_ppn t) cx (k_mem k)) k"

definition current_trap_cx :: "('fs, 'inode) kernel \<Rightarrow> TrapContext option" where
  "current_trap_cx k = do { (pid, t) \<leftarrow> current_task k; Some (get_trap_cx t k) }"

definition is_zombie :: "TaskControlBlock \<Rightarrow> bool" where
  "is_zombie t \<longleftrightarrow> task_status t = Zombie"

text \<open>The lowest free descriptor; the table grows when there is none.\<close>

definition alloc_fd :: "TaskControlBlock \<Rightarrow> nat \<times> TaskControlBlock" where
  "alloc_fd t =
     (case position (\<lambda>f. f = None) (fd_table t) of
        Some fd \<Rightarrow> (fd, t)
      | None \<Rightarrow> let t = t\<lparr>fd_table := fd_table t @ [None]\<rparr> in (length (fd_table t) - 1, t))"

section \<open>The clock\<close>

definition get_time :: "('fs, 'inode) platform \<Rightarrow> ('fs, 'inode) kernel \<Rightarrow> usize \<times> ('fs, 'inode) kernel" where
  "get_time pf k = (pf_time pf (k_ticks k), k\<lparr>k_ticks := k_ticks k + 1\<rparr>)"

text \<open>The division panics when the clock has less than 1000 ticks per second.\<close>

definition get_time_ms :: "('fs, 'inode) platform \<Rightarrow> ('fs, 'inode) kernel \<Rightarrow> (usize \<times> ('fs, 'inode) kernel) option" where
  "get_time_ms pf k =
     (let (time, k) = get_time pf k; ticks = pf_clock_freq pf div MSEC_PER_SEC
      in if ticks = 0 then None else Some (time div ticks, k))"

definition set_next_trigger :: "('fs, 'inode) platform \<Rightarrow> ('fs, 'inode) kernel \<Rightarrow> ('fs, 'inode) kernel" where
  "set_next_trigger pf k =
     (let (time, k) = get_time pf k in k\<lparr>k_timer := time + pf_clock_freq pf div TICKS_PER_SEC\<rparr>)"

section \<open>Kernel stacks\<close>

definition kernel_stack_new :: "usize \<Rightarrow> ('fs, 'inode) kernel \<Rightarrow> ('fs, 'inode) kernel option" where
  "kernel_stack_new pid k =
     do { let (kernel_stack_bottom, kernel_stack_top) = kernel_stack_position pid;
          (ms, ph) \<leftarrow> insert_framed_area (va_from_usize kernel_stack_bottom) (va_from_usize kernel_stack_top)
                        (PTE_R OR PTE_W) (k_space k) (k_phys k);
          Some (k\<lparr>k_space := ms, k_phys := ph\<rparr>) }"

definition kernel_stack_top :: "usize \<Rightarrow> usize" where
  "kernel_stack_top pid = snd (kernel_stack_position pid)"

definition kernel_stack_drop :: "usize \<Rightarrow> ('fs, 'inode) kernel \<Rightarrow> ('fs, 'inode) kernel option" where
  "kernel_stack_drop pid k =
     do { let (kernel_stack_bottom, _) = kernel_stack_position pid;
          vpn \<leftarrow> vpn_from_va (va_from_usize kernel_stack_bottom);
          (ms, ph) \<leftarrow> remove_area_with_start_vpn vpn (k_space k) (k_phys k);
          Some (k\<lparr>k_space := ms, k_phys := ph\<rparr>) }"

definition alloc_pid :: "('fs, 'inode) kernel \<Rightarrow> usize \<times> ('fs, 'inode) kernel" where
  "alloc_pid k = (let (pid, a) = pid_alloc (k_pids k) in (pid, k\<lparr>k_pids := a\<rparr>))"

section \<open>The task manager and the processor\<close>

definition add_task :: "usize \<Rightarrow> ('fs, 'inode) kernel \<Rightarrow> ('fs, 'inode) kernel" where
  "add_task pid k = k\<lparr>k_pid2task := bt_insert pid pid (k_pid2task k), k_ready := k_ready k @ [pid]\<rparr>"

definition fetch_task :: "('fs, 'inode) kernel \<Rightarrow> usize option \<times> ('fs, 'inode) kernel" where
  "fetch_task k =
     (case k_ready k of [] \<Rightarrow> (None, k) | pid # rest \<Rightarrow> (Some pid, k\<lparr>k_ready := rest\<rparr>))"

definition pid2task :: "('fs, 'inode) kernel \<Rightarrow> usize \<Rightarrow> usize option" where
  "pid2task k pid = map_of (k_pid2task k) pid"

definition remove_from_pid2task :: "usize \<Rightarrow> ('fs, 'inode) kernel \<Rightarrow> ('fs, 'inode) kernel option" where
  "remove_from_pid2task pid k =
     (if pid2task k pid = None then None else Some (k\<lparr>k_pid2task := bt_remove pid (k_pid2task k)\<rparr>))"

definition take_current_task :: "('fs, 'inode) kernel \<Rightarrow> (usize \<times> ('fs, 'inode) kernel) option" where
  "take_current_task k = do { pid \<leftarrow> k_current k; Some (pid, k\<lparr>k_current := None\<rparr>) }"

text \<open>One turn of the idle loop: the next task, if there is one, becomes the current one.\<close>

definition run_tasks_turn :: "('fs, 'inode) kernel \<Rightarrow> ('fs, 'inode) kernel option" where
  "run_tasks_turn k =
     (case fetch_task k of
        (None, k) \<Rightarrow> Some k
      | (Some pid, k) \<Rightarrow>
          do { t \<leftarrow> tcb k pid;
               Some ((set_tcb pid (t\<lparr>task_status := Running\<rparr>) k)\<lparr>k_current := Some pid\<rparr>) })"

definition suspend_current_and_run_next ::
    "TaskContext \<Rightarrow> ('fs, 'inode) kernel \<Rightarrow> ('fs, 'inode) kernel option" where
  "suspend_current_and_run_next cx k =
     do { (pid, k) \<leftarrow> take_current_task k;
          t \<leftarrow> tcb k pid;
          Some (add_task pid (set_tcb pid (t\<lparr>task_status := Ready, task_cx := cx\<rparr>) k)) }"

end
