(* ===== verification/Process.thy ===== *)
theory Process
  imports Task
begin

text \<open>
  The life of a process: creation, fork, exec and exit (os/src/task/task.rs, os/src/task/mod.rs),
  and the end of a task control block when its last owner drops it. A string of the kernel is
  the list of its characters, each the code of one byte; \<open>utf8_bytes\<close> is how Rust stores it.
\<close>

section \<open>Strings\<close>

definition utf8_char :: "u8 \<Rightarrow> u8 list" where
  "utf8_char c = (if c < 0x80 then [c] else [0xC0 OR drop_bit 6 c, 0x80 OR (c AND 0x3F)])"

definition utf8_bytes :: "u8 list \<Rightarrow> u8 list" where
  "utf8_bytes s = concat (map utf8_char s)"

section \<open>Creation\<close>

definition trap_context_ppn :: "phys_mem \<Rightarrow> MemorySet \<Rightarrow> PhysPageNum option" where
  "trap_context_ppn m ms =
     do { vpn \<leftarrow> vpn_from_va (va_from_usize TRAP_CONTEXT); pte \<leftarrow> ms_translate m ms vpn; Some (pte_ppn pte) }"

definition task_new ::
    "('fs, 'inode) platform \<Rightarrow> u8 list \<Rightarrow> ('fs, 'inode) kernel \<Rightarrow> (usize \<times> ('fs, 'inode) kernel) option" where
  "task_new pf elf_data k =
     do { (ms, user_sp, entry_point, ph) \<leftarrow> from_elf (pf_elf pf) (pf_strampoline pf) elf_data (k_phys k);
          let k = k\<lparr>k_phys := ph\<rparr>;
          ppn \<leftarrow> trap_context_ppn (k_mem k) ms;
          let (pid, k) = alloc_pid k;
          k \<leftarrow> kernel_stack_new pid k;
          let t = \<lparr>trap_cx_ppn = ppn, base_size = user_sp, task_cx = goto_trap_return (kernel_stack_top pid),
                   task_status = Ready, memory_set = ms, parent = None, children = [], exit_code = 0,
                   fd_table = [Some F_Stdin, Some F_Stdout, Some F_Stdout], security = security_initial,
                   signals = 0, signal_mask = 0, handling_sig = - 1, signal_actions = signal_actions_default,
                   killed = False, frozen = False, trap_ctx_backup = None\<rparr>;
          let cx = app_init_context (pf_user_sstatus pf) entry_point user_sp (ms_token (k_space k))
                     (kernel_stack_top pid) (pf_trap_handler pf);
          Some (pid, put_trap_cx t cx (set_tcb pid t k)) }"

section \<open>Exec\<close>

text \<open>A checked reference into user memory, and a store through it.\<close>

definition user_ref :: "phys_mem \<Rightarrow> usize \<Rightarrow> usize \<Rightarrow> usize \<Rightarrow> PhysAddr option" where
  "user_ref m tok sz addr =
     (case try_translated_refmut sz sz m tok addr of Some (Some pa) \<Rightarrow> Some pa | _ \<Rightarrow> None)"

definition store_ref :: "PhysAddr \<Rightarrow> u8 list \<Rightarrow> phys_mem \<Rightarrow> phys_mem" where
  "store_ref pa bs m =
     slice_write (pa_floor pa, unat (pa_page_offset pa), unat (pa_page_offset pa) + length bs) bs m"

fun argv_refs :: "phys_mem \<Rightarrow> usize \<Rightarrow> usize \<Rightarrow> nat \<Rightarrow> PhysAddr list option" where
  "argv_refs m tok slot 0 = Some []"
| "argv_refs m tok slot (Suc n) =
     do { pa \<leftarrow> user_ref m tok 8 slot; pas \<leftarrow> argv_refs m tok (slot + 8) n; Some (pa # pas) }"

fun store_arg :: "usize \<Rightarrow> usize \<Rightarrow> u8 list \<Rightarrow> phys_mem \<Rightarrow> phys_mem option" where
  "store_arg tok p [] m = do { pa \<leftarrow> user_ref m tok 1 p; Some (store_ref pa [0] m) }"
| "store_arg tok p (c # cs) m =
     do { pa \<leftarrow> user_ref m tok 1 p; store_arg tok (p + 1) cs (store_ref pa [c] m) }"

fun push_args :: "usize \<Rightarrow> PhysAddr list \<Rightarrow> u8 list list \<Rightarrow> usize \<Rightarrow> phys_mem \<Rightarrow> (usize \<times> phys_mem) option" where
  "push_args tok argv [] user_sp m = Some (user_sp, m)"
| "push_args tok [] (arg # args) user_sp m = None"
| "push_args tok (slot # argv) (arg # args) user_sp m =
     do { let user_sp = user_sp - of_nat (length (utf8_bytes arg) + 1);
          let m = store_ref slot (le_bytes 8 user_sp) m;
          m \<leftarrow> store_arg tok user_sp (utf8_bytes arg) m;
          push_args tok argv args user_sp m }"

definition task_exec ::
    "('fs, 'inode) platform \<Rightarrow> usize \<Rightarrow> u8 list \<Rightarrow> u8 list list \<Rightarrow> ('fs, 'inode) kernel
     \<Rightarrow> ('fs, 'inode) kernel option" where
  "task_exec pf pid elf_data args k =
     do { (ms, user_sp, entry_point, ph) \<leftarrow> from_elf (pf_elf pf) (pf_strampoline pf) elf_data (k_phys k);
          ppn \<leftarrow> trap_context_ppn (ph_mem ph) ms;
          let user_sp = user_sp - of_nat ((length args + 1) * 8);
          let argv_base = user_sp;
          argv \<leftarrow> argv_refs (ph_mem ph) (ms_token ms) argv_base (length args + 1);
          let m = store_ref (argv ! length args) (le_bytes 8 (0 :: usize)) (ph_mem ph);
          (user_sp, m) \<leftarrow> push_args (ms_token ms) argv args user_sp m;
          let user_sp = user_sp - user_sp mod 8;
          t \<leftarrow> tcb k pid;
          ph \<leftarrow> ms_drop (memory_set t) (ph\<lparr>ph_mem := m\<rparr>);
          let t = t\<lparr>memory_set := ms, trap_cx_ppn := ppn\<rparr>;
          let cx = app_init_context (pf_user_sstatus pf) entry_point user_sp (ms_token (k_space k))
                     (kernel_stack_top pid) (pf_trap_handler pf);
          let cx = cx\<lparr>tc_x := (tc_x cx)[10 := of_nat (length args), 11 := argv_base]\<rparr>;
          Some (put_trap_cx t cx (set_tcb pid t (k\<lparr>k_phys := ph\<rparr>))) }"

section \<open>Fork\<close>

definition task_fork ::
    "('fs, 'inode) platform \<Rightarrow> usize \<Rightarrow> ('fs, 'inode) kernel \<Rightarrow> (usize \<times> ('fs, 'inode) kernel) option" where
  "task_fork pf self k =
     do { p \<leftarrow> tcb k self;
          (ms, ph) \<leftarrow> from_existed_user (pf_strampoline pf) (memory_set p) (k_phys k);
          let k = k\<lparr>k_phys := ph\<rparr>;
          ppn \<leftarrow> trap_context_ppn (k_mem k) ms;
          let (pid, k) = alloc_pid k;
          k \<leftarrow> kernel_stack_new pid k;
          let t = \<lparr>trap_cx_ppn = ppn, base_size = base_size p, task_cx = goto_trap_return (kernel_stack_top pid),
                   task_status = Ready, memory_set = ms, parent = Some self, children = [], exit_code = 0,
                   fd_table = fd_table p, security = security_fork_from (security p),
                   signals = 0, signal_mask = signal_mask p, handling_sig = - 1, signal_actions = signal_actions p,
                   killed = False, frozen = False, trap_ctx_backup = None\<rparr>;
          let k = set_tcb self (p\<lparr>children := children p @ [pid]\<rparr>) (set_tcb pid t k);
          Some (pid, put_trap_cx t ((get_trap_cx t k)\<lparr>tc_kernel_sp := kernel_stack_top pid\<rparr>) k) }"

section \<open>Owners of a task\<close>

text \<open>
  The strong references to a task: the lists of children, the PID table, the ready queue, the
  processor and the static \<open>INITPROC\<close>.
\<close>

definition strong_count :: "('fs, 'inode) kernel \<Rightarrow> usize \<Rightarrow> nat" where
  "strong_count k pid =
     sum_list (map (\<lambda>(_, t). count_list (children t) pid) (k_tasks k))
     + (if pid2task k pid = None then 0 else 1) + count_list (k_ready k) pid
     + (if k_current k = Some pid then 1 else 0) + (if k_initproc k = pid then 1 else 0)"

text \<open>
  Dropping a task control block gives back its PID, its kernel stack and its address space, in
  this order. It happens to zombies, whose descriptors and children are gone already.
\<close>

definition tcb_drop :: "usize \<Rightarrow> ('fs, 'inode) kernel \<Rightarrow> ('fs, 'inode) kernel option" where
  "tcb_drop pid k =
     do { t \<leftarrow> tcb k pid;
          a \<leftarrow> pid_dealloc pid (k_pids k);
          k \<leftarrow> kernel_stack_drop pid (k\<lparr>k_pids := a\<rparr>);
          ph \<leftarrow> ms_drop (memory_set t) (k_phys k);
          Some (k\<lparr>k_phys := ph, k_tasks := AList.delete pid (k_tasks k)\<rparr>) }"

section \<open>Exit\<close>

text \<open>How control leaves a piece of the kernel: with a value, to the scheduler, or by shutdown.\<close>

datatype 'a flow = Value 'a | Switched | Halted bool

fun reparent :: "usize list \<Rightarrow> ('fs, 'inode) kernel \<Rightarrow> ('fs, 'inode) kernel option" where
  "reparent [] k = Some k"
| "reparent (c # cs) k =
     do { t \<leftarrow> tcb k c;
          let k = set_tcb c (t\<lparr>parent := Some (k_initproc k)\<rparr>) k;
          i \<leftarrow> tcb k (k_initproc k);
          reparent cs (set_tcb (k_initproc k) (i\<lparr>children := children i @ [c]\<rparr>) k) }"

definition exit_current_and_run_next ::
    "i32 \<Rightarrow> ('fs, 'inode) kernel \<Rightarrow> ('a flow \<times> ('fs, 'inode) kernel) option" where
  "exit_current_and_run_next code k =
     do { (pid, k) \<leftarrow> take_current_task k;
          if pid = IDLE_PID then Some (Halted (code \<noteq> 0), k)
          else do {
            k \<leftarrow> remove_from_pid2task pid k;
            t \<leftarrow> tcb k pid;
            if pid = k_initproc k then None
            else do {
              k \<leftarrow> reparent (children t) (set_tcb pid (t\<lparr>task_status := Zombie, exit_code := code\<rparr>) k);
              t \<leftarrow> tcb k pid;
              (ms, ph) \<leftarrow> recycle_data_pages (memory_set t) (k_phys k);
              let k = set_tcb pid (t\<lparr>children := [], memory_set := ms, fd_table := []\<rparr>) (k\<lparr>k_phys := ph\<rparr>);
              k \<leftarrow> (if strong_count k pid = 0 then tcb_drop pid k else Some k);
              Some (Switched, k) } } }"

end
