(* ===== verification/Process_Model.thy ===== *)
theory Process_Model
  imports Process
begin

text \<open>
  The abstract machine of processes that the kernel implements. Its state is the part of the
  kernel state that says which processes exist, who owns them and who runs; its steps are the
  ways in which one process, the actor, may change that state: its own control block, a signal
  it is entitled to send, a child it creates or reaps, and giving up the processor. The
  invariants of the machine are proved here once; \<open>Kernel_Refinement\<close> shows that every entry
  into the kernel is a run of it.
\<close>

section \<open>State\<close>

record procs =
  p_tasks :: "(usize \<times> TaskControlBlock) list"
  p_pid2task :: "(usize \<times> usize) list"
  p_ready :: "usize list"
  p_current :: "usize option"
  p_initproc :: usize
  p_pids :: PidAllocator

definition procs :: "('fs, 'inode) kernel \<Rightarrow> procs" where
  "procs k = \<lparr>p_tasks = k_tasks k, p_pid2task = k_pid2task k, p_ready = k_ready k, p_current = k_current k,
              p_initproc = k_initproc k, p_pids = k_pids k\<rparr>"

definition p_tcb :: "procs \<Rightarrow> usize \<Rightarrow> TaskControlBlock option" where
  "p_tcb p pid = map_of (p_tasks p) pid"

definition p_set :: "usize \<Rightarrow> TaskControlBlock \<Rightarrow> procs \<Rightarrow> procs" where
  "p_set pid t p = p\<lparr>p_tasks := AList.update pid t (p_tasks p)\<rparr>"

lemma p_tcb_set: "p_tcb (p_set pid t p) q = (if q = pid then Some t else p_tcb p q)"
  by (simp add: p_tcb_def p_set_def update_conv)

lemma p_set_other [simp]:
  "p_pid2task (p_set pid t p) = p_pid2task p" "p_ready (p_set pid t p) = p_ready p"
  "p_current (p_set pid t p) = p_current p" "p_initproc (p_set pid t p) = p_initproc p"
  "p_pids (p_set pid t p) = p_pids p"
  by (simp_all add: p_set_def)

lemma p_tcb_cong [simp]:
  "p_tcb (p\<lparr>p_pid2task := a\<rparr>) = p_tcb p" "p_tcb (p\<lparr>p_ready := b\<rparr>) = p_tcb p"
  "p_tcb (p\<lparr>p_current := c\<rparr>) = p_tcb p" "p_tcb (p\<lparr>p_pids := d\<rparr>) = p_tcb p"
  by (simp_all add: p_tcb_def fun_eq_iff)

lemma p_tcb_in: "x \<in> set (map fst (p_tasks p)) \<longleftrightarrow> p_tcb p x \<noteq> None"
  by (simp add: p_tcb_def map_of_eq_None_iff)

lemma map_fst_update: "map_of al k \<noteq> None \<Longrightarrow> map fst (AList.update k v al) = map fst al"
  by (simp add: update_keys dom_map_of_conv_image_fst flip: map_of_eq_None_iff)

section \<open>Descriptors and signals of a task\<close>

definition open_fds :: "TaskControlBlock \<Rightarrow> nat set" where
  "open_fds t = {i. i < length (fd_table t) \<and> fd_table t ! i \<noteq> None}"

fun is_pipe_file :: "FileRef option \<Rightarrow> bool" where
  "is_pipe_file (Some (F_Pipe p)) = True"
| "is_pipe_file _ = False"

definition pipe_fds :: "TaskControlBlock \<Rightarrow> nat set" where
  "pipe_fds t = {i. i < length (fd_table t) \<and> is_pipe_file (fd_table t ! i)}"

text \<open>
  \<open>acct t rf rp\<close>: the quota of the task counts its open descriptors and \<open>rf\<close> more, and its pipe
  ends in the set \<open>P\<close> that is registered and \<open>rp\<close> more.
\<close>

definition acct :: "TaskControlBlock \<Rightarrow> nat set \<Rightarrow> nat \<Rightarrow> nat \<Rightarrow> bool" where
  "acct t P rf rp \<longleftrightarrow>
     quota_repr (sec_quota (security t)) (open_fds t) P rf rp \<and> length (fd_table t) \<le> 32"

definition fd_inv :: "TaskControlBlock \<Rightarrow> bool" where
  "fd_inv t \<longleftrightarrow> acct t (pipe_fds t) 0 0"

definition sig_inv :: "TaskControlBlock \<Rightarrow> bool" where
  "sig_inv t \<longleftrightarrow>
     length (signal_actions t) = 32 \<and> - 1 \<le> handling_sig t \<and> handling_sig t < 32
     \<and> (case trap_ctx_backup t of None \<Rightarrow> True | Some cx \<Rightarrow> cx_ok cx)"

abbreviation creds :: "TaskControlBlock \<Rightarrow> Credentials" where
  "creds t \<equiv> sec_credentials (security t)"

section \<open>Steps\<close>

text \<open>What a process may change in its own control block.\<close>

inductive self_upd :: "TaskControlBlock \<Rightarrow> TaskControlBlock \<Rightarrow> bool" where
  upd_fds: "t' = t\<lparr>security := (security t)\<lparr>sec_quota := q\<rparr>, fd_table := fs\<rparr> \<Longrightarrow> (fd_inv t \<longrightarrow> fd_inv t')
    \<Longrightarrow> self_upd t t'"
| upd_signals: "t' = t\<lparr>signals := a, signal_mask := b, handling_sig := c, signal_actions := d, killed := e,
      frozen := f, trap_ctx_backup := g\<rparr> \<Longrightarrow> (sig_inv t \<longrightarrow> sig_inv t') \<Longrightarrow> self_upd t t'"
| upd_exec: "self_upd t (t\<lparr>memory_set := ms, trap_cx_ppn := ppn\<rparr>)"
| upd_uid: "is_root (creds t) \<Longrightarrow> (cred_uid c \<noteq> 0 \<longrightarrow> cred_capabilities c = cap_empty)
    \<Longrightarrow> (cred_uid c = 0 \<longrightarrow> c = creds t) \<Longrightarrow> self_upd t (t\<lparr>security := (security t)\<lparr>sec_credentials := c\<rparr>\<rparr>)"

text \<open>The policy for signals: to itself, to the same user, by root, or with the capability.\<close>

definition may_signal :: "usize \<Rightarrow> TaskControlBlock \<Rightarrow> usize \<Rightarrow> TaskControlBlock \<Rightarrow> bool" where
  "may_signal c tc q t \<longleftrightarrow>
     c = q \<or> cred_uid (creds tc) = cred_uid (creds t) \<or> is_root (creds tc)
     \<or> contains (cred_capabilities (creds tc)) KILL"

text \<open>A child as fork creates it.\<close>

definition child_of :: "usize \<Rightarrow> TaskControlBlock \<Rightarrow> TaskControlBlock \<Rightarrow> bool" where
  "child_of self par t \<longleftrightarrow>
     task_status t = Ready \<and> parent t = Some self \<and> children t = [] \<and> fd_table t = fd_table par
     \<and> security t = security par \<and> signals t = 0 \<and> signal_actions t = signal_actions par
     \<and> handling_sig t = - 1 \<and> trap_ctx_backup t = None"

definition enqueue :: "usize \<Rightarrow> procs \<Rightarrow> procs" where
  "enqueue pid p = p\<lparr>p_pid2task := bt_insert pid pid (p_pid2task p), p_ready := p_ready p @ [pid]\<rparr>"

text \<open>How the control blocks look after the process \<open>pid\<close> has exited.\<close>

definition exited :: "procs \<Rightarrow> usize \<Rightarrow> i32 \<Rightarrow> procs \<Rightarrow> bool" where
  "exited p pid code p' \<longleftrightarrow>
     map fst (p_tasks p') = map fst (p_tasks p)
     \<and> (\<forall>q t. p_tcb p q = Some t \<longrightarrow> (\<exists>t'. p_tcb p' q = Some t' \<and>
          (if q = pid then task_status t' = Zombie \<and> exit_code t' = code \<and> children t' = [] \<and> fd_table t' = []
               \<and> security t' = security t \<and> signal_actions t' = signal_actions t
               \<and> handling_sig t' = handling_sig t \<and> trap_ctx_backup t' = trap_ctx_backup t
           else \<exists>pa. t' = t\<lparr>parent := pa, children := children t @
                       (if q = p_initproc p then (case p_tcb p pid of Some e \<Rightarrow> children e | None \<Rightarrow> []) else [])\<rparr>)))
     \<and> p_pid2task p' = bt_remove pid (p_pid2task p) \<and> p_ready p' = p_ready p \<and> p_current p' = None
     \<and> p_initproc p' = p_initproc p \<and> p_pids p' = p_pids p"

text \<open>\<open>pstep c\<close> is a step of the actor \<open>c\<close>.\<close>

inductive pstep :: "usize \<Rightarrow> procs \<Rightarrow> procs \<Rightarrow> bool" for c where
  self: "p_tcb p c = Some t \<Longrightarrow> self_upd t t' \<Longrightarrow> pstep c p (p_set c t' p)"
| signal: "p_tcb p c = Some tc \<Longrightarrow> p_tcb p q = Some t \<Longrightarrow> may_signal c tc q t
    \<Longrightarrow> pstep c p (p_set q (t\<lparr>signals := sig_insert (signals t) flag\<rparr>) p)"
| suspend: "p_current p = Some c \<Longrightarrow> p_tcb p c = Some t
    \<Longrightarrow> pstep c p (enqueue c (p_set c (t\<lparr>task_status := Ready, task_cx := cx\<rparr>) (p\<lparr>p_current := None\<rparr>)))"
| run: "p_current p = None \<Longrightarrow> p_ready p = c # rest \<Longrightarrow> p_tcb p c = Some t
    \<Longrightarrow> pstep c p ((p_set c (t\<lparr>task_status := Running\<rparr>) p)\<lparr>p_ready := rest, p_current := Some c\<rparr>)"
| spawn: "p_tcb p c = Some par \<Longrightarrow> pid_alloc_guarded (p_pids p) = Some (pid, a) \<Longrightarrow> child_of c par t
    \<Longrightarrow> p_current p = Some c
    \<Longrightarrow> pstep c p (enqueue pid (p_set c (par\<lparr>children := children par @ [pid]\<rparr>) (p_set pid t (p\<lparr>p_pids := a\<rparr>))))"
| exit: "p_current p = Some c \<Longrightarrow> c \<noteq> p_initproc p \<Longrightarrow> exited p c code p' \<Longrightarrow> pstep c p p'"
| reap: "p_tcb p c = Some t \<Longrightarrow> children t = xs @ pid # ys \<Longrightarrow> p_tcb p pid = Some z \<Longrightarrow> task_status z = Zombie
    \<Longrightarrow> p_current p = Some c \<Longrightarrow> pid_dealloc pid (p_pids p) = Some a
    \<Longrightarrow> pstep c p ((p_set c (t\<lparr>children := xs @ ys\<rparr>) p)
          \<lparr>p_tasks := AList.delete pid (p_tasks (p_set c (t\<lparr>children := xs @ ys\<rparr>) p)), p_pids := a\<rparr>)"

definition prun :: "usize \<Rightarrow> procs \<Rightarrow> procs \<Rightarrow> bool" where
  "prun c = (pstep c)\<^sup>*\<^sup>*"

lemma prun_refl [simp]: "prun c p p" by (simp add: prun_def)

lemma prun_step: "pstep c p q \<Longrightarrow> prun c p q" by (simp add: prun_def)

lemma prun_trans: "prun c p q \<Longrightarrow> prun c q r \<Longrightarrow> prun c p r" by (simp add: prun_def)

section \<open>The scheduling and ownership invariant\<close>

text \<open>In how many lists of children a process occurs.\<close>

definition kid_count :: "procs \<Rightarrow> usize \<Rightarrow> nat" where
  "kid_count p q = sum_list (map (\<lambda>(_, t). count_list (children t) q) (p_tasks p))"

text \<open>
  Every process that is not a zombie is either the current one or once in the ready queue, and
  the table of PIDs holds exactly these; every process but the first has exactly one owner;
  zombies own nobody; the PIDs in use are those the allocator has handed out.
\<close>

definition sched_inv :: "procs \<Rightarrow> bool" where
  "sched_inv p \<longleftrightarrow>
     distinct (map fst (p_tasks p)) \<and> pid_live (p_pids p) (dom (p_tcb p))
     \<and> (\<exists>t. p_tcb p (p_initproc p) = Some t \<and> task_status t \<noteq> Zombie)
     \<and> distinct (p_ready p)
     \<and> (\<forall>q. q \<in> set (p_ready p) \<longleftrightarrow> (\<exists>t. p_tcb p q = Some t \<and> task_status t = Ready))
     \<and> (\<forall>q. p_current p = Some q \<longleftrightarrow> (\<exists>t. p_tcb p q = Some t \<and> task_status t = Running))
     \<and> (\<forall>q. map_of (p_pid2task p) q =
          (case p_tcb p q of Some t \<Rightarrow> if task_status t = Zombie then None else Some q | None \<Rightarrow> None))
     \<and> (\<forall>q t. p_tcb p q = Some t \<longrightarrow> task_status t = Zombie \<longrightarrow> children t = [])
     \<and> (\<forall>q. kid_count p q = (if p_tcb p q \<noteq> None \<and> q \<noteq> p_initproc p then 1 else 0))"

lemma sched_invD:
  assumes "sched_inv p"
  shows "distinct (map fst (p_tasks p))" "pid_live (p_pids p) (dom (p_tcb p))"
    "\<exists>t. p_tcb p (p_initproc p) = Some t \<and> task_status t \<noteq> Zombie" "distinct (p_ready p)"
    "q \<in> set (p_ready p) \<longleftrightarrow> (\<exists>t. p_tcb p q = Some t \<and> task_status t = Ready)"
    "p_current p = Some q \<longleftrightarrow> (\<exists>t. p_tcb p q = Some t \<and> task_status t = Running)"
    "map_of (p_pid2task p) q =
       (case p_tcb p q of Some t \<Rightarrow> if task_status t = Zombie then None else Some q | None \<Rightarrow> None)"
    "p_tcb p q = Some t \<Longrightarrow> task_status t = Zombie \<Longrightarrow> children t = []"
    "kid_count p q = (if p_tcb p q \<noteq> None \<and> q \<noteq> p_initproc p then 1 else 0)"
  using assms by (auto simp: sched_inv_def)

lemma sum_alist_update:
  fixes f :: "'v \<Rightarrow> nat"
  assumes "distinct (map fst al)"
  shows "sum_list (map (\<lambda>(_, v). f v) (AList.update k v al)) + (case map_of al k of Some w \<Rightarrow> f w | None \<Rightarrow> 0)
       = sum_list (map (\<lambda>(_, v). f v) al) + f v"
  using assms by (induction al) (auto split: option.splits)

lemma sum_alist_delete:
  fixes f :: "'v \<Rightarrow> nat"
  assumes "distinct (map fst al)"
  shows "sum_list (map (\<lambda>(_, v). f v) (AList.delete k al)) + (case map_of al k of Some w \<Rightarrow> f w | None \<Rightarrow> 0)
       = sum_list (map (\<lambda>(_, v). f v) al)"
  using assms
proof (induction al)
  case (Cons e al)
  have "map_of al k = None" if "k = fst e"
    using Cons.prems that by (auto simp: map_of_eq_None_iff)
  with Cons show ?case by (cases e) (auto simp: map_of_eq_None_iff split: option.splits)
qed simp

lemma kid_count_set:
  assumes "distinct (map fst (p_tasks p))"
  shows "kid_count (p_set pid t' p) q + (case p_tcb p pid of Some t \<Rightarrow> count_list (children t) q | None \<Rightarrow> 0)
       = kid_count p q + count_list (children t') q"
  using sum_alist_update [OF assms, of "\<lambda>t. count_list (children t) q" pid t']
  by (simp add: kid_count_def p_set_def p_tcb_def)

lemma kid_count_cong [simp]:
  "kid_count (p\<lparr>p_pid2task := a\<rparr>) = kid_count p" "kid_count (p\<lparr>p_ready := b\<rparr>) = kid_count p"
  "kid_count (p\<lparr>p_current := c\<rparr>) = kid_count p" "kid_count (p\<lparr>p_pids := d\<rparr>) = kid_count p"
  "kid_count (enqueue pid p) = kid_count p"
  by (simp_all add: kid_count_def fun_eq_iff enqueue_def)

lemma distinct_set:
  "distinct (map fst (p_tasks p)) \<Longrightarrow> distinct (map fst (p_tasks (p_set pid t p)))"
  by (simp add: p_set_def distinct_update)

lemma enqueue_simps [simp]:
  "p_tcb (enqueue pid p) = p_tcb p" "p_tasks (enqueue pid p) = p_tasks p" "p_current (enqueue pid p) = p_current p"
  "p_initproc (enqueue pid p) = p_initproc p" "p_pids (enqueue pid p) = p_pids p"
  "p_ready (enqueue pid p) = p_ready p @ [pid]"
  "p_pid2task (enqueue pid p) = bt_insert pid pid (p_pid2task p)"
  by (simp_all add: enqueue_def p_tcb_def fun_eq_iff)

lemma map_of_bt_insert: "map_of (bt_insert k v es) = (map_of es)(k \<mapsto> v)"
  by (induction es) (auto simp: fun_eq_iff)

lemma map_of_bt_remove: "map_of (bt_remove k es) = (map_of es)(k := None)"
  by (induction es) (auto simp: bt_remove_def fun_eq_iff)

lemma sched_inv_same:
  assumes inv: "sched_inv p" and t: "p_tcb p pid = Some t"
    and same: "task_status t' = task_status t" "children t' = children t"
  shows "sched_inv (p_set pid t' p)"
proof -
  note D = sched_invD [OF inv]
  have kc: "kid_count (p_set pid t' p) q = kid_count p q" for q
    using kid_count_set [OF D(1), of pid t' q] t same(2) by simp
  have dom: "dom (p_tcb (p_set pid t' p)) = dom (p_tcb p)" using t by (auto simp: p_tcb_set dom_def)
  show ?thesis
    unfolding sched_inv_def dom kc using D t same distinct_set [OF D(1)]
    by (auto simp: p_tcb_set split: option.splits)
qed

lemma self_upd_frame:
  assumes "self_upd t t'"
  shows "task_status t' = task_status t" "children t' = children t" "parent t' = parent t"
    "exit_code t' = exit_code t" "task_cx t' = task_cx t"
  using assms by (cases; simp)+

text \<open>A change of the status of one process, with the queue and the processor to match.\<close>

lemma sched_inv_status:
  assumes inv: "sched_inv p" and t: "p_tcb p c = Some t" "task_status t \<noteq> Zombie"
    and t': "children t' = children t" "task_status t' \<noteq> Zombie"
    and tasks: "p_tasks p' = p_tasks (p_set c t' p)" and rest: "p_initproc p' = p_initproc p" "p_pids p' = p_pids p"
      "map_of (p_pid2task p') = map_of (p_pid2task p)"
    and r: "distinct (p_ready p')" "\<And>q. q \<in> set (p_ready p') \<longleftrightarrow> (if q = c then task_status t' = Ready else q \<in> set (p_ready p))"
    and cur: "\<And>q. p_current p' = Some q \<longleftrightarrow> (if q = c then task_status t' = Running else p_current p = Some q)"
  shows "sched_inv p'"
proof -
  note D = sched_invD [OF inv]
  have tcb: "p_tcb p' q = (if q = c then Some t' else p_tcb p q)" for q
    using p_tcb_set [of c t' p q] tasks by (simp add: p_tcb_def)
  have kc: "kid_count p' q = kid_count p q" for q
    using kid_count_set [OF D(1), of c t' q] t(1) t'(1) tasks by (simp add: kid_count_def)
  have dom: "dom (p_tcb p') = dom (p_tcb p)" using t(1) by (auto simp: tcb dom_def)
  have dk: "distinct (map fst (p_tasks p'))" using distinct_set [OF D(1)] tasks by simp
  have m: "map_of (p_pid2task p') q =
      (case p_tcb p' q of Some t \<Rightarrow> if task_status t = Zombie then None else Some q | None \<Rightarrow> None)" for q
    using D(7) [of q] t t'(2) by (auto simp: tcb rest(3))
  have i: "\<exists>t. p_tcb p' (p_initproc p') = Some t \<and> task_status t \<noteq> Zombie"
    using D(3) t'(2) by (auto simp: tcb rest)
  show ?thesis
    unfolding sched_inv_def dom kc rest(1,2) using D(2,5,6,8,9) dk m i r(1) t t'
    by (auto simp: tcb r(2) cur rest split: if_splits)
qed

lemma sched_inv_suspend:
  assumes inv: "sched_inv p" and cur: "p_current p = Some c" and t: "p_tcb p c = Some t"
  shows "sched_inv (enqueue c (p_set c (t\<lparr>task_status := Ready, task_cx := cx\<rparr>) (p\<lparr>p_current := None\<rparr>)))"
proof -
  note D = sched_invD [OF inv]
  have run: "task_status t = Running" using D(6) [of c] cur t by auto
  have cr: "c \<notin> set (p_ready p)" using D(5) [of c] t run by auto
  have "map_of (p_pid2task p) c = Some c" using D(7) [of c] t run by simp
  then have m: "map_of (bt_insert c c (p_pid2task p)) = map_of (p_pid2task p)" by (auto simp: map_of_bt_insert)
  show ?thesis
    by (rule sched_inv_status [OF inv t, where t' = "t\<lparr>task_status := Ready, task_cx := cx\<rparr>"])
      (use run cr D(4) cur m in \<open>auto simp: p_set_def\<close>)
qed

lemma sched_inv_run:
  assumes inv: "sched_inv p" and cur: "p_current p = None" and r: "p_ready p = c # rest" and t: "p_tcb p c = Some t"
  shows "sched_inv ((p_set c (t\<lparr>task_status := Running\<rparr>) p)\<lparr>p_ready := rest, p_current := Some c\<rparr>)"
proof -
  note D = sched_invD [OF inv]
  have rd: "task_status t = Ready" using D(5) [of c] r t by auto
  show ?thesis
    by (rule sched_inv_status [OF inv t, where t' = "t\<lparr>task_status := Running\<rparr>"])
      (use rd D(4) cur r in \<open>auto simp: p_set_def\<close>)
qed

lemma sched_inv_spawn:
  assumes inv: "sched_inv p" and par: "p_tcb p c = Some par" and a: "pid_alloc_guarded (p_pids p) = Some (pid, a)"
    and t: "child_of c par t" and cur: "p_current p = Some c"
  shows "sched_inv (enqueue pid (p_set c (par\<lparr>children := children par @ [pid]\<rparr>) (p_set pid t (p\<lparr>p_pids := a\<rparr>))))"
    (is "sched_inv ?p'")
proof -
  note D = sched_invD [OF inv]
  have fr: "pid \<notin> dom (p_tcb p)" "pid_live a (insert pid (dom (p_tcb p)))"
    using pid_alloc_fresh [OF D(2) a] by blast+
  then have new: "p_tcb p pid = None" "pid \<noteq> c" using par by (auto simp: dom_def)
  let ?par = "par\<lparr>children := children par @ [pid]\<rparr>" and ?p1 = "p_set pid t (p\<lparr>p_pids := a\<rparr>)"
  have tcb: "p_tcb ?p' q = (if q = c then Some ?par else if q = pid then Some t else p_tcb p q)" for q
    by (simp add: p_tcb_set)
  have d1: "distinct (map fst (p_tasks ?p1))" using distinct_set [of "p\<lparr>p_pids := a\<rparr>"] D(1) by simp
  have "kid_count ?p1 q = kid_count p q" for q
    using kid_count_set [of "p\<lparr>p_pids := a\<rparr>" pid t q] D(1) new t by (simp add: child_of_def)
  then have kc: "kid_count ?p' q = kid_count p q + (if q = pid then 1 else 0)" for q
    using kid_count_set [OF d1, of c ?par q] par new by (simp add: p_tcb_set)
  have run: "task_status par = Running" using D(6) [of c] cur par by auto
  have dom: "dom (p_tcb ?p') = insert pid (dom (p_tcb p))" unfolding dom_def tcb using par by auto
  have pr: "pid \<notin> set (p_ready p)" using D(5) [of pid] new by auto
  have pi: "pid \<noteq> p_initproc p" using D(3) new by auto
  have m: "map_of (p_pid2task ?p') q =
      (case p_tcb ?p' q of Some t \<Rightarrow> if task_status t = Zombie then None else Some q | None \<Rightarrow> None)" for q
    unfolding tcb using D(7) [of q] par new t run by (auto simp: map_of_bt_insert child_of_def)
  have i: "\<exists>t. p_tcb ?p' (p_initproc ?p') = Some t \<and> task_status t \<noteq> Zombie"
    unfolding tcb using D(3) par pi by auto
  have kk: "kid_count ?p' q = (if p_tcb ?p' q \<noteq> None \<and> q \<noteq> p_initproc ?p' then 1 else 0)" for q
    unfolding kc tcb using D(9) [of q] new pi par by auto
  have rr: "q \<in> set (p_ready ?p') \<longleftrightarrow> (\<exists>t. p_tcb ?p' q = Some t \<and> task_status t = Ready)" for q
    unfolding tcb using D(5) [of q] par run t new by (auto simp: child_of_def)
  have cc: "p_current ?p' = Some q \<longleftrightarrow> (\<exists>t. p_tcb ?p' q = Some t \<and> task_status t = Running)" for q
    unfolding tcb using D(6) [of q] par run t new by (auto simp: child_of_def)
  have zz: "children z = []" if "p_tcb ?p' q = Some z" "task_status z = Zombie" for q z
    using that D(8) run t unfolding tcb by (auto simp: child_of_def split: if_splits)
  have dd: "distinct (map fst (p_tasks ?p'))" using distinct_set [OF d1] by simp
  show ?thesis
    unfolding sched_inv_def dom using dd fr(2) i m kk rr cc zz D(4) pr by simp
qed

text \<open>The children of an exiting process move to the first process, so nobody loses an owner.\<close>

lemma exitedD:
  assumes e: "exited p c code p'" and t: "p_tcb p q = Some t"
  shows "q = c \<Longrightarrow> \<exists>t'. p_tcb p' q = Some t' \<and> task_status t' = Zombie \<and> exit_code t' = code \<and> children t' = []
      \<and> fd_table t' = [] \<and> security t' = security t \<and> signal_actions t' = signal_actions t
      \<and> handling_sig t' = handling_sig t \<and> trap_ctx_backup t' = trap_ctx_backup t"
    "q \<noteq> c \<Longrightarrow> \<exists>pa. p_tcb p' q = Some (t\<lparr>parent := pa, children := children t @
       (if q = p_initproc p then (case p_tcb p c of Some e \<Rightarrow> children e | None \<Rightarrow> []) else [])\<rparr>)"
  using e [unfolded exited_def, THEN conjunct2, THEN conjunct1, rule_format, OF t] by auto

lemma kid_count_exited:
  assumes inv: "sched_inv p" and e: "exited p c code p'" and t: "p_tcb p c = Some t" and ci: "c \<noteq> p_initproc p"
  shows "kid_count p' q = kid_count p q"
proof -
  note D = sched_invD [OF inv]
  let ?f = "\<lambda>t. count_list (children t) q" and ?i = "p_initproc p"
  have keys: "map fst (p_tasks p') = map fst (p_tasks p)" using e by (simp add: exited_def)
  obtain ti where ti: "p_tcb p ?i = Some ti" using D(3) by auto
  have sum: "kid_count r q = (\<Sum>x \<leftarrow> map fst (p_tasks r). case p_tcb r x of Some t \<Rightarrow> ?f t | None \<Rightarrow> 0)"
    if "distinct (map fst (p_tasks r))" for r
  proof -
    have "(case p_tcb r x of Some t \<Rightarrow> ?f t | None \<Rightarrow> 0) = ?f u" if "(x, u) \<in> set (p_tasks r)" for x u
      using that \<open>distinct (map fst (p_tasks r))\<close> by (simp add: p_tcb_def)
    then show ?thesis
      unfolding kid_count_def map_map comp_def by (intro arg_cong [where f = sum_list] map_cong) auto
  qed
  define g where "g r x = (case p_tcb r x of Some t \<Rightarrow> ?f t | None \<Rightarrow> 0)" for r x
  let ?S = "set (map fst (p_tasks p))"
  have S: "kid_count p q = (\<Sum>x\<in>?S. g p x)" "kid_count p' q = (\<Sum>x\<in>?S. g p' x)"
    using sum [of p] sum [of p'] D(1) keys by (simp_all add: g_def sum.distinct_set_conv_list flip: set_map)
  have in_S: "c \<in> ?S" "?i \<in> ?S - {c}" using t ti ci unfolding Diff_iff p_tcb_in by simp_all
  have g': "g p' x = g p x" if "x \<in> ?S - {c} - {?i}" for x
  proof -
    have x: "x \<noteq> c" "x \<noteq> ?i" and "p_tcb p x \<noteq> None" using that unfolding Diff_iff p_tcb_in by simp_all
    then obtain u where u: "p_tcb p x = Some u" by auto
    obtain u' pa where "p_tcb p' x = Some u'" "u' = u\<lparr>parent := pa, children := children u @ []\<rparr>"
      using exitedD(2) [OF e u x(1)] x(2) by auto
    then show ?thesis using u by (simp add: g_def)
  qed
  have gc: "g p' c = 0" "g p c = ?f t" using exitedD(1) [OF e t] t by (auto simp: g_def)
  have gi: "g p' ?i = g p ?i + ?f t"
    using exitedD(2) [OF e ti] ci t ti by (auto simp: g_def count_list_append)
  have "kid_count p q = g p c + (g p ?i + (\<Sum>x \<in> ?S - {c} - {?i}. g p x))"
    "kid_count p' q = g p' c + (g p' ?i + (\<Sum>x \<in> ?S - {c} - {?i}. g p' x))"
    using in_S unfolding S by (simp_all add: sum.remove [symmetric])
  moreover have "(\<Sum>x \<in> ?S - {c} - {?i}. g p' x) = (\<Sum>x \<in> ?S - {c} - {?i}. g p x)"
    by (rule sum.cong [OF refl g'])
  ultimately show ?thesis using gc gi by simp
qed

lemma exited_tcb:
  assumes "exited p c code p'"
  shows "p_tcb p' q = None \<longleftrightarrow> p_tcb p q = None"
proof -
  have "map fst (p_tasks p') = map fst (p_tasks p)" using assms by (simp add: exited_def)
  then have "fst ` set (p_tasks p') = fst ` set (p_tasks p)" by (metis set_map)
  then show ?thesis by (simp add: p_tcb_def map_of_eq_None_iff)
qed

lemma sched_inv_exit:
  assumes inv: "sched_inv p" and cur: "p_current p = Some c" and ci: "c \<noteq> p_initproc p" and e: "exited p c code p'"
  shows "sched_inv p'"
proof -
  note D = sched_invD [OF inv]
  obtain t where t: "p_tcb p c = Some t" "task_status t = Running" using D(6) [of c] cur by auto
  have ex: "map fst (p_tasks p') = map fst (p_tasks p)" "p_pid2task p' = bt_remove c (p_pid2task p)"
    "p_ready p' = p_ready p" "p_current p' = None" "p_initproc p' = p_initproc p" "p_pids p' = p_pids p"
    using e by (simp_all add: exited_def)
  have old: "\<exists>u'. p_tcb p' q = Some u' \<and> task_status u' = task_status u \<and> (task_status u = Zombie \<longrightarrow> children u' = [])"
    if u: "p_tcb p q = Some u" "q \<noteq> c" for q u
  proof -
    obtain u' pa xs where "p_tcb p' q = Some u'" "u' = u\<lparr>parent := pa, children := children u @ xs\<rparr>"
        "q \<noteq> p_initproc p \<Longrightarrow> xs = []"
      using exitedD(2) [OF e u] by auto
    moreover have "q \<noteq> p_initproc p" if "task_status u = Zombie" using D(3) that u(1) by auto
    ultimately show ?thesis using D(8) u by auto
  qed
  obtain z where z: "p_tcb p' c = Some z" "task_status z = Zombie" "children z = []"
    using exitedD(1) [OF e t(1)] by auto
  have st: "(\<exists>u. p_tcb p' q = Some u \<and> task_status u = s) \<longleftrightarrow>
      (if q = c then s = Zombie else (\<exists>u. p_tcb p q = Some u \<and> task_status u = s))" for q s
    using old [of q] z exited_tcb [OF e, of q] by (cases "p_tcb p q") auto
  have dom: "dom (p_tcb p') = dom (p_tcb p)" using exited_tcb [OF e] by (auto simp: dom_def)
  have m: "map_of (p_pid2task p') q =
      (case p_tcb p' q of Some t \<Rightarrow> if task_status t = Zombie then None else Some q | None \<Rightarrow> None)" for q
  proof (cases "q = c")
    case False
    then show ?thesis using D(7) [of q] old [of q] exited_tcb [OF e, of q]
      by (cases "p_tcb p q") (auto simp: ex(2) map_of_bt_remove)
  qed (simp add: ex(2) map_of_bt_remove z)
  have zz: "children u = []" if "p_tcb p' q = Some u" "task_status u = Zombie" for q u
    using that z old [of q] exited_tcb [OF e, of q] by (cases "q = c"; cases "p_tcb p q") auto
  have r: "q \<in> set (p_ready p) \<longleftrightarrow> (\<exists>u. p_tcb p' q = Some u \<and> task_status u = Ready)" for q
    using D(5) [of q] t unfolding st by auto
  have cc: "\<not> (\<exists>u. p_tcb p' q = Some u \<and> task_status u = Running)" for q
    using D(6) [of q] cur unfolding st by auto
  have i: "\<exists>t. p_tcb p' (p_initproc p) = Some t \<and> task_status t \<noteq> Zombie"
    using D(3) old [of "p_initproc p"] ci by auto
  show ?thesis
    unfolding sched_inv_def dom ex(1,3-6) kid_count_exited [OF inv e t(1) ci]
    using D(1,2,4,9) m zz r cc i exited_tcb [OF e] by simp
qed

lemma sched_inv_reap:
  assumes inv: "sched_inv p" and t: "p_tcb p c = Some t" "children t = xs @ pid # ys"
    and z: "p_tcb p pid = Some z" "task_status z = Zombie" and cur: "p_current p = Some c"
    and a: "pid_dealloc pid (p_pids p) = Some a"
    and p1: "p1 = p_set c (t\<lparr>children := xs @ ys\<rparr>) p"
  shows "sched_inv (p1\<lparr>p_tasks := AList.delete pid (p_tasks p1), p_pids := a\<rparr>)" (is "sched_inv ?p'")
proof -
  note D = sched_invD [OF inv]
  have run: "task_status t = Running" using D(6) [of c] cur t by auto
  have ne: "pid \<noteq> c" using run z t(1) by auto
  have d1: "distinct (map fst (p_tasks p1))" using distinct_set [OF D(1)] p1 by simp
  have tcb1: "p_tcb p1 q = (if q = c then Some (t\<lparr>children := xs @ ys\<rparr>) else p_tcb p q)" for q
    by (simp add: p1 p_tcb_set)
  have tcb: "p_tcb ?p' q = (if q = pid then None else p_tcb p1 q)" for q
    by (simp add: p_tcb_def delete_conv')
  have pi: "pid \<noteq> p_initproc p" using D(3) z by auto
  have k1: "kid_count p1 q = kid_count p q - (if q = pid then 1 else 0)" for q
    using kid_count_set [OF D(1), of c "t\<lparr>children := xs @ ys\<rparr>" q] t by (auto simp: p1 count_list_append)
  have "children z = []" using D(8) z by simp
  then have kc: "kid_count ?p' q = kid_count p1 q" for q
    using sum_alist_delete [OF d1, of "\<lambda>t. count_list (children t) q" pid] z(1) ne tcb1 [of pid]
    by (simp add: kid_count_def p_tcb_def)
  have kk: "kid_count ?p' q = (if p_tcb ?p' q \<noteq> None \<and> q \<noteq> p_initproc p then 1 else 0)" for q
    unfolding kc k1 tcb tcb1 using D(9) [of q] z(1) pi t(1) by auto
  have dom: "dom (p_tcb ?p') = dom (p_tcb p) - {pid}" unfolding dom_def tcb tcb1 using t(1) ne by auto
  have "pid \<in> dom (p_tcb p)" using z(1) by (simp add: dom_def)
  then have live: "pid_live a (dom (p_tcb p) - {pid})" using pid_dealloc_live [OF D(2)] a by fastforce
  have m: "map_of (p_pid2task p) q =
      (case p_tcb ?p' q of Some t \<Rightarrow> if task_status t = Zombie then None else Some q | None \<Rightarrow> None)" for q
    unfolding tcb tcb1 using D(7) [of q] z t(1) run by auto
  have r: "q \<in> set (p_ready p) \<longleftrightarrow> (\<exists>u. p_tcb ?p' q = Some u \<and> task_status u = Ready)" for q
    unfolding tcb tcb1 using D(5) [of q] z t(1) run by auto
  have cc: "p_current p = Some q \<longleftrightarrow> (\<exists>u. p_tcb ?p' q = Some u \<and> task_status u = Running)" for q
    unfolding tcb tcb1 using D(6) [of q] z t(1) run by auto
  have zz: "children u = []" if "p_tcb ?p' q = Some u" "task_status u = Zombie" for q u
    using that D(8) run unfolding tcb tcb1 by (auto split: if_splits)
  have i: "\<exists>t. p_tcb ?p' (p_initproc p) = Some t \<and> task_status t \<noteq> Zombie"
    unfolding tcb tcb1 using D(3) pi t(1) run by auto
  have dd: "distinct (map fst (p_tasks ?p'))" using d1 by (simp add: distinct_delete)
  have "p_ready ?p' = p_ready p" "p_current ?p' = p_current p" "p_pid2task ?p' = p_pid2task p"
      "p_initproc ?p' = p_initproc p" "p_pids ?p' = a" by (simp_all add: p1)
  then show ?thesis
    unfolding sched_inv_def dom using dd live i m kk r cc zz D(4) by simp
qed

lemma sched_inv_step: "pstep c p p' \<Longrightarrow> sched_inv p \<Longrightarrow> sched_inv p'"
proof (induction rule: pstep.induct)
  case (self p t t')
  then show ?case using sched_inv_same self_upd_frame by blast
next
  case (signal p tc q t flag)
  then show ?case by (intro sched_inv_same) simp_all
next
  case (reap p t xs pid ys z a)
  then show ?case by (intro sched_inv_reap [OF _ _ _ _ _ _ _ refl]) assumption+
qed (auto intro: sched_inv_suspend sched_inv_run sched_inv_spawn sched_inv_exit)

section \<open>Invariants of single tasks\<close>

definition task_inv :: "TaskControlBlock \<Rightarrow> bool" where
  "task_inv t \<longleftrightarrow> (task_status t \<noteq> Zombie \<longrightarrow> fd_inv t) \<and> sig_inv t"

definition tasks_inv :: "procs \<Rightarrow> bool" where
  "tasks_inv p \<longleftrightarrow> (\<forall>q t. p_tcb p q = Some t \<longrightarrow> task_inv t)"

lemma acct_cong:
  assumes "fd_table t' = fd_table t" "sec_quota (security t') = sec_quota (security t)"
  shows "acct t' P rf rp = acct t P rf rp"
  unfolding acct_def open_fds_def assms ..

lemma fd_inv_cong:
  assumes "fd_table t' = fd_table t" "sec_quota (security t') = sec_quota (security t)"
  shows "fd_inv t' = fd_inv t"
  unfolding fd_inv_def pipe_fds_def acct_cong [OF assms] assms(1) ..

lemma sig_inv_cong:
  assumes "signal_actions t' = signal_actions t" "handling_sig t' = handling_sig t" "trap_ctx_backup t' = trap_ctx_backup t"
  shows "sig_inv t' = sig_inv t"
  unfolding sig_inv_def assms ..

lemma self_upd_inv:
  assumes "self_upd t t'" "task_inv t"
  shows "task_inv t'"
  using assms
proof (cases rule: self_upd.cases)
  case (upd_fds q fs)
  then have "sig_inv t' = sig_inv t" by (intro sig_inv_cong) simp_all
  then show ?thesis using upd_fds assms(2) by (simp add: task_inv_def)
next
  case (upd_signals a b c d e f g)
  then have "fd_inv t' = fd_inv t" by (intro fd_inv_cong) simp_all
  then show ?thesis using upd_signals assms(2) by (simp add: task_inv_def)
next
  case (upd_exec ms ppn)
  then have "fd_inv t' = fd_inv t" by (intro fd_inv_cong) simp_all
  moreover have "sig_inv t' = sig_inv t" using upd_exec by (intro sig_inv_cong) simp_all
  ultimately show ?thesis using upd_exec assms(2) by (simp add: task_inv_def)
next
  case (upd_uid c)
  then have "fd_inv t' = fd_inv t" by (intro fd_inv_cong) simp_all
  moreover have "sig_inv t' = sig_inv t" using upd_uid by (intro sig_inv_cong) simp_all
  ultimately show ?thesis using upd_uid assms(2) by (simp add: task_inv_def)
qed

lemma task_inv_frame:
  assumes "task_inv t" "fd_table t' = fd_table t" "security t' = security t" "signal_actions t' = signal_actions t"
    "handling_sig t' = handling_sig t" "trap_ctx_backup t' = trap_ctx_backup t" "task_status t \<noteq> Zombie \<or> task_status t' = Zombie"
  shows "task_inv t'"
  using assms fd_inv_cong [of t' t] sig_inv_cong [of t' t] by (auto simp: task_inv_def)

lemma tasks_inv_set: "tasks_inv p \<Longrightarrow> task_inv t \<Longrightarrow> tasks_inv (p_set q t p)"
  by (simp add: tasks_inv_def p_tcb_set)

lemma tasks_inv_cong:
  assumes "p_tasks p' = p_tasks p"
  shows "tasks_inv p' = tasks_inv p"
  unfolding tasks_inv_def p_tcb_def assms ..

lemma tasks_inv_step: "pstep c p p' \<Longrightarrow> sched_inv p \<Longrightarrow> tasks_inv p \<Longrightarrow> tasks_inv p'"
proof (induction rule: pstep.induct)
  case (self p t t')
  then have "task_inv t" by (simp add: tasks_inv_def)
  then show ?case by (intro tasks_inv_set self.prems(2) self_upd_inv [OF self(2)])
next
  case (signal p tc q t flag)
  have "task_inv t" using signal by (simp add: tasks_inv_def)
  then have "task_inv (t\<lparr>signals := sig_insert (signals t) flag\<rparr>)" by (rule task_inv_frame) auto
  then show ?case by (rule tasks_inv_set [OF signal.prems(2)])
next
  case (suspend p t cx)
  have t: "task_inv t" "task_status t = Running"
    using suspend sched_invD(6) [OF suspend.prems(1), of c] by (auto simp: tasks_inv_def)
  then have "task_inv (t\<lparr>task_status := Ready, task_cx := cx\<rparr>)" by (intro task_inv_frame [OF t(1)]) simp_all
  then have "tasks_inv (p_set c (t\<lparr>task_status := Ready, task_cx := cx\<rparr>) p)" by (rule tasks_inv_set [OF suspend.prems(2)])
  then show ?case by (subst tasks_inv_cong) (simp_all add: p_set_def)
next
  case (run p rest t)
  have t: "task_inv t" "task_status t = Ready"
    using run sched_invD(5) [OF run.prems(1), of c] by (auto simp: tasks_inv_def)
  then have "task_inv (t\<lparr>task_status := Running\<rparr>)" by (intro task_inv_frame [OF t(1)]) simp_all
  then have "tasks_inv (p_set c (t\<lparr>task_status := Running\<rparr>) p)" by (rule tasks_inv_set [OF run.prems(2)])
  then show ?case by (subst tasks_inv_cong) (simp_all add: p_set_def)
next
  case (spawn p par pid a t)
  have par: "task_inv par" "task_status par = Running"
    using spawn sched_invD(6) [OF spawn.prems(1), of c] by (auto simp: tasks_inv_def)
  have "fd_inv t = fd_inv par" using spawn(3) by (intro fd_inv_cong) (simp_all add: child_of_def)
  then have t: "task_inv t" using par spawn(3) by (auto simp: task_inv_def sig_inv_def child_of_def)
  have "task_inv (par\<lparr>children := children par @ [pid]\<rparr>)" by (rule task_inv_frame [OF par(1)]) (simp_all add: par(2))
  then have "tasks_inv (p_set c (par\<lparr>children := children par @ [pid]\<rparr>) (p_set pid t p))"
    by (intro tasks_inv_set spawn.prems(2) t)
  then show ?case by (subst tasks_inv_cong) (simp_all add: p_set_def)
next
  case (exit p code p')
  show ?case unfolding tasks_inv_def
  proof (intro allI impI)
    fix q t' assume t': "p_tcb p' q = Some t'"
    then obtain t where t: "p_tcb p q = Some t" using exited_tcb [OF exit(3), of q] by auto
    have ti: "task_inv t" using exit.prems(2) t by (simp add: tasks_inv_def)
    show "task_inv t'"
    proof (cases "q = c")
      case True
      then show ?thesis using exitedD(1) [OF exit(3) t] ti t' sig_inv_cong [of t' t] by (auto simp: task_inv_def)
    next
      case False
      then show ?thesis using exitedD(2) [OF exit(3) t] t' by (auto intro!: task_inv_frame [OF ti])
    qed
  qed
next
  case (reap p t xs pid ys z a)
  have t: "task_inv t" "task_status t = Running"
    using reap sched_invD(6) [OF reap.prems(1), of c] by (auto simp: tasks_inv_def)
  then have "task_inv (t\<lparr>children := xs @ ys\<rparr>)" by (intro task_inv_frame [OF t(1)]) simp_all
  then have "tasks_inv (p_set c (t\<lparr>children := xs @ ys\<rparr>) p)" by (rule tasks_inv_set [OF reap.prems(2)])
  then show ?case by (auto simp: tasks_inv_def p_tcb_def delete_conv' split: if_splits)
qed

definition procs_inv :: "procs \<Rightarrow> bool" where
  "procs_inv p \<longleftrightarrow> sched_inv p \<and> tasks_inv p"

lemma procs_inv_run: "prun c p p' \<Longrightarrow> procs_inv p \<Longrightarrow> procs_inv p'"
  unfolding prun_def
  by (induction rule: rtranclp_induct) (auto simp: procs_inv_def intro: sched_inv_step tasks_inv_step)

section \<open>What a run leaves alone\<close>

text \<open>A process of another user keeps its control block, except that the first process may inherit children.\<close>

definition untouched :: "TaskControlBlock \<Rightarrow> TaskControlBlock \<Rightarrow> bool" where
  "untouched t t' \<longleftrightarrow> (\<exists>pa xs. t' = t\<lparr>parent := pa, children := children t @ xs\<rparr>)"

lemma untouchedD:
  "untouched t t' \<Longrightarrow> security t' = security t \<and> task_status t' = task_status t"
  by (auto simp: untouched_def)

lemma untouched_refl [simp]: "untouched t t"
  unfolding untouched_def by (rule exI [of _ "parent t"], rule exI [of _ "[]"]) simp

lemma untouched_trans: "untouched t u \<Longrightarrow> untouched u v \<Longrightarrow> untouched t v"
  unfolding untouched_def by (elim exE) (rule exI, rule exI, simp)

lemma pstep_creds:
  assumes "pstep c p p'" "p_tcb p c = Some tc" "\<not> is_root (creds tc)" "p_tcb p' q = Some t'"
  shows "creds t' = creds tc \<or> (\<exists>t. p_tcb p q = Some t \<and> creds t' = creds t)"
  using assms
proof (cases rule: pstep.cases)
  case (self t u)
  have "creds u = creds t" using self(3) assms(2,3) self(2)
    by (cases rule: self_upd.cases) auto
  then show ?thesis using self assms(4) by (auto simp: p_tcb_set split: if_splits)
next
  case (exit code)
  obtain t where t: "p_tcb p q = Some t" using exited_tcb [OF exit(3), of q] assms(4) by auto
  show ?thesis
    using exitedD(1) [OF exit(3) t] exitedD(2) [OF exit(3) t] t assms(4) by (cases "q = c") auto
next
  case (spawn par pid a t)
  then show ?thesis using assms(2,4) by (auto simp: p_tcb_set child_of_def split: if_splits)
next
  case (reap t xs pid ys z a)
  then show ?thesis using assms(4) by (auto simp: p_tcb_def p_set_def delete_conv' update_conv' split: if_splits)
qed (use assms(4) in \<open>auto simp: p_tcb_set split: if_splits\<close>)

lemma pstep_untouched:
  assumes st: "pstep c p p'" and inv: "sched_inv p" and tc: "p_tcb p c = Some tc"
    and nr: "\<not> is_root (creds tc)" "\<not> contains (cred_capabilities (creds tc)) KILL"
    and t: "p_tcb p q = Some t" "cred_uid (creds t) \<noteq> cred_uid (creds tc)" "task_status t \<noteq> Zombie"
  shows "\<exists>t'. p_tcb p' q = Some t' \<and> untouched t t'"
proof -
  have qc: "q \<noteq> c" using t tc by auto
  show ?thesis
    using st
  proof (cases rule: pstep.cases)
    case (signal tc' q' t' flag)
    have "q' \<noteq> q" using signal nr t tc by (auto simp: may_signal_def)
    then show ?thesis using signal t by (auto simp: p_tcb_set)
  next
    case (spawn par pid a u)
    have "pid \<notin> dom (p_tcb p)" using pid_alloc_fresh [OF sched_invD(2) [OF inv] spawn(3)] by blast
    then have "pid \<noteq> q" using t by auto
    then show ?thesis using spawn t qc by (auto simp: p_tcb_set)
  next
    case (exit code)
    then show ?thesis using exitedD(2) [OF exit(3) t(1) qc] by (auto simp: untouched_def)
  next
    case (reap u xs pid ys z a)
    then show ?thesis using t qc by (auto simp: p_tcb_def p_set_def delete_conv' update_conv')
  qed (use t qc in \<open>auto simp: p_tcb_set\<close>)
qed

lemma prun_isolation:
  assumes run: "prun c p p'" and inv: "procs_inv p" and tc: "p_tcb p c = Some tc" and nr: "\<not> is_root (creds tc)"
  shows "\<And>q t'. p_tcb p' q = Some t' \<Longrightarrow> creds t' = creds tc \<or> (\<exists>t. p_tcb p q = Some t \<and> creds t' = creds t)"
    and "\<And>q t. \<lbrakk>\<not> contains (cred_capabilities (creds tc)) KILL; p_tcb p q = Some t;
        cred_uid (creds t) \<noteq> cred_uid (creds tc); task_status t \<noteq> Zombie\<rbrakk>
      \<Longrightarrow> \<exists>t'. p_tcb p' q = Some t' \<and> untouched t t'"
proof -
  have *: "procs_inv p'
      \<and> (\<forall>q t'. p_tcb p' q = Some t' \<longrightarrow> creds t' = creds tc \<or> (\<exists>t. p_tcb p q = Some t \<and> creds t' = creds t))
      \<and> (\<not> contains (cred_capabilities (creds tc)) KILL \<longrightarrow> (\<forall>q t. p_tcb p q = Some t \<longrightarrow>
          cred_uid (creds t) \<noteq> cred_uid (creds tc) \<longrightarrow> task_status t \<noteq> Zombie
          \<longrightarrow> (\<exists>t'. p_tcb p' q = Some t' \<and> untouched t t')))
      \<and> p_tcb p' c \<noteq> None"
    using run unfolding prun_def
  proof (induction rule: rtranclp_induct)
    case base
    then show ?case using inv tc by auto
  next
    case (step r s)
    have inv': "sched_inv r" "procs_inv s" using step procs_inv_run [of c r s] by (auto simp: procs_inv_def prun_def)
    obtain tr where tr: "p_tcb r c = Some tr" using step.IH by auto
    have IH: "\<And>q t'. p_tcb r q = Some t' \<Longrightarrow> creds t' = creds tc \<or> (\<exists>t. p_tcb p q = Some t \<and> creds t' = creds t)"
      using step.IH by blast
    have same: "creds tr = creds tc" using IH [OF tr] tc by auto
    have 1: "creds t' = creds tc \<or> (\<exists>t. p_tcb p q = Some t \<and> creds t' = creds t)" if "p_tcb s q = Some t'" for q t'
      using pstep_creds [OF step(2) tr _ that] same nr IH [of q] by auto
    have 2: "\<exists>t'. p_tcb s q = Some t' \<and> untouched t t'"
      if kill: "\<not> contains (cred_capabilities (creds tc)) KILL" and t: "p_tcb p q = Some t"
        "cred_uid (creds t) \<noteq> cred_uid (creds tc)" "task_status t \<noteq> Zombie" for q t
    proof -
      obtain u where u: "p_tcb r q = Some u" "untouched t u" using step.IH kill t by blast
      then have "cred_uid (creds u) \<noteq> cred_uid (creds tr)" "task_status u \<noteq> Zombie"
        using untouchedD [OF u(2)] t same by auto
      then obtain v where "p_tcb s q = Some v" "untouched u v"
        using pstep_untouched [OF step(2) inv'(1) tr _ _ u(1)] same nr kill by auto
      then show ?thesis using untouched_trans [OF u(2)] by blast
    qed
    have "p_tcb s c \<noteq> None"
      using step(2) tr
    proof (cases rule: pstep.cases)
      case (exit code)
      then show ?thesis using exited_tcb [OF exit(3), of c] tr by simp
    next
      case (reap t xs pid ys z a)
      have "pid \<noteq> c" using reap tr sched_invD(6) [OF inv'(1), of c] by auto
      then show ?thesis using reap tr by (auto simp: p_tcb_def p_set_def delete_conv' update_conv')
    qed (auto simp: p_tcb_set)
    with inv'(2) 1 2 show ?case by blast
  qed
  show "creds t' = creds tc \<or> (\<exists>t. p_tcb p q = Some t \<and> creds t' = creds t)" if "p_tcb p' q = Some t'" for q t'
    using * that by blast
  show "\<exists>t'. p_tcb p' q = Some t' \<and> untouched t t'" if "\<not> contains (cred_capabilities (creds tc)) KILL" "p_tcb p q = Some t"
      "cred_uid (creds t) \<noteq> cred_uid (creds tc)" "task_status t \<noteq> Zombie" for q t
    using * that by blast
qed

end
