(* ===== verification/Files.thy ===== *)
theory Files
  imports Process
begin

text \<open>
  Open files (os/src/fs): the console, regular files and the ends of pipes behind one interface.
  Reading and writing act on the kernel state; an operation that has to wait suspends the task
  with a context from which it goes on. Of the console output the model keeps what programs
  print; the kernel's own messages are left out.
\<close>

section \<open>Regular files\<close>

type_synonym OpenFlags = u32

definition RDONLY :: OpenFlags where "RDONLY = 0"
definition WRONLY :: OpenFlags where "WRONLY = push_bit 0 1"
definition RDWR :: OpenFlags where "RDWR = push_bit 1 1"
definition CREATE :: OpenFlags where "CREATE = push_bit 9 1"
definition TRUNC :: OpenFlags where "TRUNC = push_bit 10 1"

definition open_flags_all :: OpenFlags where
  "open_flags_all = RDONLY OR WRONLY OR RDWR OR CREATE OR TRUNC"

definition open_from_bits :: "u32 \<Rightarrow> OpenFlags option" where
  "open_from_bits bits = (if bits AND NOT open_flags_all = 0 then Some bits else None)"

definition open_contains :: "OpenFlags \<Rightarrow> OpenFlags \<Rightarrow> bool" where
  "open_contains self other \<longleftrightarrow> self AND other = other"

definition read_write :: "OpenFlags \<Rightarrow> bool \<times> bool" where
  "read_write self =
     (if self = 0 then (True, False)
      else if open_contains self WRONLY then (False, True)
      else (True, True))"

text \<open>A new open file object; the result names it.\<close>

definition os_inode_new ::
    "bool \<Rightarrow> bool \<Rightarrow> 'inode \<Rightarrow> ('fs, 'inode) kernel \<Rightarrow> nat \<times> ('fs, 'inode) kernel" where
  "os_inode_new readable writable inode k =
     (length (k_inodes k),
      k\<lparr>k_inodes := k_inodes k @ [\<lparr>osi_readable = readable, osi_writable = writable, osi_offset = 0, osi_inode = inode\<rparr>]\<rparr>)"

definition open_file ::
    "('fs, 'inode) platform \<Rightarrow> u8 list \<Rightarrow> OpenFlags \<Rightarrow> ('fs, 'inode) kernel
     \<Rightarrow> (nat option \<times> ('fs, 'inode) kernel) option" where
  "open_file pf name flags k =
     do { let (readable, writable) = read_write flags;
          (found, fs) \<leftarrow> fs_find pf (utf8_bytes name) (k_fs k);
          let k = k\<lparr>k_fs := fs\<rparr>;
          if open_contains flags CREATE then
            (case found of
               Some inode \<Rightarrow>
                 do { fs \<leftarrow> fs_clear pf inode (k_fs k);
                      let (f, k) = os_inode_new readable writable inode (k\<lparr>k_fs := fs\<rparr>);
                      Some (Some f, k) }
             | None \<Rightarrow>
                 do { (created, fs) \<leftarrow> fs_create pf (utf8_bytes name) (k_fs k);
                      let k = k\<lparr>k_fs := fs\<rparr>;
                      (case created of
                         None \<Rightarrow> Some (None, k)
                       | Some inode \<Rightarrow>
                           let (f, k) = os_inode_new readable writable inode k in Some (Some f, k)) })
          else
            (case found of
               None \<Rightarrow> Some (None, k)
             | Some inode \<Rightarrow>
                 do { fs \<leftarrow> (if open_contains flags TRUNC then fs_clear pf inode (k_fs k) else Some (k_fs k));
                      let (f, k) = os_inode_new readable writable inode (k\<lparr>k_fs := fs\<rparr>);
                      Some (Some f, k) }) }"

text \<open>Reading a whole file in pieces of 512 bytes, until a piece is empty.\<close>

partial_function (option) read_all_loop ::
    "('fs, 'inode) platform \<Rightarrow> 'inode \<Rightarrow> usize \<Rightarrow> u8 list \<Rightarrow> 'fs \<Rightarrow> (usize \<times> u8 list \<times> 'fs) option" where
  "read_all_loop pf inode offset v fs =
     (case fs_read_at pf inode offset 512 fs of
        None \<Rightarrow> None
      | Some (bs, fs) \<Rightarrow>
          if bs = [] then Some (offset, v, fs)
          else read_all_loop pf inode (offset + of_nat (length bs)) (v @ bs) fs)"

definition read_all ::
    "('fs, 'inode) platform \<Rightarrow> nat \<Rightarrow> ('fs, 'inode) kernel \<Rightarrow> (u8 list \<times> ('fs, 'inode) kernel) option" where
  "read_all pf f k =
     do { let inner = k_inodes k ! f;
          (offset, v, fs) \<leftarrow> read_all_loop pf (osi_inode inner) (osi_offset inner) [] (k_fs k);
          Some (v, k\<lparr>k_fs := fs, k_inodes := (k_inodes k)[f := inner\<lparr>osi_offset := offset\<rparr>]\<rparr>) }"

fun inode_read_slices ::
    "('fs, 'inode) platform \<Rightarrow> nat \<Rightarrow> slice list \<Rightarrow> usize \<Rightarrow> ('fs, 'inode) kernel
     \<Rightarrow> (usize \<times> ('fs, 'inode) kernel) option" where
  "inode_read_slices pf f [] total_size k = Some (total_size, k)"
| "inode_read_slices pf f ((p, a, b) # slices) total_size k =
     do { let inner = k_inodes k ! f;
          (bs, fs) \<leftarrow> fs_read_at pf (osi_inode inner) (osi_offset inner) (b - a) (k_fs k);
          let k = set_mem (slice_write (p, a, a + length bs) bs (k_mem k)) (k\<lparr>k_fs := fs\<rparr>);
          if bs = [] then Some (total_size, k)
          else inode_read_slices pf f slices (total_size + of_nat (length bs))
                 (k\<lparr>k_inodes := (k_inodes k)[f := inner\<lparr>osi_offset := osi_offset inner + of_nat (length bs)\<rparr>]\<rparr>) }"

fun inode_write_slices ::
    "('fs, 'inode) platform \<Rightarrow> nat \<Rightarrow> slice list \<Rightarrow> usize \<Rightarrow> ('fs, 'inode) kernel
     \<Rightarrow> (usize \<times> ('fs, 'inode) kernel) option" where
  "inode_write_slices pf f [] total_size k = Some (total_size, k)"
| "inode_write_slices pf f (s # slices) total_size k =
     do { let inner = k_inodes k ! f;
          (write_size, fs) \<leftarrow> fs_write_at pf (osi_inode inner) (osi_offset inner) (slice_bytes (k_mem k) s) (k_fs k);
          if write_size \<noteq> of_nat (slice_len s) then None
          else inode_write_slices pf f slices (total_size + write_size)
                 (k\<lparr>k_fs := fs, k_inodes := (k_inodes k)[f := inner\<lparr>osi_offset := osi_offset inner + write_size\<rparr>]\<rparr>) }"

section \<open>The console\<close>

fun stdout_print :: "slice list \<Rightarrow> ('fs, 'inode) kernel \<Rightarrow> ('fs, 'inode) kernel option" where
  "stdout_print [] k = Some k"
| "stdout_print (s # slices) k =
     (if from_utf8 (slice_bytes (k_mem k) s)
      then stdout_print slices (k\<lparr>k_output := k_output k @ slice_bytes (k_mem k) s\<rparr>)
      else None)"

definition stdout_write :: "slice list \<Rightarrow> ('fs, 'inode) kernel \<Rightarrow> (usize \<times> ('fs, 'inode) kernel) option" where
  "stdout_write slices k = do { k \<leftarrow> stdout_print slices k; Some (of_nat (ub_len slices), k) }"

text \<open>One turn of the busy loop of \<open>Stdin::read\<close>.\<close>

definition stdin_poll ::
    "('fs, 'inode) platform \<Rightarrow> slice list \<Rightarrow> ('fs, 'inode) kernel \<Rightarrow> (usize flow \<times> ('fs, 'inode) kernel) option" where
  "stdin_poll pf slices k =
     do { let c = pf_getchar pf (k_chars k);
          let k = k\<lparr>k_chars := k_chars k + 1\<rparr>;
          if c = 0 then do { k \<leftarrow> suspend_current_and_run_next (Cx_stdin slices) k; Some (Switched, k) }
          else (case slices of
                  [] \<Rightarrow> None
                | (p, a, b) # _ \<Rightarrow> Some (Value 1, set_mem (slice_write (p, a, a + 1) [ucast c] (k_mem k)) k)) }"

definition stdin_read ::
    "('fs, 'inode) platform \<Rightarrow> slice list \<Rightarrow> ('fs, 'inode) kernel \<Rightarrow> (usize flow \<times> ('fs, 'inode) kernel) option" where
  "stdin_read pf slices k = (if ub_len slices \<noteq> 1 then None else stdin_poll pf slices k)"

section \<open>Pipes\<close>

text \<open>
  The strong references to the write end of a pipe: descriptors, and tasks that wait in a write
  and hold the end meanwhile.
\<close>

fun is_write_end :: "ResourceId \<Rightarrow> FileRef option \<Rightarrow> bool" where
  "is_write_end w (Some (F_Pipe p)) \<longleftrightarrow> pipe_writable p \<and> pipe_buffer p = w"
| "is_write_end w _ \<longleftrightarrow> False"

definition held_write_end :: "ResourceId \<Rightarrow> TaskControlBlock \<Rightarrow> nat" where
  "held_write_end w t =
     (case task_cx t of
        Cx_pipe_write p _ _ _ \<Rightarrow> if task_status t = Ready \<and> pipe_buffer p = w then 1 else 0
      | _ \<Rightarrow> 0)"

definition write_end_count :: "('fs, 'inode) kernel \<Rightarrow> ResourceId \<Rightarrow> nat" where
  "write_end_count k w =
     sum_list (map (\<lambda>(_, t). length (filter (is_write_end w) (fd_table t)) + held_write_end w t) (k_tasks k))"

text \<open>The places a buffer iterator yields, and stores through them.\<close>

definition ub_locs :: "slice list \<Rightarrow> (PhysPageNum \<times> nat) list" where
  "ub_locs slices = concat (map slice_locs slices)"

fun store_locs :: "((PhysPageNum \<times> nat) \<times> u8) list \<Rightarrow> phys_mem \<Rightarrow> phys_mem" where
  "store_locs [] m = m"
| "store_locs (((p, off), x) # ls) m = store_locs ls (m(p := (m p)(off := x)))"

text \<open>
  An activation of the read loop; \<open>got\<close> are the bytes stored by earlier ones. Every buffer that
  \<open>make_pipe\<close> stores knows its write end.
\<close>

definition pipe_read_on ::
    "Pipe \<Rightarrow> (PhysPageNum \<times> nat) list \<Rightarrow> nat \<Rightarrow> u8 list \<Rightarrow> IpcPermit option \<Rightarrow> ('fs, 'inode) kernel
     \<Rightarrow> (usize flow \<times> ('fs, 'inode) kernel) option" where
  "pipe_read_on p locs want got permit k =
     do { b \<leftarrow> pipe_buffers (k_pipes k) (pipe_buffer p);
          closed \<leftarrow> all_write_ends_closed (write_end_count k) b;
          (b, got', act) \<leftarrow> read_activation closed b want got;
          let k = k\<lparr>k_pipes := (k_pipes k)\<lparr>pipe_buffers := (pipe_buffers (k_pipes k))(pipe_buffer p \<mapsto> b)\<rparr>\<rparr>;
          let k = set_mem (store_locs (zip (drop (length got) locs) (drop (length got) got')) (k_mem k)) k;
          (case act of
             Returned n \<Rightarrow> Some (Value (of_nat n), k)
           | Suspended \<Rightarrow>
               do { k \<leftarrow> suspend_current_and_run_next (Cx_pipe_read p locs want got' permit) k;
                    Some (Switched, k) }) }"

definition pipe_write_on ::
    "Pipe \<Rightarrow> (PhysPageNum \<times> nat) list \<Rightarrow> nat \<Rightarrow> IpcPermit option \<Rightarrow> ('fs, 'inode) kernel
     \<Rightarrow> (usize flow \<times> ('fs, 'inode) kernel) option" where
  "pipe_write_on p locs want permit k =
     do { b \<leftarrow> pipe_buffers (k_pipes k) (pipe_buffer p);
          (b, rest, act) \<leftarrow> write_activation b want (map (\<lambda>(q, off). k_mem k q off) locs);
          let k = k\<lparr>k_pipes := (k_pipes k)\<lparr>pipe_buffers := (pipe_buffers (k_pipes k))(pipe_buffer p \<mapsto> b)\<rparr>\<rparr>;
          (case act of
             Returned n \<Rightarrow> Some (Value (of_nat n), k)
           | Suspended \<Rightarrow>
               do { k \<leftarrow> suspend_current_and_run_next
                           (Cx_pipe_write p (drop (length locs - length rest) locs) want permit) k;
                    Some (Switched, k) }) }"

section \<open>The file interface\<close>

fun file_readable :: "('fs, 'inode) kernel \<Rightarrow> FileRef \<Rightarrow> bool" where
  "file_readable k F_Stdin = True"
| "file_readable k F_Stdout = False"
| "file_readable k (F_Pipe p) = pipe_readable p"
| "file_readable k (F_OSInode f) = osi_readable (k_inodes k ! f)"

fun file_writable :: "('fs, 'inode) kernel \<Rightarrow> FileRef \<Rightarrow> bool" where
  "file_writable k F_Stdin = False"
| "file_writable k F_Stdout = True"
| "file_writable k (F_Pipe p) = pipe_writable p"
| "file_writable k (F_OSInode f) = osi_writable (k_inodes k ! f)"

fun ipc_object :: "FileRef \<Rightarrow> IpcObject option" where
  "ipc_object (F_Pipe p) = Some (pipe_object p)"
| "ipc_object _ = None"

definition to_flow :: "(usize \<times> 'k) option \<Rightarrow> (usize flow \<times> 'k) option" where
  "to_flow r = map_option (\<lambda>(n, k). (Value n, k)) r"

fun file_read ::
    "('fs, 'inode) platform \<Rightarrow> FileRef \<Rightarrow> slice list \<Rightarrow> IpcPermit option \<Rightarrow> ('fs, 'inode) kernel
     \<Rightarrow> (usize flow \<times> ('fs, 'inode) kernel) option" where
  "file_read pf F_Stdin buf permit k = stdin_read pf buf k"
| "file_read pf F_Stdout buf permit k = None"
| "file_read pf (F_Pipe p) buf permit k =
     (if pipe_readable p then pipe_read_on p (ub_locs buf) (ub_len buf) [] permit k else None)"
| "file_read pf (F_OSInode f) buf permit k = to_flow (inode_read_slices pf f buf 0 k)"

fun file_write ::
    "('fs, 'inode) platform \<Rightarrow> FileRef \<Rightarrow> slice list \<Rightarrow> IpcPermit option \<Rightarrow> ('fs, 'inode) kernel
     \<Rightarrow> (usize flow \<times> ('fs, 'inode) kernel) option" where
  "file_write pf F_Stdin buf permit k = None"
| "file_write pf F_Stdout buf permit k = to_flow (stdout_write buf k)"
| "file_write pf (F_Pipe p) buf permit k =
     (if pipe_writable p then pipe_write_on p (ub_locs buf) (ub_len buf) permit k else None)"
| "file_write pf (F_OSInode f) buf permit k = to_flow (inode_write_slices pf f buf 0 k)"

end
