(* ===== verification/Syscall_Fs.thy ===== *)
theory Syscall_Fs
  imports Files
begin

text \<open>
  The system calls on descriptors (os/src/syscall/fs.rs). A call yields the value for the user,
  or the task has been suspended inside it; \<open>finish_io\<close> is the end of \<open>sys_read\<close> and
  \<open>sys_write\<close>, which a resumed task reaches as well.
\<close>

section \<open>The security facade on the kernel state\<close>

definition returns :: "'a run option \<Rightarrow> 'a option" where
  "returns r = (case r of Some (Ret x) \<Rightarrow> Some x | _ \<Rightarrow> None)"

definition ipc_error_to_ret :: "IpcError \<Rightarrow> isize" where
  "ipc_error_to_ret error =
     (case error of
        PermissionDenied \<Rightarrow> - 1
      | InvalidAddress \<Rightarrow> - 14
      | InvalidArgument \<Rightarrow> - 22
      | ProcessNotFound \<Rightarrow> - 3
      | TooManyFiles \<Rightarrow> - 24
      | ResourceExhausted \<Rightarrow> - 28
      | TryAgain \<Rightarrow> - 11)"

definition ret_of_result :: "usize IpcResult \<Rightarrow> isize" where
  "ret_of_result r = (case r of Inr v \<Rightarrow> as_isize v | Inl error \<Rightarrow> ipc_error_to_ret error)"

definition ipc_request :: "usize \<Rightarrow> TaskControlBlock \<Rightarrow> IpcObject \<Rightarrow> IpcOperation \<Rightarrow> usize \<Rightarrow> IpcRequest" where
  "ipc_request pid t object operation amount =
     (let credentials = sec_credentials (security t) in
      \<lparr>req_subject = \<lparr>subj_pid = pid, subj_uid = cred_uid credentials,
                      subj_capabilities = cred_capabilities credentials\<rparr>,
       req_object = object, req_operation = operation, req_amount = amount\<rparr>)"

text \<open>
  The facade on a task of the kernel. The clock is read when something is recorded: by
  \<open>preflight\<close> when it refuses, which does not depend on the time, and always by \<open>complete\<close>, because
  no caller completes a successful \<open>AuditRead\<close>.
\<close>

definition task_preflight ::
    "('fs, 'inode) platform \<Rightarrow> usize \<Rightarrow> IpcRequest \<Rightarrow> ('fs, 'inode) kernel
     \<Rightarrow> (IpcPermit IpcResult \<times> ('fs, 'inode) kernel) option" where
  "task_preflight pf pid request k =
     do { t \<leftarrow> tcb k pid;
          let refused = isl (fst (preflight 0 (security t) (k_audit k) request));
          (now, k) \<leftarrow> (if refused then get_time_ms pf k else Some (0, k));
          let (r, state, ring) = preflight now (security t) (k_audit k) request;
          Some (r, set_tcb pid (t\<lparr>security := state\<rparr>) (k\<lparr>k_audit := ring\<rparr>)) }"

definition task_complete ::
    "('fs, 'inode) platform \<Rightarrow> usize \<Rightarrow> IpcPermit \<Rightarrow> usize IpcResult \<Rightarrow> ('fs, 'inode) kernel
     \<Rightarrow> (usize IpcResult \<times> ('fs, 'inode) kernel) option" where
  "task_complete pf pid permit outcome k =
     do { t \<leftarrow> tcb k pid;
          (now, k) \<leftarrow> get_time_ms pf k;
          let (r, state, ring) = complete now (security t) (k_audit k) permit outcome;
          Some (r, set_tcb pid (t\<lparr>security := state\<rparr>) (k\<lparr>k_audit := ring\<rparr>)) }"

definition kernel_record_failure ::
    "('fs, 'inode) platform \<Rightarrow> IpcRequest option \<Rightarrow> IpcError \<Rightarrow> ('fs, 'inode) kernel \<Rightarrow> ('fs, 'inode) kernel option" where
  "kernel_record_failure pf request error k =
     (case request of
        None \<Rightarrow> Some k
      | Some request \<Rightarrow>
          do { (now, k) \<leftarrow> get_time_ms pf k;
               Some (k\<lparr>k_audit := record_failure now request error (k_audit k)\<rparr>) })"

section \<open>Reading and writing\<close>

definition finish_io ::
    "('fs, 'inode) platform \<Rightarrow> IpcPermit option \<Rightarrow> usize flow \<Rightarrow> ('fs, 'inode) kernel
     \<Rightarrow> (isize flow \<times> ('fs, 'inode) kernel) option" where
  "finish_io pf permit fl k =
     (case fl of
        Value n \<Rightarrow>
          (case permit of
             None \<Rightarrow> Some (Value (as_isize n), k)
           | Some permit \<Rightarrow>
               do { pid \<leftarrow> k_current k;
                    (r, k) \<leftarrow> task_complete pf pid permit (Inr n) k;
                    Some (Value (ret_of_result r), k) })
      | Switched \<Rightarrow> Some (Switched, k)
      | Halted f \<Rightarrow> Some (Halted f, k))"

text \<open>The descriptor of the caller, if it is open.\<close>

definition fd_lookup :: "TaskControlBlock \<Rightarrow> usize \<Rightarrow> FileRef option" where
  "fd_lookup t fd = (if length (fd_table t) \<le> unat fd then None else fd_table t ! unat fd)"

text \<open>
  What both calls do once the buffer is valid: an ordinary file is used at once, an IPC object
  between \<open>preflight\<close> and \<open>complete\<close>.
\<close>

definition guarded_io ::
    "('fs, 'inode) platform \<Rightarrow> usize \<Rightarrow> IpcRequest option \<Rightarrow> usize
     \<Rightarrow> (IpcPermit option \<Rightarrow> ('fs, 'inode) kernel \<Rightarrow> (usize flow \<times> ('fs, 'inode) kernel) option)
     \<Rightarrow> ('fs, 'inode) kernel \<Rightarrow> (isize flow \<times> ('fs, 'inode) kernel) option" where
  "guarded_io pf pid request len io k =
     (case request of
        None \<Rightarrow>
          if len = 0 then Some (Value 0, k)
          else do { (fl, k) \<leftarrow> io None k; finish_io pf None fl k }
      | Some request \<Rightarrow>
          do { (r, k) \<leftarrow> task_preflight pf pid request k;
               (case r of
                  Inl error \<Rightarrow> Some (Value (ipc_error_to_ret error), k)
                | Inr permit \<Rightarrow>
                    do { (fl, k) \<leftarrow> (if len = 0 then Some (Value 0, k) else io (Some permit) k);
                         finish_io pf (Some permit) fl k }) })"

definition sys_write ::
    "('fs, 'inode) platform \<Rightarrow> usize \<Rightarrow> usize \<Rightarrow> usize \<Rightarrow> ('fs, 'inode) kernel
     \<Rightarrow> (isize flow \<times> ('fs, 'inode) kernel) option" where
  "sys_write pf fd buf len k =
     do { (pid, t) \<leftarrow> current_task k;
          (case fd_lookup t fd of
             None \<Rightarrow> Some (Value (- 1), k)
           | Some file \<Rightarrow>
               if \<not> file_writable k file then Some (Value (- 1), k)
               else do {
                 let request = map_option (\<lambda>object. ipc_request pid t object PipeWrite len) (ipc_object file);
                 user_buffer \<leftarrow> returns (copy_bytes_from_user (k_mem k) (get_user_token t) buf len);
                 (case user_buffer of
                    Inl error \<Rightarrow> do { k \<leftarrow> kernel_record_failure pf request error k; Some (Value (ipc_error_to_ret error), k) }
                  | Inr buffer \<Rightarrow> guarded_io pf pid request len (file_write pf file buffer) k) }) }"

definition sys_read ::
    "('fs, 'inode) platform \<Rightarrow> usize \<Rightarrow> usize \<Rightarrow> usize \<Rightarrow> ('fs, 'inode) kernel
     \<Rightarrow> (isize flow \<times> ('fs, 'inode) kernel) option" where
  "sys_read pf fd buf len k =
     do { (pid, t) \<leftarrow> current_task k;
          (case fd_lookup t fd of
             None \<Rightarrow> Some (Value (- 1), k)
           | Some file \<Rightarrow>
               if \<not> file_readable k file then Some (Value (- 1), k)
               else do {
                 let request = map_option (\<lambda>object. ipc_request pid t object PipeRead len) (ipc_object file);
                 buffers \<leftarrow> returns (try_translated_byte_buffer (k_mem k) (get_user_token t) buf len True);
                 (case buffers of
                    None \<Rightarrow> do { k \<leftarrow> kernel_record_failure pf request InvalidAddress k;
                                 Some (Value (ipc_error_to_ret InvalidAddress), k) }
                  | Some buffer \<Rightarrow> guarded_io pf pid request len (file_read pf file buffer) k) }) }"

section \<open>Descriptors\<close>

definition sys_open ::
    "('fs, 'inode) platform \<Rightarrow> usize \<Rightarrow> u32 \<Rightarrow> ('fs, 'inode) kernel \<Rightarrow> (isize flow \<times> ('fs, 'inode) kernel) option" where
  "sys_open pf path flags k =
     do { (pid, t) \<leftarrow> current_task k;
          name \<leftarrow> returns (try_translated_str (k_mem k) (get_user_token t) path MAX_STR_LEN);
          (case name of
             None \<Rightarrow> Some (Value (ipc_error_to_ret InvalidAddress), k)
           | Some name \<Rightarrow>
               (case open_from_bits flags of
                  None \<Rightarrow> Some (Value (ipc_error_to_ret InvalidArgument), k)
                | Some open_flags \<Rightarrow>
                    do { (inode, k) \<leftarrow> open_file pf name open_flags k;
                         (case inode of
                            None \<Rightarrow> Some (Value (- 1), k)
                          | Some f \<Rightarrow>
                              (case reserve_file_fd (security t) of
                                 (Inl error, state) \<Rightarrow>
                                   Some (Value (ipc_error_to_ret error), set_tcb pid (t\<lparr>security := state\<rparr>) k)
                               | (Inr _, state) \<Rightarrow>
                                   let (fd, t) = alloc_fd (t\<lparr>security := state\<rparr>);
                                       t = t\<lparr>fd_table := (fd_table t)[fd := Some (F_OSInode f)]\<rparr>
                                   in Some (Value (int fd), set_tcb pid t k))) })) }"

definition sys_close :: "usize \<Rightarrow> ('fs, 'inode) kernel \<Rightarrow> (isize flow \<times> ('fs, 'inode) kernel) option" where
  "sys_close fd k =
     do { (pid, t) \<leftarrow> current_task k;
          if fd_lookup t fd = None then Some (Value (- 1), k)
          else let t = t\<lparr>fd_table := (fd_table t)[unat fd := None]\<rparr>;
                   t = t\<lparr>security := release_fd (security t) fd\<rparr>
               in Some (Value 0, set_tcb pid t k) }"

definition sys_dup :: "usize \<Rightarrow> ('fs, 'inode) kernel \<Rightarrow> (isize flow \<times> ('fs, 'inode) kernel) option" where
  "sys_dup fd k =
     do { (pid, t) \<leftarrow> current_task k;
          (case fd_lookup t fd of
             None \<Rightarrow> Some (Value (- 1), k)
           | Some file \<Rightarrow>
               (case reserve_dup_fd (security t) fd of
                  (Inl error, state) \<Rightarrow>
                    Some (Value (ipc_error_to_ret error), set_tcb pid (t\<lparr>security := state\<rparr>) k)
                | (Inr source_is_pipe, state) \<Rightarrow>
                    let (new_fd, t) = alloc_fd (t\<lparr>security := state\<rparr>);
                        t = t\<lparr>fd_table := (fd_table t)[new_fd := Some file]\<rparr>;
                        t = (if source_is_pipe
                             then t\<lparr>security := facade_register_pipe_fd (security t) (of_nat new_fd)\<rparr> else t)
                    in Some (Value (int new_fd), set_tcb pid t k))) }"

text \<open>The two descriptor numbers go to the user buffer one after the other.\<close>

definition copy_pipe_fds ::
    "phys_mem \<Rightarrow> usize \<Rightarrow> usize \<Rightarrow> nat \<Rightarrow> nat \<Rightarrow> (IpcError option \<times> phys_mem) option" where
  "copy_pipe_fds m tok pipe read_fd write_fd =
     do { r \<leftarrow> returns (copy_to_user m tok pipe (le_bytes 8 (of_nat read_fd :: usize)));
          (case r of
             Inl error \<Rightarrow> Some (Some error, m)
           | Inr m \<Rightarrow>
               do { r \<leftarrow> returns (copy_to_user m tok (pipe + 8) (le_bytes 8 (of_nat write_fd :: usize)));
                    (case r of Inl error \<Rightarrow> Some (Some error, m) | Inr m \<Rightarrow> Some (None, m)) }) }"

definition take_fd :: "nat \<Rightarrow> TaskControlBlock \<Rightarrow> TaskControlBlock" where
  "take_fd fd t = (if fd < length (fd_table t) then t\<lparr>fd_table := (fd_table t)[fd := None]\<rparr> else t)"

definition sys_pipe ::
    "('fs, 'inode) platform \<Rightarrow> usize \<Rightarrow> ('fs, 'inode) kernel \<Rightarrow> (isize flow \<times> ('fs, 'inode) kernel) option" where
  "sys_pipe pf pipe k =
     do { (pid, t) \<leftarrow> current_task k;
          let credentials = sec_credentials (security t);
          let request = ipc_request pid t \<lparr>obj_id = 0, obj_owner_uid = cred_uid credentials\<rparr> PipeCreate 1;
          (r, k) \<leftarrow> task_preflight pf pid request k;
          (case r of
             Inl error \<Rightarrow> Some (Value (ipc_error_to_ret error), k)
           | Inr permit \<Rightarrow>
               let (ends, pipes) = make_pipe (cred_uid credentials) (k_pipes k);
                   k = k\<lparr>k_pipes := pipes\<rparr> in
               (case ends of
                  Inl error \<Rightarrow>
                    do { (r, k) \<leftarrow> task_complete pf pid permit (Inl error) k; Some (Value (ret_of_result r), k) }
                | Inr (pipe_read, pipe_write) \<Rightarrow>
                    do { t \<leftarrow> tcb k pid;
                         let (read_fd, t) = alloc_fd t;
                         let t = t\<lparr>fd_table := (fd_table t)[read_fd := Some (F_Pipe pipe_read)]\<rparr>;
                         let (write_fd, t) = alloc_fd t;
                         let t = t\<lparr>fd_table := (fd_table t)[write_fd := Some (F_Pipe pipe_write)]\<rparr>;
                         let k = set_tcb pid t k;
                         (copy_result, m) \<leftarrow> copy_pipe_fds (k_mem k) (get_user_token t) pipe read_fd write_fd;
                         let k = set_mem m k;
                         (case copy_result of
                            None \<Rightarrow>
                              do { let t = t\<lparr>security := facade_register_pipe_fd (security t) (of_nat read_fd)\<rparr>;
                                   let t = t\<lparr>security := facade_register_pipe_fd (security t) (of_nat write_fd)\<rparr>;
                                   (r, k) \<leftarrow> task_complete pf pid permit (Inr 0) (set_tcb pid t k);
                                   Some (Value (ret_of_result r), k) }
                          | Some error \<Rightarrow>
                              do { let t = take_fd write_fd (take_fd read_fd t);
                                   (r, k) \<leftarrow> task_complete pf pid permit (Inl error) (set_tcb pid t k);
                                   Some (Value (ret_of_result r), k) }) })) }"

end
