(* ===== verification/Descriptors.thy ===== *)
theory Descriptors
  imports Process_Model Syscall_Fs
begin

text \<open>
  Accounting of descriptors: every operation on the descriptor table of a task keeps the quota
  equal to what is open (\<open>fd_inv\<close>). The lemmas follow the life of a descriptor: charged by a
  reservation, installed in the lowest free slot, registered when it is an end of a pipe,
  and released again.
\<close>

lemma alloc_fd_facts:
  assumes "alloc_fd t = (fd, t1)"
  shows "t1 = t\<lparr>fd_table := fd_table t1\<rparr>" "fd < length (fd_table t1)" "fd_table t1 ! fd = None"
    "open_fds t1 = open_fds t" "pipe_fds t1 = pipe_fds t" "fd \<notin> open_fds t"
    "\<exists>n. fd_table t1 = fd_table t @ replicate n None"
    "length (fd_table t) \<le> 32 \<Longrightarrow> card (open_fds t) < 32 \<Longrightarrow> length (fd_table t1) \<le> 32"
proof -
  have *: "t1 = t\<lparr>fd_table := fd_table t1\<rparr> \<and> fd < length (fd_table t1) \<and> fd_table t1 ! fd = None
      \<and> open_fds t1 = open_fds t \<and> pipe_fds t1 = pipe_fds t \<and> fd \<notin> open_fds t
      \<and> (\<exists>n. fd_table t1 = fd_table t @ replicate n None)
      \<and> (length (fd_table t) \<le> 32 \<longrightarrow> card (open_fds t) < 32 \<longrightarrow> length (fd_table t1) \<le> 32)"
  proof (cases "position (\<lambda>f. f = None) (fd_table t)")
    case (Some i)
    then have "t1 = t" "fd = i" using assms by (simp_all add: alloc_fd_def)
    then show ?thesis using position_SomeD [OF Some] by (auto simp: open_fds_def intro!: exI [of _ 0])
  next
    case None
    then have t1: "t1 = t\<lparr>fd_table := fd_table t @ [None]\<rparr>" "fd = length (fd_table t)"
      using assms by (simp_all add: alloc_fd_def Let_def)
    have "open_fds t = {..<length (fd_table t)}"
      using None by (auto simp: open_fds_def position_None_iff)
    then have "length (fd_table t) = card (open_fds t)" by simp
    then show ?thesis
      by (auto simp: t1 open_fds_def pipe_fds_def nth_append less_Suc_eq split: if_splits intro!: exI [of _ 1])
  qed
  then show "t1 = t\<lparr>fd_table := fd_table t1\<rparr>" "fd < length (fd_table t1)" "fd_table t1 ! fd = None"
    "open_fds t1 = open_fds t" "pipe_fds t1 = pipe_fds t" "fd \<notin> open_fds t"
    "\<exists>n. fd_table t1 = fd_table t @ replicate n None"
    "length (fd_table t) \<le> 32 \<Longrightarrow> card (open_fds t) < 32 \<Longrightarrow> length (fd_table t1) \<le> 32"
    by blast+
qed

lemma finite_open_fds [simp]: "finite (open_fds t)"
  by (simp add: open_fds_def)

lemma pipe_fds_open: "pipe_fds t \<subseteq> open_fds t"
  by (auto simp: pipe_fds_def open_fds_def elim: is_pipe_file.elims)

lemma open_fds_install:
  assumes "fd < length (fd_table t)" "fd_table t ! fd = None"
  shows "open_fds (t\<lparr>fd_table := (fd_table t)[fd := Some f]\<rparr>) = insert fd (open_fds t)"
    "pipe_fds (t\<lparr>fd_table := (fd_table t)[fd := Some f]\<rparr>) = (if is_pipe_file (Some f) then insert fd (pipe_fds t) else pipe_fds t)"
  using assms by (auto simp: open_fds_def pipe_fds_def nth_list_update split: if_splits)

lemma open_fds_take:
  "open_fds (t\<lparr>fd_table := (fd_table t)[fd := None]\<rparr>) = open_fds t - {fd}"
  "pipe_fds (t\<lparr>fd_table := (fd_table t)[fd := None]\<rparr>) = pipe_fds t - {fd}"
  by (cases "fd < length (fd_table t)"; auto simp: open_fds_def pipe_fds_def nth_list_update split: if_splits)+

text \<open>Charging, installing in the lowest free slot, and giving back.\<close>

lemma acctD:
  assumes "acct t P rf rp"
  shows "card (open_fds t) + rf \<le> 32" "length (fd_table t) \<le> 32"
    "quota_repr (sec_quota (security t)) (open_fds t) P rf rp"
  using assms by (auto simp: acct_def dest: quota_reprD)

lemma acct_install:
  assumes a: "acct t P (Suc rf) rp" and al: "alloc_fd t = (fd, t1)"
    and t2: "t2 = t1\<lparr>fd_table := (fd_table t1)[fd := Some f]\<rparr>"
  shows "acct t2 P rf rp" "open_fds t2 = insert fd (open_fds t)" "fd < 32" "fd \<notin> open_fds t"
    "pipe_fds t2 = (if is_pipe_file (Some f) then insert fd (pipe_fds t) else pipe_fds t)"
    "security t2 = security t" "t2 = t\<lparr>fd_table := fd_table t2\<rparr>"
proof -
  note A = alloc_fd_facts [OF al] and D = acctD [OF a]
  obtain fs where t1: "t1 = t\<lparr>fd_table := fs\<rparr>" using A(1) by blast
  have len: "length (fd_table t1) \<le> 32" using A(8) D(1,2) by simp
  then show fd: "fd < 32" using A(2) by simp
  note I = open_fds_install [OF A(2,3), of f]
  show op: "open_fds t2 = insert fd (open_fds t)"
    "pipe_fds t2 = (if is_pipe_file (Some f) then insert fd (pipe_fds t) else pipe_fds t)"
    unfolding t2 using I A(4,5) by simp_all
  show sec: "security t2 = security t" by (simp add: t2 t1)
  show "fd \<notin> open_fds t" by (rule A(6))
  then have "quota_repr (sec_quota (security t)) (insert fd (open_fds t)) P rf rp"
    using quota_repr_install [OF D(3) _ fd] by simp
  then show "acct t2 P rf rp" unfolding acct_def op sec using len by (simp add: t2)
  show "t2 = t\<lparr>fd_table := fd_table t2\<rparr>" by (simp add: t2 t1)
qed

section \<open>The operations\<close>

lemma self_updI:
  assumes "t' = t\<lparr>fd_table := fs, security := st\<rparr>" "st = (security t)\<lparr>sec_quota := sec_quota st\<rparr>"
    "fd_inv t \<Longrightarrow> fd_inv t'"
  shows "self_upd t t'"
proof (rule upd_fds [where q = "sec_quota st" and fs = fs])
  show "t' = t\<lparr>security := (security t)\<lparr>sec_quota := sec_quota st\<rparr>, fd_table := fs\<rparr>"
    unfolding assms(1) assms(2) [symmetric] by simp
qed (use assms(3) in blast)

lemma reserve_file_fd_facts:
  assumes "reserve_file_fd st = (r, st')"
  shows "st' = st\<lparr>sec_quota := sec_quota st'\<rparr>" "isl r \<Longrightarrow> st' = st"
    "\<not> isl r \<Longrightarrow> quota_repr (sec_quota st) F P rf rp \<Longrightarrow> quota_repr (sec_quota st') F P (Suc rf) rp"
proof -
  obtain q where q: "reserve_files 1 (sec_quota st) = (r, q)" "st' = st\<lparr>sec_quota := q\<rparr>"
    using assms by (auto simp: reserve_file_fd_def split: prod.splits)
  show "st' = st\<lparr>sec_quota := sec_quota st'\<rparr>" by (simp add: q)
  show "isl r \<Longrightarrow> st' = st" using q by (auto simp: reserve_files_def split: option.splits if_splits)
  show "quota_repr (sec_quota st') F P (Suc rf) rp" if "\<not> isl r" "quota_repr (sec_quota st) F P rf rp"
    using q that reserve_files_cases [OF that(2), of 1] quota_repr_charge_files [OF that(2), of 1]
    by (auto split: if_splits)
qed

lemma upd_open:
  assumes r: "reserve_file_fd (security t) = (Inr u, st)" and al: "alloc_fd (t\<lparr>security := st\<rparr>) = (fd, t1)"
    and f: "\<not> is_pipe_file (Some f)"
  shows "self_upd t (t1\<lparr>fd_table := (fd_table t1)[fd := Some f]\<rparr>)" (is "self_upd t ?t2")
proof (rule self_updI)
  let ?t0 = "t\<lparr>security := st\<rparr>"
  note R = reserve_file_fd_facts [OF r]
  obtain fs where t1: "t1 = ?t0\<lparr>fd_table := fs\<rparr>" using alloc_fd_facts(1) [OF al] by blast
  show "?t2 = t\<lparr>fd_table := (fd_table t1)[fd := Some f], security := st\<rparr>" by (simp add: t1)
  show "st = (security t)\<lparr>sec_quota := sec_quota st\<rparr>" by (rule R(1))
  assume "fd_inv t"
  then have "acct ?t0 (pipe_fds t) (Suc 0) 0" using R(3) by (simp add: fd_inv_def acct_def open_fds_def)
  then have I: "acct ?t2 (pipe_fds t) 0 0"
      "pipe_fds ?t2 = (if is_pipe_file (Some f) then insert fd (pipe_fds ?t0) else pipe_fds ?t0)"
    using acct_install(1,5) [of ?t0 "pipe_fds t" 0 0 fd t1 ?t2 f] al by simp_all
  have "pipe_fds ?t0 = pipe_fds t" by (simp add: pipe_fds_def)
  then show "fd_inv ?t2" unfolding fd_inv_def using I f by simp
qed

lemma upd_close:
  assumes "fd_lookup t fd \<noteq> None"
  shows "self_upd t (t\<lparr>fd_table := (fd_table t)[unat fd := None], security := release_fd (security t) fd\<rparr>)"
    (is "self_upd t ?t1")
proof (rule self_updI)
  show "?t1 = t\<lparr>fd_table := (fd_table t)[unat fd := None], security := release_fd (security t) fd\<rparr>" ..
  show "release_fd (security t) fd = (security t)\<lparr>sec_quota := sec_quota (release_fd (security t) fd)\<rparr>"
    by (simp add: release_fd_def)
  assume inv: "fd_inv t"
  have fd: "unat fd \<in> open_fds t" using assms by (auto simp: fd_lookup_def open_fds_def split: if_splits)
  have "open_fds ?t1 = open_fds t - {unat fd}" "pipe_fds ?t1 = pipe_fds t - {unat fd}"
    using open_fds_take [of t "unat fd"] by (simp_all add: open_fds_def pipe_fds_def)
  then show "fd_inv ?t1"
    using inv quota_repr_release [OF _ fd] by (simp add: fd_inv_def acct_def release_fd_def)
qed

lemma fd_inv_is_pipe:
  assumes "fd_inv t" "fd_lookup t fd = Some f"
  shows "is_pipe_fd (sec_quota (security t)) fd \<longleftrightarrow> is_pipe_file (Some f)"
  using assms quota_repr_is_pipe [OF acctD(3)] by (auto simp: fd_inv_def pipe_fds_def fd_lookup_def split: if_splits)

lemma reserve_dup_fd_facts:
  assumes "reserve_dup_fd st fd = (r, st')"
  shows "st' = st\<lparr>sec_quota := sec_quota st'\<rparr>" "isl r \<Longrightarrow> st' = st"
    "r = Inr b \<Longrightarrow> b = is_pipe_fd (sec_quota st) fd"
    "r = Inr b \<Longrightarrow> quota_repr (sec_quota st) F P rf rp \<Longrightarrow> quota_repr (sec_quota st') F P (Suc rf) (if b then Suc rp else rp)"
proof -
  obtain q where q: "quota_reserve_dup_fd fd (sec_quota st) = (r, q)" "st' = st\<lparr>sec_quota := q\<rparr>"
    using assms by (auto simp: reserve_dup_fd_def split: prod.splits)
  show "st' = st\<lparr>sec_quota := sec_quota st'\<rparr>" by (simp add: q)
  show "isl r \<Longrightarrow> st' = st"
    using q by (auto simp: quota_reserve_dup_fd_def Let_def reserve_files_def reserve_pipe_fds_def
        split: option.splits if_splits sum.splits prod.splits)
  show b: "r = Inr b \<Longrightarrow> b = is_pipe_fd (sec_quota st) fd"
    using q by (auto simp: quota_reserve_dup_fd_def Let_def split: sum.splits prod.splits)
  show "quota_repr (sec_quota st') F P (Suc rf) (if b then Suc rp else rp)"
    if r: "r = Inr b" and repr: "quota_repr (sec_quota st) F P rf rp"
    using q r b [OF r] reserve_files_cases [OF repr, of 1] quota_repr_charge_files [OF repr, of 1]
      reserve_pipe_fds_cases [OF repr, of 1] quota_repr_charge_pipes [OF repr, of 1]
    by (auto simp: quota_reserve_dup_fd_def Let_def split: if_splits sum.splits prod.splits)
qed

lemma unat_of_nat_fd: "i < 32 \<Longrightarrow> unat (of_nat i :: usize) = i"
  by (simp add: unsigned_of_nat take_bit_nat_eq_self)

lemma acct_register:
  assumes "acct t P rf (Suc rp)" "i \<in> open_fds t" "i \<notin> P" "i < 32"
  shows "acct (t\<lparr>security := facade_register_pipe_fd (security t) (of_nat i)\<rparr>) (insert i P) rf rp"
  using assms quota_repr_register [of "sec_quota (security t)" "open_fds t" P rf rp "of_nat i"]
  by (simp add: acct_def open_fds_def facade_register_pipe_fd_def unat_of_nat_fd)

lemma upd_dup:
  assumes f: "fd_lookup t fd = Some f" and r: "reserve_dup_fd (security t) fd = (Inr b, st)"
    and al: "alloc_fd (t\<lparr>security := st\<rparr>) = (n, t1)" and t2: "t2 = t1\<lparr>fd_table := (fd_table t1)[n := Some f]\<rparr>"
    and t3: "t3 = (if b then t2\<lparr>security := facade_register_pipe_fd (security t2) (of_nat n)\<rparr> else t2)"
  shows "self_upd t t3"
proof (rule self_updI)
  let ?t0 = "t\<lparr>security := st\<rparr>"
  note R = reserve_dup_fd_facts [OF r]
  obtain fs where t1: "t1 = ?t0\<lparr>fd_table := fs\<rparr>" using alloc_fd_facts(1) [OF al] by blast
  let ?s3 = "if b then facade_register_pipe_fd st (of_nat n) else st"
  show "t3 = t\<lparr>fd_table := (fd_table t1)[n := Some f], security := ?s3\<rparr>" by (simp add: t3 t2 t1)
  obtain q where "st = (security t)\<lparr>sec_quota := q\<rparr>" using R(1) by blast
  then show "?s3 = (security t)\<lparr>sec_quota := sec_quota ?s3\<rparr>" by (simp add: facade_register_pipe_fd_def)
  assume inv: "fd_inv t"
  have b: "b \<longleftrightarrow> is_pipe_file (Some f)" using R(3) fd_inv_is_pipe [OF inv f] by simp
  have "acct ?t0 (pipe_fds t) (Suc 0) (if b then Suc 0 else 0)"
    using inv R(4) [OF refl] by (simp add: fd_inv_def acct_def open_fds_def)
  note I = acct_install [OF this al t2]
  have p0: "pipe_fds ?t0 = pipe_fds t" "open_fds ?t0 = open_fds t" by (simp_all add: pipe_fds_def open_fds_def)
  note sub = pipe_fds_open [of t]
  show "fd_inv t3"
  proof (cases b)
    case True
    have "acct t3 (insert n (pipe_fds t)) 0 0"
      using acct_register [of t2 "pipe_fds t" 0 0 n] I(1-4) p0 sub True by (auto simp: t3)
    moreover have "pipe_fds t3 = insert n (pipe_fds t)" using I(5) p0 True b by (simp add: t3 pipe_fds_def)
    ultimately show ?thesis by (simp add: fd_inv_def)
  next
    case False
    then show ?thesis using I(1,5) p0 b by (simp add: t3 fd_inv_def)
  qed
qed

section \<open>Pipe creation\<close>

lemma preflight_facts:
  assumes "preflight now st ring rq = (r, st', ring')"
  shows "st' = st\<lparr>sec_quota := sec_quota st'\<rparr>" "isl r \<Longrightarrow> st' = st" "req_operation rq \<noteq> PipeCreate \<Longrightarrow> st' = st"
    "r = Inr permit \<Longrightarrow> req_operation rq = PipeCreate \<Longrightarrow> quota_repr (sec_quota st) F P rf rp
       \<Longrightarrow> quota_repr (sec_quota st') F P (Suc (Suc rf)) (Suc (Suc rp))"
    "r = Inr permit \<Longrightarrow> permit_request permit = rq"
    "r = Inr permit \<Longrightarrow> req_operation rq \<noteq> PipeCreate \<Longrightarrow> permit_reservation permit = \<lparr>res_kind = QR_None, res_amount = 0\<rparr>"
proof -
  obtain v q where q: "quota_reserve (sec_quota st) rq = (v, q)" by fastforce
  have st': "st' = st \<or> (st' = st\<lparr>sec_quota := q\<rparr> \<and> authorize rq = Inr ())"
    using assms q by (cases "authorize rq"; cases v) (auto simp: preflight_def)
  then show "st' = st\<lparr>sec_quota := sec_quota st'\<rparr>" by auto
  show "isl r \<Longrightarrow> st' = st"
    using assms q quota_reserve_Inl [of "sec_quota st" rq] by (cases "authorize rq"; cases v) (auto simp: preflight_def)
  show "req_operation rq \<noteq> PipeCreate \<Longrightarrow> st' = st"
    using st' q by (auto simp: quota_reserve_def split: IpcOperation.splits)
  show "r = Inr permit \<Longrightarrow> permit_request permit = rq"
    using assms q by (cases "authorize rq"; cases v) (auto simp: preflight_def)
  show "r = Inr permit \<Longrightarrow> req_operation rq \<noteq> PipeCreate \<Longrightarrow> permit_reservation permit = \<lparr>res_kind = QR_None, res_amount = 0\<rparr>"
    using assms q by (cases "authorize rq"; cases v) (auto simp: preflight_def quota_reserve_def split: IpcOperation.splits)
  assume r: "r = Inr permit" "req_operation rq = PipeCreate" and repr: "quota_repr (sec_quota st) F P rf rp"
  have ok: "st' = st\<lparr>sec_quota := q\<rparr>" "\<not> isl v"
    using assms q r by (cases "authorize rq"; cases v; auto simp: preflight_def)+
  then have "reserve_pipe_fds 2 (sec_quota st) = (Inr (), q)"
    using q r(2) by (auto simp: quota_reserve_def model_defs split: sum.splits prod.splits)
  then show "quota_repr (sec_quota st') F P (Suc (Suc rf)) (Suc (Suc rp))"
    using ok(1) reserve_pipe_fds_cases [OF repr, of 2] quota_repr_charge_pipes [OF repr, of 2]
    by (auto split: if_splits)
qed

lemma complete_facts:
  assumes "complete now st ring permit outcome = (r, st', ring')"
  shows "r = outcome" "st' = st\<lparr>sec_quota := sec_quota st'\<rparr>" "\<not> isl outcome \<Longrightarrow> st' = st"
    "permit_reservation permit = \<lparr>res_kind = QR_None, res_amount = 0\<rparr> \<Longrightarrow> st' = st"
  using assms by (auto simp: complete_def quota_finish_def)

lemma upd_pipe_ok:
  assumes pre: "preflight now (security t) ring rq = (Inr permit, st, ring')" "req_operation rq = PipeCreate"
    and al: "alloc_fd (t\<lparr>security := st\<rparr>) = (r, t1)" "t2 = t1\<lparr>fd_table := (fd_table t1)[r := Some (F_Pipe pr)]\<rparr>"
      "alloc_fd t2 = (w, t3)" "t4 = t3\<lparr>fd_table := (fd_table t3)[w := Some (F_Pipe pw)]\<rparr>"
    and reg: "t5 = t4\<lparr>security := facade_register_pipe_fd (security t4) (of_nat r)\<rparr>"
      "t6 = t5\<lparr>security := facade_register_pipe_fd (security t5) (of_nat w)\<rparr>"
  shows "self_upd t t6"
proof (rule self_updI)
  let ?t0 = "t\<lparr>security := st\<rparr>"
  note R = preflight_facts [OF pre(1)]
  obtain fs where t1: "t1 = ?t0\<lparr>fd_table := fs\<rparr>" using alloc_fd_facts(1) [OF al(1)] by blast
  obtain gs where t3: "t3 = t2\<lparr>fd_table := gs\<rparr>" using alloc_fd_facts(1) [OF al(3)] by blast
  let ?s6 = "facade_register_pipe_fd (facade_register_pipe_fd st (of_nat r)) (of_nat w)"
  show "t6 = t\<lparr>fd_table := fd_table t6, security := ?s6\<rparr>" by (simp add: reg al(2,4) t1 t3)
  obtain q where "st = (security t)\<lparr>sec_quota := q\<rparr>" using R(1) by blast
  then show "?s6 = (security t)\<lparr>sec_quota := sec_quota ?s6\<rparr>" by (simp add: facade_register_pipe_fd_def)
  assume inv: "fd_inv t"
  have p0: "pipe_fds ?t0 = pipe_fds t" "open_fds ?t0 = open_fds t" by (simp_all add: pipe_fds_def open_fds_def)
  have "acct ?t0 (pipe_fds t) (Suc (Suc 0)) (Suc (Suc 0))"
    using inv R(4) [OF refl pre(2)] by (simp add: fd_inv_def acct_def open_fds_def)
  note I = acct_install [OF this al(1,2)]
  note J = acct_install [OF I(1) al(3,4)]
  note sub = pipe_fds_open [of t]
  have "acct t5 (insert r (pipe_fds t)) 0 (Suc 0)"
    unfolding reg(1) by (rule acct_register [OF J(1)]) (use J(2) I(2,3,4) p0 sub in auto)
  moreover have "open_fds t5 = open_fds t4" by (simp add: reg open_fds_def)
  ultimately have "acct t6 (insert w (insert r (pipe_fds t))) 0 0"
    unfolding reg(2) by (rule_tac acct_register) (use J(2-4) I(2,4) p0 sub in auto)
  moreover have "pipe_fds t6 = insert w (insert r (pipe_fds t))"
    using J(5) I(5) p0 by (simp add: reg pipe_fds_def)
  ultimately show "fd_inv t6" by (simp add: fd_inv_def)
qed

text \<open>A failed creation leaves the open descriptors and the quota as they were.\<close>

lemma pipe_rollback_table:
  assumes al: "alloc_fd t0 = (r, t1)" "t2 = t1\<lparr>fd_table := (fd_table t1)[r := Some f]\<rparr>"
      "alloc_fd t2 = (w, t3)" "t4 = t3\<lparr>fd_table := (fd_table t3)[w := Some g]\<rparr>"
    and t5: "t5 = take_fd w (take_fd r t4)"
  shows "\<exists>n. t5 = t0\<lparr>fd_table := fd_table t0 @ replicate n None\<rparr>" "open_fds t5 = open_fds t0" "pipe_fds t5 = pipe_fds t0"
proof -
  note A = alloc_fd_facts [OF al(1)] and B = alloc_fd_facts [OF al(3)]
  obtain n where n: "fd_table t1 = fd_table t0 @ replicate n None" using A(7) by blast
  obtain m where m: "fd_table t3 = fd_table t2 @ replicate m None" using B(7) by blast
  have r: "r < length (fd_table t1)" "fd_table t1 ! r = None" using A(2,3) by simp_all
  have w: "w < length (fd_table t3)" "fd_table t3 ! w = None" using B(2,3) by simp_all
  have wr: "w \<noteq> r" using w(2) r(1) by (auto simp: m al(2) nth_append)
  have tb: "fd_table t4 = (fd_table t3)[w := Some g]" by (simp add: al(4))
  have "fd_table t5 = (fd_table t4)[r := None, w := None]"
    using r(1) w(1) by (simp add: t5 take_fd_def tb m al(2))
  also have "\<dots> = (fd_table t3)[r := None]"
    using wr w unfolding tb by (metis list_update_id list_update_overwrite list_update_swap)
  also have "\<dots> = (fd_table t1)[r := None] @ replicate m None"
    using r(1) unfolding m al(2) by (simp add: list_update_append)
  also have "\<dots> = fd_table t0 @ replicate (n + m) None"
    using r(2) n by (metis append.assoc list_update_id replicate_add)
  finally have tab: "fd_table t5 = fd_table t0 @ replicate (n + m) None" .
  obtain fs where t1: "t1 = t0\<lparr>fd_table := fs\<rparr>" using A(1) by blast
  obtain gs where t3: "t3 = t2\<lparr>fd_table := gs\<rparr>" using B(1) by blast
  have "\<exists>hs. t5 = t0\<lparr>fd_table := hs\<rparr>" by (simp add: t5 take_fd_def al(2,4) t1 t3) blast
  then obtain hs where hs: "t5 = t0\<lparr>fd_table := hs\<rparr>" by blast
  with tab have "t5 = t0\<lparr>fd_table := fd_table t0 @ replicate (n + m) None\<rparr>" by simp
  then show "\<exists>n. t5 = t0\<lparr>fd_table := fd_table t0 @ replicate n None\<rparr>" ..
  have "fd_table t5 ! x = (if x < length (fd_table t0) then fd_table t0 ! x else None)"
    if "x < length (fd_table t5)" for x
    using that unfolding tab by (simp add: nth_append)
  moreover have "length (fd_table t0) \<le> length (fd_table t5)" by (simp add: tab)
  ultimately show "open_fds t5 = open_fds t0" "pipe_fds t5 = pipe_fds t0"
    unfolding open_fds_def pipe_fds_def by (auto split: if_splits)
qed

lemma upd_pipe_fail:
  assumes pre: "preflight now (security t) ring rq = (Inr permit, st, ring')" "req_operation rq = PipeCreate"
    and al: "alloc_fd (t\<lparr>security := st\<rparr>) = (r, t1)" "t2 = t1\<lparr>fd_table := (fd_table t1)[r := Some (F_Pipe pr)]\<rparr>"
      "alloc_fd t2 = (w, t3)" "t4 = t3\<lparr>fd_table := (fd_table t3)[w := Some (F_Pipe pw)]\<rparr>"
    and t5: "t5 = take_fd w (take_fd r t4)"
    and c: "complete now' (security t5) ring'' permit (Inl e) = (v, st', ring3)" and t6: "t6 = t5\<lparr>security := st'\<rparr>"
  shows "self_upd t t6" "fd_inv t \<Longrightarrow> \<exists>n. t6 = t\<lparr>fd_table := fd_table t @ replicate n None\<rparr>"
proof -
  let ?t0 = "t\<lparr>security := st\<rparr>"
  note R = preflight_facts [OF pre(1)] and C = complete_facts [OF c] and T = pipe_rollback_table [OF al t5]
  obtain n where n: "t5 = ?t0\<lparr>fd_table := fd_table ?t0 @ replicate n None\<rparr>" using T(1) by blast
  have t6': "t6 = t\<lparr>fd_table := fd_table t @ replicate n None, security := st'\<rparr>" by (simp add: t6 n)
  obtain q where q: "st = (security t)\<lparr>sec_quota := q\<rparr>" using R(1) by blast
  obtain q' where q': "st' = st\<lparr>sec_quota := q'\<rparr>" using C(2) by (auto simp: n)
  have undo: "st' = security t" if "fd_inv t"
  proof -
    have "quota_repr (sec_quota (security t)) (open_fds t) (pipe_fds t) 0 0" using that by (simp add: fd_inv_def acct_def)
    from complete_rolls_back [OF this pre(1), where now' = now' and ring'' = ring'' and e = e] show ?thesis using c by (simp add: n)
  qed
  show "self_upd t t6"
  proof (rule self_updI [OF t6'])
    show "st' = (security t)\<lparr>sec_quota := sec_quota st'\<rparr>" by (simp add: q' q)
    assume inv: "fd_inv t"
    have "acct ?t0 (pipe_fds t) (Suc (Suc 0)) (Suc (Suc 0))"
      using inv R(4) [OF refl pre(2)] by (simp add: fd_inv_def acct_def open_fds_def)
    then have "acct t2 (pipe_fds t) (Suc 0) (Suc (Suc 0))" by (rule acct_install(1) [OF _ al(1,2)])
    then have "acct t4 (pipe_fds t) 0 (Suc (Suc 0))" by (rule acct_install(1) [OF _ al(3,4)])
    then have "length (fd_table t5) \<le> 32" by (simp add: acct_def t5 take_fd_def)
    moreover have "open_fds t6 = open_fds t" "pipe_fds t6 = pipe_fds t" "fd_table t6 = fd_table t5"
      using T(2,3) by (simp_all add: t6 open_fds_def pipe_fds_def)
    ultimately show "fd_inv t6" using inv undo [OF inv] by (simp add: fd_inv_def acct_def t6')
  qed
  show "\<exists>n. t6 = t\<lparr>fd_table := fd_table t @ replicate n None\<rparr>" if "fd_inv t"
    unfolding t6' using undo [OF that] by auto
qed

end
