(* ===== verification/Signal_Delivery.thy ===== *)
theory Signal_Delivery
  imports Process
begin

text \<open>
  Delivery of signals to the current task (os/src/task/mod.rs). The kernel runs it at the end of
  every trap; a user handler runs when the trap returns, because its address replaces the saved
  program counter.
\<close>

definition check_signals_error_of_current :: "('fs, 'inode) kernel \<Rightarrow> i32 option option" where
  "check_signals_error_of_current k = do { (pid, t) \<leftarrow> current_task k; Some (check_error (signals t)) }"

definition current_add_signal :: "SignalFlags \<Rightarrow> ('fs, 'inode) kernel \<Rightarrow> ('fs, 'inode) kernel option" where
  "current_add_signal signal k =
     do { (pid, t) \<leftarrow> current_task k; Some (set_tcb pid (t\<lparr>signals := signals t OR signal\<rparr>) k) }"

definition call_kernel_signal_handler :: "SignalFlags \<Rightarrow> TaskControlBlock \<Rightarrow> TaskControlBlock" where
  "call_kernel_signal_handler signal t =
     (if signal = SIGSTOP then t\<lparr>frozen := True, signals := signals t XOR SIGSTOP\<rparr>
      else if signal = SIGCONT then
        if sig_contains (signals t) SIGCONT then t\<lparr>signals := signals t XOR SIGCONT, frozen := False\<rparr> else t
      else t\<lparr>killed := True\<rparr>)"

text \<open>The task and its trap context, which the handler call rewrites.\<close>

definition call_user_signal_handler ::
    "nat \<Rightarrow> SignalFlags \<Rightarrow> TaskControlBlock \<times> TrapContext \<Rightarrow> (TaskControlBlock \<times> TrapContext) option" where
  "call_user_signal_handler sig signal = (\<lambda>(t, cx).
     if sig < length (signal_actions t) then
       let handler = sa_handler (signal_actions t ! sig) in
       if handler \<noteq> 0 then
         Some (t\<lparr>handling_sig := int sig, signals := signals t XOR signal, trap_ctx_backup := Some cx\<rparr>,
               cx\<lparr>tc_sepc := handler, tc_x := (tc_x cx)[10 := of_nat sig]\<rparr>)
       else Some (t, cx)
     else None)"

text \<open>Whether a signal is held back by the handler that runs; an index out of range panics.\<close>

definition handler_masks :: "TaskControlBlock \<Rightarrow> SignalFlags \<Rightarrow> bool option" where
  "handler_masks t signal =
     (if handling_sig t = - 1 then Some False
      else if 0 \<le> handling_sig t \<and> nat (handling_sig t) < length (signal_actions t)
      then Some (sig_contains (sa_mask (signal_actions t ! nat (handling_sig t))) signal)
      else None)"

fun check_pending_from ::
    "nat list \<Rightarrow> TaskControlBlock \<times> TrapContext \<Rightarrow> (TaskControlBlock \<times> TrapContext) option" where
  "check_pending_from [] s = Some s"
| "check_pending_from (sig # sigs) (t, cx) =
     do { signal \<leftarrow> sig_from_bits (sig_bit sig);
          if sig_contains (signals t) signal \<and> \<not> sig_contains (signal_mask t) signal then do {
            masked \<leftarrow> handler_masks t signal;
            if masked then check_pending_from sigs (t, cx)
            else if signal = SIGKILL \<or> signal = SIGSTOP \<or> signal = SIGCONT \<or> signal = SIGDEF
            then check_pending_from sigs (call_kernel_signal_handler signal t, cx)
            else call_user_signal_handler sig signal (t, cx) }
          else check_pending_from sigs (t, cx) }"

definition check_pending_signals :: "('fs, 'inode) kernel \<Rightarrow> ('fs, 'inode) kernel option" where
  "check_pending_signals k =
     do { (pid, t) \<leftarrow> current_task k;
          (t', cx) \<leftarrow> check_pending_from [0..<unat MAX_SIG + 1] (t, get_trap_cx t k);
          Some (put_trap_cx t' cx (set_tcb pid t' k)) }"

text \<open>
  One turn of the loop of \<open>handle_signals\<close>: it ends with a value, or a frozen task gives up the
  processor and goes on with the next turn.
\<close>

definition handle_signals :: "('fs, 'inode) kernel \<Rightarrow> (unit flow \<times> ('fs, 'inode) kernel) option" where
  "handle_signals k =
     do { k \<leftarrow> check_pending_signals k;
          (pid, t) \<leftarrow> current_task k;
          if \<not> frozen t \<or> killed t then Some (Value (), k)
          else do { k \<leftarrow> suspend_current_and_run_next Cx_frozen k; Some (Switched, k) } }"

end
