(* ===== verification/Syscall_Process.thy ===== *)
theory Syscall_Process
  imports Syscall_Fs Signal_Delivery
begin

text \<open>
  The system calls on processes, signals and credentials (os/src/syscall/process.rs).
\<close>

section \<open>Processes\<close>

definition sys_exit :: "i32 \<Rightarrow> ('fs, 'inode) kernel \<Rightarrow> (isize flow \<times> ('fs, 'inode) kernel) option" where
  "sys_exit code k = exit_current_and_run_next code k"

text \<open>The call returns 0 when the task runs again.\<close>

definition sys_yield :: "('fs, 'inode) kernel \<Rightarrow> (isize flow \<times> ('fs, 'inode) kernel) option" where
  "sys_yield k = do { k \<leftarrow> suspend_current_and_run_next Cx_yield k; Some (Switched, k) }"

definition sys_get_time ::
    "('fs, 'inode) platform \<Rightarrow> ('fs, 'inode) kernel \<Rightarrow> (isize flow \<times> ('fs, 'inode) kernel) option" where
  "sys_get_time pf k = do { (ms, k) \<leftarrow> get_time_ms pf k; Some (Value (as_isize ms), k) }"

definition sys_getpid :: "('fs, 'inode) kernel \<Rightarrow> (isize flow \<times> ('fs, 'inode) kernel) option" where
  "sys_getpid k = do { (pid, t) \<leftarrow> current_task k; Some (Value (as_isize pid), k) }"

definition sys_fork ::
    "('fs, 'inode) platform \<Rightarrow> ('fs, 'inode) kernel \<Rightarrow> (isize flow \<times> ('fs, 'inode) kernel) option" where
  "sys_fork pf k =
     do { (pid, _) \<leftarrow> current_task k;
          (new_pid, k) \<leftarrow> task_fork pf pid k;
          new_task \<leftarrow> tcb k new_pid;
          let cx = get_trap_cx new_task k;
          let k = put_trap_cx new_task (cx\<lparr>tc_x := (tc_x cx)[10 := 0]\<rparr>) k;
          Some (Value (as_isize new_pid), add_task new_pid k) }"

text \<open>
  The loop that collects the arguments; it ends at the latest when the limit is reached. The
  error is the value for the user.
\<close>

function exec_args ::
    "phys_mem \<Rightarrow> usize \<Rightarrow> usize \<Rightarrow> u8 list list \<Rightarrow> (isize + u8 list list) option" where
  "exec_args m tok args args_vec =
     do { r \<leftarrow> returns (copy_from_user m tok args 8);
          (case r of
             Inl _ \<Rightarrow> Some (Inl (- 14))
           | Inr bs \<Rightarrow>
               let arg_str_ptr = le_word (map the bs) :: usize in
               if arg_str_ptr = 0 then Some (Inr args_vec)
               else if unat MAX_ARGV \<le> length args_vec then Some (Inl (- 1))
               else do {
                 arg \<leftarrow> returns (try_translated_str m tok arg_str_ptr MAX_STR_LEN);
                 (case arg of
                    None \<Rightarrow> Some (Inl (- 14))
                  | Some arg \<Rightarrow> exec_args m tok (args + 8) (args_vec @ [arg])) }) }"
  by pat_completeness auto
termination
  by (relation "measure (\<lambda>(_, _, _, args_vec). unat MAX_ARGV - length args_vec)")
    (auto simp: MAX_ARGV_def)

declare exec_args.simps [simp del]

definition sys_exec ::
    "('fs, 'inode) platform \<Rightarrow> usize \<Rightarrow> usize \<Rightarrow> ('fs, 'inode) kernel
     \<Rightarrow> (isize flow \<times> ('fs, 'inode) kernel) option" where
  "sys_exec pf path args k =
     do { (pid, t) \<leftarrow> current_task k;
          let token = get_user_token t;
          name \<leftarrow> returns (try_translated_str (k_mem k) token path MAX_STR_LEN);
          (case name of
             None \<Rightarrow> Some (Value (- 14), k)
           | Some name \<Rightarrow>
               do { r \<leftarrow> exec_args (k_mem k) token args [];
                    (case r of
                       Inl e \<Rightarrow> Some (Value e, k)
                     | Inr args_vec \<Rightarrow>
                         do { (app_inode, k) \<leftarrow> open_file pf name RDONLY k;
                              (case app_inode of
                                 None \<Rightarrow> Some (Value (- 1), k)
                               | Some f \<Rightarrow>
                                   do { (all_data, k) \<leftarrow> read_all pf f k;
                                        k \<leftarrow> task_exec pf pid all_data args_vec k;
                                        Some (Value (int (length args_vec)), k) }) }) }) }"

definition wait_matches :: "isize \<Rightarrow> usize \<Rightarrow> bool" where
  "wait_matches pid p \<longleftrightarrow> pid = - 1 \<or> word_of_int pid = p"

definition zombie_at :: "('fs, 'inode) kernel \<Rightarrow> usize \<Rightarrow> bool" where
  "zombie_at k p \<longleftrightarrow> (case tcb k p of Some c \<Rightarrow> is_zombie c | None \<Rightarrow> False)"

definition sys_waitpid ::
    "isize \<Rightarrow> usize \<Rightarrow> ('fs, 'inode) kernel \<Rightarrow> (isize flow \<times> ('fs, 'inode) kernel) option" where
  "sys_waitpid pid exit_code_ptr k =
     do { (self, t) \<leftarrow> current_task k;
          if \<not> list_ex (wait_matches pid) (children t) then Some (Value (- 1), k)
          else (case position (\<lambda>p. zombie_at k p \<and> wait_matches pid p) (children t) of
                  None \<Rightarrow> Some (Value (- 2), k)
                | Some idx \<Rightarrow>
                    do { let found_pid = children t ! idx;
                         c \<leftarrow> tcb k found_pid;
                         r \<leftarrow> returns (copy_to_user (k_mem k) (get_user_token t) exit_code_ptr
                                        (le_bytes 4 (word_of_int (exit_code c) :: u32)));
                         (case r of
                            Inl _ \<Rightarrow> Some (Value (- 14), k)
                          | Inr m \<Rightarrow>
                              do { let rest = take idx (children t) @ drop (Suc idx) (children t);
                                   let k = set_tcb self (t\<lparr>children := rest\<rparr>) (set_mem m k);
                                   if strong_count k found_pid \<noteq> 0 then None
                                   else do { k \<leftarrow> tcb_drop found_pid k; Some (Value (as_isize found_pid), k) } }) }) }"

section \<open>Signals\<close>

definition sys_kill ::
    "('fs, 'inode) platform \<Rightarrow> usize \<Rightarrow> i32 \<Rightarrow> ('fs, 'inode) kernel \<Rightarrow> (isize flow \<times> ('fs, 'inode) kernel) option" where
  "sys_kill pf pid signum k =
     (if signum < 0 \<or> int (unat MAX_SIG) < signum then Some (Value (ipc_error_to_ret InvalidArgument), k)
      else case sig_from_bits (sig_bit (nat signum)) of
        None \<Rightarrow> Some (Value (ipc_error_to_ret InvalidArgument), k)
      | Some flag \<Rightarrow>
          (case pid2task k pid of
             None \<Rightarrow> Some (Value (ipc_error_to_ret ProcessNotFound), k)
           | Some target \<Rightarrow>
               do { (caller_pid, caller) \<leftarrow> current_task k;
                    target_task \<leftarrow> tcb k target;
                    let target_uid = cred_uid (sec_credentials (security target_task));
                    let request = ipc_request caller_pid caller \<lparr>obj_id = pid, obj_owner_uid = target_uid\<rparr> SignalSend 1;
                    (r, k) \<leftarrow> task_preflight pf caller_pid request k;
                    (case r of
                       Inl error \<Rightarrow> Some (Value (ipc_error_to_ret error), k)
                     | Inr permit \<Rightarrow>
                         do { target_task \<leftarrow> tcb k target;
                              let (outcome, target_task) =
                                    (if sig_contains (signals target_task) flag then (Inl TryAgain, target_task)
                                     else (Inr 1, target_task\<lparr>signals := sig_insert (signals target_task) flag\<rparr>));
                              (r, k) \<leftarrow> task_complete pf caller_pid permit outcome (set_tcb target target_task k);
                              Some (Value (case r of Inr _ \<Rightarrow> 0 | Inl error \<Rightarrow> ipc_error_to_ret error), k) }) }))"

definition sys_sigprocmask :: "u32 \<Rightarrow> ('fs, 'inode) kernel \<Rightarrow> (isize flow \<times> ('fs, 'inode) kernel) option" where
  "sys_sigprocmask new_mask k =
     (case k_current k of
        None \<Rightarrow> Some (Value (- 1), k)
      | Some pid \<Rightarrow>
          do { t \<leftarrow> tcb k pid;
               let old_mask = signal_mask t;
               (case sig_from_bits new_mask of
                  Some flag \<Rightarrow> Some (Value (int (unat old_mask)), set_tcb pid (t\<lparr>signal_mask := flag\<rparr>) k)
                | None \<Rightarrow> Some (Value (- 1), k)) })"

definition sys_sigreturn :: "('fs, 'inode) kernel \<Rightarrow> (isize flow \<times> ('fs, 'inode) kernel) option" where
  "sys_sigreturn k =
     (case k_current k of
        None \<Rightarrow> Some (Value (- 1), k)
      | Some pid \<Rightarrow>
          do { t \<leftarrow> tcb k pid;
               let t = t\<lparr>handling_sig := - 1\<rparr>;
               cx \<leftarrow> trap_ctx_backup t;
               Some (Value (as_isize (tc_x cx ! 10)), put_trap_cx t cx (set_tcb pid t k)) })"

definition check_sigaction_error :: "SignalFlags \<Rightarrow> usize \<Rightarrow> usize \<Rightarrow> bool" where
  "check_sigaction_error signal action old_action \<longleftrightarrow>
     action = 0 \<or> old_action = 0 \<or> signal = SIGKILL \<or> signal = SIGSTOP"

definition sys_sigaction ::
    "('fs, 'inode) platform \<Rightarrow> i32 \<Rightarrow> usize \<Rightarrow> usize \<Rightarrow> ('fs, 'inode) kernel
     \<Rightarrow> (isize flow \<times> ('fs, 'inode) kernel) option" where
  "sys_sigaction pf signum action old_action k =
     do { (pid, t) \<leftarrow> current_task k;
          let token = get_user_token t;
          if MAX_SIG < word_of_int signum then Some (Value (- 1), k)
          else (case sig_from_bits (sig_bit (nat signum)) of
                  None \<Rightarrow> Some (Value (- 1), k)
                | Some flag \<Rightarrow>
                    if check_sigaction_error flag action old_action then Some (Value (- 1), k)
                    else do {
                      let prev_action = signal_actions t ! nat signum;
                      r \<leftarrow> returns (copy_from_user (k_mem k) token action 16);
                      (case r of
                         Inl _ \<Rightarrow> Some (Value (- 14), k)
                       | Inr bs \<Rightarrow>
                           do { r \<leftarrow> returns (copy_to_user (k_mem k) token old_action
                                               (sigaction_bytes (pf_padding pf) prev_action));
                                (case r of
                                   Inl _ \<Rightarrow> Some (Value (- 14), k)
                                 | Inr m \<Rightarrow>
                                     let new_action = sigaction_from_bytes (map the bs);
                                         t = t\<lparr>signal_actions := (signal_actions t)[nat signum := new_action]\<rparr>
                                     in Some (Value 0, set_tcb pid t (set_mem m k))) }) }) }"

section \<open>Credentials\<close>

definition sys_getuid :: "('fs, 'inode) kernel \<Rightarrow> (isize flow \<times> ('fs, 'inode) kernel) option" where
  "sys_getuid k =
     do { (pid, t) \<leftarrow> current_task k; Some (Value (int (unat (cred_uid (sec_credentials (security t))))), k) }"

definition sys_setuid :: "usize \<Rightarrow> ('fs, 'inode) kernel \<Rightarrow> (isize flow \<times> ('fs, 'inode) kernel) option" where
  "sys_setuid uid k =
     do { (pid, t) \<leftarrow> current_task k;
          let cred = sec_credentials (security t);
          if \<not> is_root cred then Some (Value (ipc_error_to_ret PermissionDenied), k)
          else if 2 ^ 32 \<le> unat uid then Some (Value (ipc_error_to_ret InvalidArgument), k)
          else let new_uid = ucast uid :: Uid;
                   cred = cred\<lparr>cred_uid := new_uid\<rparr>;
                   cred = (if new_uid \<noteq> 0 then cred\<lparr>cred_capabilities := cap_empty\<rparr> else cred)
               in Some (Value 0, set_tcb pid (t\<lparr>security := (security t)\<lparr>sec_credentials := cred\<rparr>\<rparr>) k) }"

end
