(* ===== verification/Syscall_Security.thy ===== *)
theory Syscall_Security
  imports Syscall_Fs
begin

text \<open>
  The audit system calls (os/src/syscall/security.rs) and the byte layout of the two records
  they copy to user memory (os/src/security/audit.rs, \<open>repr(C)\<close>, 80 bytes each).
\<close>

section \<open>Record layouts\<close>

definition audit_record_bytes :: "AuditRecordV1 \<Rightarrow> u8 list" where
  "audit_record_bytes r =
     le_bytes 2 (rec_abi_version r) @ le_bytes 2 (rec_record_size r) @ le_bytes 2 (rec_operation r)
     @ le_bytes 2 (rec_flags r) @ le_bytes 4 (word_of_int (rec_errno r) :: u32)
     @ le_bytes 4 (rec_subject_uid r) @ le_bytes 4 (rec_object_owner_uid r) @ le_bytes 4 (rec_reserved0 r)
     @ le_bytes 8 (rec_sequence r) @ le_bytes 8 (rec_timestamp_ms r) @ le_bytes 8 (rec_subject_pid r)
     @ le_bytes 8 (rec_object_id r) @ le_bytes 8 (rec_requested_amount r) @ le_bytes 8 (rec_result_value r)
     @ le_bytes 8 (rec_reserved1 r)"

definition ipc_stats_bytes :: "IpcStatsV1 \<Rightarrow> u8 list" where
  "ipc_stats_bytes s =
     le_bytes 2 (stat_abi_version s) @ le_bytes 2 (stat_struct_size s) @ le_bytes 4 (stat_flags s)
     @ le_bytes 8 (stat_capacity s) @ le_bytes 8 (stat_retained s) @ le_bytes 8 (stat_first_sequence s)
     @ le_bytes 8 (stat_next_sequence s) @ le_bytes 8 (stat_total_events s)
     @ le_bytes 8 (stat_successful_events s) @ le_bytes 8 (stat_failed_events s)
     @ le_bytes 8 (stat_overwritten_events s) @ le_bytes 8 (stat_reserved0 s)"

section \<open>The calls\<close>

definition caller_context :: "('fs, 'inode) kernel \<Rightarrow> (IpcSubject \<times> usize) option" where
  "caller_context k =
     do { (pid, t) \<leftarrow> current_task k;
          let credentials = sec_credentials (security t);
          Some (\<lparr>subj_pid = pid, subj_uid = cred_uid credentials,
                 subj_capabilities = cred_capabilities credentials\<rparr>, get_user_token t) }"

definition check_permission :: "IpcSubject \<Rightarrow> unit IpcResult" where
  "check_permission subject =
     (if subj_uid subject = 0 \<or> contains (subj_capabilities subject) AUDIT_READ then Inr ()
      else Inl PermissionDenied)"

definition check_output_range :: "usize \<Rightarrow> usize \<Rightarrow> usize \<Rightarrow> unit IpcResult" where
  "check_output_range start count item_size =
     (case checked_mul count item_size of
        None \<Rightarrow> Inl InvalidAddress
      | Some bytes \<Rightarrow>
          if bytes \<noteq> 0 \<and> start = 0 then Inl InvalidAddress
          else (case checked_add start bytes of None \<Rightarrow> Inl InvalidAddress | Some _ \<Rightarrow> Inr ()))"

definition finish_control_call ::
    "('fs, 'inode) platform \<Rightarrow> AuditControlOperation \<Rightarrow> IpcSubject \<Rightarrow> usize \<Rightarrow> usize IpcResult
     \<Rightarrow> ('fs, 'inode) kernel \<Rightarrow> (isize \<times> ('fs, 'inode) kernel) option" where
  "finish_control_call pf operation subject requested_amount outcome k =
     (case outcome of
        Inr v \<Rightarrow> Some (as_isize v, k)
      | Inl error \<Rightarrow>
          do { (now, k) \<leftarrow> get_time_ms pf k;
               Some (- error_to_errno error,
                     k\<lparr>k_audit := record_control_failure now operation subject requested_amount error (k_audit k)\<rparr>) })"

text \<open>Copying the records of a batch one by one; earlier records stay when a later one fails.\<close>

fun copy_records ::
    "phys_mem \<Rightarrow> usize \<Rightarrow> usize \<Rightarrow> AuditBatch \<Rightarrow> nat list \<Rightarrow> (unit IpcResult \<times> phys_mem) option" where
  "copy_records m tok start batch [] = Some (Inr (), m)"
| "copy_records m tok start batch (index # indices) =
     (case record_at batch index of
        None \<Rightarrow> Some (Inl InvalidArgument, m)
      | Some rcd \<Rightarrow>
          do { r \<leftarrow> returns (copy_to_user m tok (start + of_nat index * 80) (audit_record_bytes rcd));
               (case r of
                  Inl _ \<Rightarrow> Some (Inl InvalidAddress, m)
                | Inr m \<Rightarrow> copy_records m tok start batch indices) })"

definition read_records ::
    "AuditRing \<Rightarrow> phys_mem \<Rightarrow> IpcSubject \<Rightarrow> usize \<Rightarrow> usize \<Rightarrow> usize \<Rightarrow> u64 \<Rightarrow> (usize IpcResult \<times> phys_mem) option" where
  "read_records ring m subject tok records capacity after_sequence =
     (case check_permission subject of
        Inl error \<Rightarrow> Some (Inl error, m)
      | Inr _ \<Rightarrow>
          if capacity = 0 then Some (Inr 0, m)
          else
            let batch = ring_snapshot ring after_sequence capacity in
            if batch_len batch = 0 then Some (Inr 0, m)
            else (case check_output_range records (of_nat (batch_len batch)) 80 of
                    Inl error \<Rightarrow> Some (Inl error, m)
                  | Inr _ \<Rightarrow>
                      do { (r, m) \<leftarrow> copy_records m tok records batch [0..<batch_len batch];
                           Some (case r of Inl error \<Rightarrow> Inl error | Inr _ \<Rightarrow> Inr (of_nat (batch_len batch)), m) }))"

definition sys_audit_read ::
    "('fs, 'inode) platform \<Rightarrow> usize \<Rightarrow> usize \<Rightarrow> u64 \<Rightarrow> ('fs, 'inode) kernel
     \<Rightarrow> (isize flow \<times> ('fs, 'inode) kernel) option" where
  "sys_audit_read pf records capacity after_sequence k =
     do { (subject, tok) \<leftarrow> caller_context k;
          (outcome, m) \<leftarrow> read_records (k_audit k) (k_mem k) subject tok records capacity after_sequence;
          (v, k) \<leftarrow> finish_control_call pf ControlAuditRead subject capacity outcome (set_mem m k);
          Some (Value v, k) }"

definition read_stats ::
    "AuditRing \<Rightarrow> phys_mem \<Rightarrow> IpcSubject \<Rightarrow> usize \<Rightarrow> usize \<Rightarrow> usize \<Rightarrow> usize \<Rightarrow> (usize IpcResult \<times> phys_mem) option" where
  "read_stats ring m subject tok stats out_size flags =
     (case check_permission subject of
        Inl error \<Rightarrow> Some (Inl error, m)
      | Inr _ \<Rightarrow>
          if flags \<noteq> 0 \<or> out_size < 80 then Some (Inl InvalidArgument, m)
          else (case check_output_range stats 1 80 of
                  Inl error \<Rightarrow> Some (Inl error, m)
                | Inr _ \<Rightarrow>
                    do { r \<leftarrow> returns (copy_to_user m tok stats (ipc_stats_bytes (stats_to_record (ring_stats ring))));
                         Some (case r of Inl _ \<Rightarrow> (Inl InvalidAddress, m) | Inr m \<Rightarrow> (Inr 0, m)) }))"

definition sys_ipc_stat ::
    "('fs, 'inode) platform \<Rightarrow> usize \<Rightarrow> usize \<Rightarrow> usize \<Rightarrow> ('fs, 'inode) kernel
     \<Rightarrow> (isize flow \<times> ('fs, 'inode) kernel) option" where
  "sys_ipc_stat pf stats out_size flags k =
     do { (subject, tok) \<leftarrow> caller_context k;
          (outcome, m) \<leftarrow> read_stats (k_audit k) (k_mem k) subject tok stats out_size flags;
          (v, k) \<leftarrow> finish_control_call pf ControlIpcStat subject 0 outcome (set_mem m k);
          Some (Value v, k) }"

end
