(* ===== verification/Trap.thy ===== *)
theory Trap
  imports Syscall_Process Syscall_Security
begin

text \<open>
  The entry of the kernel (os/src/trap/mod.rs, os/src/syscall/mod.rs): dispatch of system calls,
  the trap handler, and how a suspended task goes on when the scheduler switches to it. A
  result \<open>Value ()\<close> is the return to user mode of the current task. The registers that direct
  the processor to the trap entries, and the assembly that saves and restores the user
  registers, are below the model: a trap context holds the registers when the handler starts.
\<close>

section \<open>Dispatch\<close>

definition SYSCALL_DUP :: usize where "SYSCALL_DUP = 24"
definition SYSCALL_OPEN :: usize where "SYSCALL_OPEN = 56"
definition SYSCALL_CLOSE :: usize where "SYSCALL_CLOSE = 57"
definition SYSCALL_PIPE :: usize where "SYSCALL_PIPE = 59"
definition SYSCALL_READ :: usize where "SYSCALL_READ = 63"
definition SYSCALL_WRITE :: usize where "SYSCALL_WRITE = 64"
definition SYSCALL_EXIT :: usize where "SYSCALL_EXIT = 93"
definition SYSCALL_YIELD :: usize where "SYSCALL_YIELD = 124"
definition SYSCALL_KILL :: usize where "SYSCALL_KILL = 129"
definition SYSCALL_SIGACTION :: usize where "SYSCALL_SIGACTION = 134"
definition SYSCALL_SIGPROCMASK :: usize where "SYSCALL_SIGPROCMASK = 135"
definition SYSCALL_SIGRETURN :: usize where "SYSCALL_SIGRETURN = 139"
definition SYSCALL_GET_TIME :: usize where "SYSCALL_GET_TIME = 169"
definition SYSCALL_GETPID :: usize where "SYSCALL_GETPID = 172"
definition SYSCALL_FORK :: usize where "SYSCALL_FORK = 220"
definition SYSCALL_EXEC :: usize where "SYSCALL_EXEC = 221"
definition SYSCALL_WAITPID :: usize where "SYSCALL_WAITPID = 260"
definition SYSCALL_GETUID :: usize where "SYSCALL_GETUID = 600"
definition SYSCALL_SETUID :: usize where "SYSCALL_SETUID = 601"
definition SYSCALL_AUDIT_READ :: usize where "SYSCALL_AUDIT_READ = 602"
definition SYSCALL_IPC_STAT :: usize where "SYSCALL_IPC_STAT = 603"

lemmas syscall_ids =
  SYSCALL_DUP_def SYSCALL_OPEN_def SYSCALL_CLOSE_def SYSCALL_PIPE_def SYSCALL_READ_def SYSCALL_WRITE_def
  SYSCALL_EXIT_def SYSCALL_YIELD_def SYSCALL_KILL_def SYSCALL_SIGACTION_def SYSCALL_SIGPROCMASK_def
  SYSCALL_SIGRETURN_def SYSCALL_GET_TIME_def SYSCALL_GETPID_def SYSCALL_FORK_def SYSCALL_EXEC_def
  SYSCALL_WAITPID_def SYSCALL_GETUID_def SYSCALL_SETUID_def SYSCALL_AUDIT_READ_def SYSCALL_IPC_STAT_def

text \<open>\<open>arg as i32\<close>.\<close>

definition as_i32 :: "usize \<Rightarrow> i32" where
  "as_i32 w = sint (ucast w :: u32)"

definition syscall ::
    "('fs, 'inode) platform \<Rightarrow> usize \<Rightarrow> usize \<Rightarrow> usize \<Rightarrow> usize \<Rightarrow> ('fs, 'inode) kernel
     \<Rightarrow> (isize flow \<times> ('fs, 'inode) kernel) option" where
  "syscall pf syscall_id a0 a1 a2 k =
     (if syscall_id = SYSCALL_DUP then sys_dup a0 k
      else if syscall_id = SYSCALL_OPEN then sys_open pf a0 (ucast a1) k
      else if syscall_id = SYSCALL_CLOSE then sys_close a0 k
      else if syscall_id = SYSCALL_PIPE then sys_pipe pf a0 k
      else if syscall_id = SYSCALL_READ then sys_read pf a0 a1 a2 k
      else if syscall_id = SYSCALL_WRITE then sys_write pf a0 a1 a2 k
      else if syscall_id = SYSCALL_EXIT then sys_exit (as_i32 a0) k
      else if syscall_id = SYSCALL_YIELD then sys_yield k
      else if syscall_id = SYSCALL_KILL then sys_kill pf a0 (as_i32 a1) k
      else if syscall_id = SYSCALL_SIGACTION then sys_sigaction pf (as_i32 a0) a1 a2 k
      else if syscall_id = SYSCALL_SIGPROCMASK then sys_sigprocmask (ucast a0) k
      else if syscall_id = SYSCALL_SIGRETURN then sys_sigreturn k
      else if syscall_id = SYSCALL_GET_TIME then sys_get_time pf k
      else if syscall_id = SYSCALL_GETPID then sys_getpid k
      else if syscall_id = SYSCALL_FORK then sys_fork pf k
      else if syscall_id = SYSCALL_EXEC then sys_exec pf a0 a1 k
      else if syscall_id = SYSCALL_WAITPID then sys_waitpid (as_isize a0) a1 k
      else if syscall_id = SYSCALL_GETUID then sys_getuid k
      else if syscall_id = SYSCALL_SETUID then sys_setuid a0 k
      else if syscall_id = SYSCALL_AUDIT_READ then sys_audit_read pf a0 a1 a2 k
      else if syscall_id = SYSCALL_IPC_STAT then sys_ipc_stat pf a0 a1 a2 k
      else None)"

section \<open>The trap handler\<close>

datatype Trap =
    UserEnvCall
  | StoreFault | StorePageFault | InstructionFault | InstructionPageFault | LoadFault | LoadPageFault
  | IllegalInstruction
  | SupervisorTimer
  | UnsupportedTrap

text \<open>The end of every trap: signals are handled, then the errors they carry.\<close>

definition trap_exit :: "('fs, 'inode) kernel \<Rightarrow> (unit flow \<times> ('fs, 'inode) kernel) option" where
  "trap_exit k =
     do { (fl, k) \<leftarrow> handle_signals k;
          (case fl of
             Value _ \<Rightarrow>
               do { e \<leftarrow> check_signals_error_of_current k;
                    (case e of
                       Some errno \<Rightarrow> exit_current_and_run_next errno k
                     | None \<Rightarrow> Some (Value (), k)) }
           | _ \<Rightarrow> Some (fl, k)) }"

text \<open>What follows a system call: its result goes to the register \<open>a0\<close> of the user.\<close>

definition after_syscall ::
    "isize flow \<Rightarrow> ('fs, 'inode) kernel \<Rightarrow> (unit flow \<times> ('fs, 'inode) kernel) option" where
  "after_syscall fl k =
     (case fl of
        Value result \<Rightarrow>
          do { (pid, t) \<leftarrow> current_task k;
               let cx = get_trap_cx t k;
               trap_exit (put_trap_cx t (cx\<lparr>tc_x := (tc_x cx)[10 := word_of_int result]\<rparr>) k) }
      | Switched \<Rightarrow> Some (Switched, k)
      | Halted f \<Rightarrow> Some (Halted f, k))"

definition trap_handler ::
    "('fs, 'inode) platform \<Rightarrow> Trap \<Rightarrow> ('fs, 'inode) kernel \<Rightarrow> (unit flow \<times> ('fs, 'inode) kernel) option" where
  "trap_handler pf trap k =
     (case trap of
        UserEnvCall \<Rightarrow>
          do { (pid, t) \<leftarrow> current_task k;
               let cx = get_trap_cx t k;
               let cx = cx\<lparr>tc_sepc := tc_sepc cx + 4\<rparr>;
               (fl, k) \<leftarrow> syscall pf (tc_x cx ! 17) (tc_x cx ! 10) (tc_x cx ! 11) (tc_x cx ! 12) (put_trap_cx t cx k);
               after_syscall fl k }
      | IllegalInstruction \<Rightarrow> do { k \<leftarrow> current_add_signal SIGILL k; trap_exit k }
      | SupervisorTimer \<Rightarrow>
          do { k \<leftarrow> suspend_current_and_run_next Cx_timer (set_next_trigger pf k); Some (Switched, k) }
      | UnsupportedTrap \<Rightarrow> None
      | _ \<Rightarrow> do { k \<leftarrow> current_add_signal SIGSEGV k; trap_exit k })"

section \<open>Going on\<close>

definition resume ::
    "('fs, 'inode) platform \<Rightarrow> ('fs, 'inode) kernel \<Rightarrow> (unit flow \<times> ('fs, 'inode) kernel) option" where
  "resume pf k =
     do { (pid, t) \<leftarrow> current_task k;
          (case task_cx t of
             Cx_zero \<Rightarrow> None
           | Cx_trap_return _ \<Rightarrow> Some (Value (), k)
           | Cx_yield \<Rightarrow> after_syscall (Value 0) k
           | Cx_timer \<Rightarrow> trap_exit k
           | Cx_frozen \<Rightarrow> trap_exit k
           | Cx_stdin slices \<Rightarrow>
               do { (fl, k) \<leftarrow> stdin_poll pf slices k;
                    (fl, k) \<leftarrow> finish_io pf None fl k;
                    after_syscall fl k }
           | Cx_pipe_read p locs want got permit \<Rightarrow>
               do { (fl, k) \<leftarrow> pipe_read_on p locs want got permit k;
                    (fl, k) \<leftarrow> finish_io pf permit fl k;
                    after_syscall fl k }
           | Cx_pipe_write p locs want permit \<Rightarrow>
               do { (fl, k) \<leftarrow> pipe_write_on p locs want permit k;
                    (fl, k) \<leftarrow> finish_io pf permit fl k;
                    after_syscall fl k }) }"

text \<open>One turn of \<open>run_tasks\<close> with the switch to the task it chose.\<close>

definition run_tasks ::
    "('fs, 'inode) platform \<Rightarrow> ('fs, 'inode) kernel \<Rightarrow> (unit flow \<times> ('fs, 'inode) kernel) option" where
  "run_tasks pf k =
     do { k \<leftarrow> run_tasks_turn k;
          if k_current k = None then Some (Switched, k) else resume pf k }"

section \<open>Boot\<close>

text \<open>The first process: \<open>INITPROC\<close> is loaded from the file system and made ready.\<close>

definition initproc_name :: "u8 list" where
  "initproc_name = [0x69, 0x6e, 0x69, 0x74, 0x70, 0x72, 0x6f, 0x63]"

definition add_initproc ::
    "('fs, 'inode) platform \<Rightarrow> ('fs, 'inode) kernel \<Rightarrow> ('fs, 'inode) kernel option" where
  "add_initproc pf k =
     do { (inode, k) \<leftarrow> open_file pf initproc_name RDONLY k;
          f \<leftarrow> inode;
          (v, k) \<leftarrow> read_all pf f k;
          (pid, k) \<leftarrow> task_new pf v k;
          Some (add_task pid (k\<lparr>k_initproc := pid\<rparr>)) }"

end
