(* ===== verification/Kernel_Runs.thy ===== *)
theory Kernel_Runs
  imports Descriptors Trap
begin

text \<open>
  Kernel operations as runs of the abstract process machine (\<open>Process_Model\<close>): what a run of an
  operation is, the rules by which runs compose along the monadic code, and the runs of the
  system calls on files. \<open>Kernel_Refinement\<close> goes on with processes, signals and traps.
\<close>

section \<open>The process view of the kernel operations\<close>

lemma procs_other [simp]:
  "procs (k\<lparr>k_phys := ph\<rparr>) = procs k" "procs (k\<lparr>k_space := ms\<rparr>) = procs k" "procs (k\<lparr>k_pipes := ps\<rparr>) = procs k"
  "procs (k\<lparr>k_inodes := is\<rparr>) = procs k" "procs (k\<lparr>k_audit := ring\<rparr>) = procs k" "procs (k\<lparr>k_fs := fs\<rparr>) = procs k"
  "procs (k\<lparr>k_ticks := n\<rparr>) = procs k" "procs (k\<lparr>k_chars := c\<rparr>) = procs k" "procs (k\<lparr>k_output := out\<rparr>) = procs k"
  "procs (k\<lparr>k_timer := tm\<rparr>) = procs k"
  by (simp_all add: procs_def)

lemma procs_sched [simp]:
  "procs (k\<lparr>k_current := cur\<rparr>) = (procs k)\<lparr>p_current := cur\<rparr>" "procs (k\<lparr>k_ready := rd\<rparr>) = (procs k)\<lparr>p_ready := rd\<rparr>"
  "procs (k\<lparr>k_pid2task := pt\<rparr>) = (procs k)\<lparr>p_pid2task := pt\<rparr>" "procs (k\<lparr>k_pids := pa\<rparr>) = (procs k)\<lparr>p_pids := pa\<rparr>"
  "procs (k\<lparr>k_tasks := ts\<rparr>) = (procs k)\<lparr>p_tasks := ts\<rparr>"
  by (simp_all add: procs_def)

lemma procs_set_mem [simp]: "procs (set_mem m k) = procs k"
  by (simp add: set_mem_def)

lemma procs_put_trap_cx [simp]: "procs (put_trap_cx t cx k) = procs k"
  by (simp add: put_trap_cx_def)

lemma procs_set_tcb [simp]: "procs (set_tcb pid t k) = p_set pid t (procs k)"
  by (simp add: procs_def set_tcb_def p_set_def)

lemma procs_add_task [simp]: "procs (add_task pid k) = enqueue pid (procs k)"
  by (simp add: procs_def add_task_def enqueue_def)

lemma p_tcb_procs [simp]: "p_tcb (procs k) = tcb k"
  by (simp add: p_tcb_def tcb_def procs_def fun_eq_iff)

lemma procs_fields [simp]:
  "p_current (procs k) = k_current k" "p_ready (procs k) = k_ready k" "p_initproc (procs k) = k_initproc k"
  "p_pids (procs k) = k_pids k" "p_pid2task (procs k) = k_pid2task k" "p_tasks (procs k) = k_tasks k"
  by (simp_all add: procs_def)

lemma get_time_ms_SomeD: "get_time_ms pf k = Some (now, k') \<Longrightarrow> k' = k\<lparr>k_ticks := k_ticks k + 1\<rparr>"
  by (auto simp: get_time_ms_def get_time_def Let_def split: if_splits)

lemma procs_get_time [simp]:
  "get_time pf k = (n, k') \<Longrightarrow> procs k' = procs k" "get_time_ms pf k = Some (n, k') \<Longrightarrow> procs k' = procs k"
  by (auto simp: get_time_def dest: get_time_ms_SomeD)

lemma procs_current: "procs k' = procs k \<Longrightarrow> k_current k' = k_current k"
  by (metis procs_fields(1))

lemma procs_tcb: "procs k' = procs k \<Longrightarrow> tcb k' = tcb k"
  by (metis p_tcb_procs)

lemma p_set_same: "p_tcb p c = Some t \<Longrightarrow> p_set c t p = p"
  by (simp add: p_set_def p_tcb_def update_triv)

lemma alist_update_twice: "AList.update k v (AList.update k w al) = AList.update k v al"
  by (induction al) auto

lemma p_set_twice [simp]: "p_set c t (p_set c u p) = p_set c t p"
  by (simp add: p_set_def alist_update_twice)

lemma tcb_set_tcb [simp]: "tcb (set_tcb pid t k) q = (if q = pid then Some t else tcb k q)"
  by (simp add: tcb_def set_tcb_def update_conv')

lemma k_current_frame [simp]:
  "k_current (set_tcb pid t k) = k_current k" "k_current (set_mem m k) = k_current k"
  "k_current (put_trap_cx t cx k) = k_current k" "k_current (add_task pid k) = k_current k"
  by (simp_all add: set_tcb_def set_mem_def put_trap_cx_def add_task_def)

lemma tcb_frame [simp]:
  "tcb (set_mem m k) = tcb k" "tcb (put_trap_cx t cx k) = tcb k" "tcb (add_task pid k) = tcb k"
  by (simp_all add: tcb_def set_mem_def put_trap_cx_def add_task_def fun_eq_iff)

lemma current_task_SomeD:
  "current_task k = Some (c, t) \<Longrightarrow> k_current k = Some c \<and> tcb k c = Some t"
  by (auto simp: current_task_def bind_eq_Some_conv)

section \<open>Runs of kernel operations\<close>

text \<open>
  \<open>kernel_run c k r\<close>: an operation by \<open>c\<close> with outcome \<open>r\<close> is a run of the process machine; it ends with
  the process still current, or with control in the scheduler.
\<close>

definition kernel_run :: "usize \<Rightarrow> ('fs, 'inode) kernel \<Rightarrow> ('a flow \<times> ('fs, 'inode) kernel) option \<Rightarrow> bool" where
  "kernel_run c k r \<longleftrightarrow>
     (case r of
        None \<Rightarrow> True
      | Some (Value v, k') \<Rightarrow> prun c (procs k) (procs k') \<and> k_current k' = Some c
      | Some (Switched, k') \<Rightarrow> prun c (procs k) (procs k') \<and> k_current k' = None
      | Some (Halted f, k') \<Rightarrow> True)"

lemma kernel_run_None [simp]: "kernel_run c k None"
  by (simp add: kernel_run_def)

lemma kernel_run_Value [simp]:
  "kernel_run c k (Some (Value v, k')) \<longleftrightarrow> prun c (procs k) (procs k') \<and> k_current k' = Some c"
  by (simp add: kernel_run_def)

lemma kernel_run_Switched [simp]:
  "kernel_run c k (Some (Switched, k')) \<longleftrightarrow> prun c (procs k) (procs k') \<and> k_current k' = None"
  by (simp add: kernel_run_def)

lemma kernel_run_Halted [simp]: "kernel_run c k (Some (Halted f, k'))"
  by (simp add: kernel_run_def)

lemma kernel_run_bind: "(\<And>x. m = Some x \<Longrightarrow> kernel_run c k (f x)) \<Longrightarrow> kernel_run c k (m \<bind> f)"
  by (cases m) auto

lemma kernel_run_bind2:
  "(\<And>x y. m = Some (x, y) \<Longrightarrow> kernel_run c k (f x y)) \<Longrightarrow> kernel_run c k (m \<bind> (\<lambda>(x, y). f x y))"
  by (cases m) auto

lemma kernel_run_if:
  "(b \<Longrightarrow> kernel_run c k x) \<Longrightarrow> (\<not> b \<Longrightarrow> kernel_run c k y) \<Longrightarrow> kernel_run c k (if b then x else y)"
  by simp

lemma kernel_run_option:
  "(m = None \<Longrightarrow> kernel_run c k x) \<Longrightarrow> (\<And>y. m = Some y \<Longrightarrow> kernel_run c k (f y)) \<Longrightarrow> kernel_run c k (case m of None \<Rightarrow> x | Some y \<Rightarrow> f y)"
  by (cases m) simp_all

lemma kernel_run_sum:
  "(\<And>x. m = Inl x \<Longrightarrow> kernel_run c k (f x)) \<Longrightarrow> (\<And>y. m = Inr y \<Longrightarrow> kernel_run c k (g y)) \<Longrightarrow> kernel_run c k (case m of Inl x \<Rightarrow> f x | Inr y \<Rightarrow> g y)"
  by (cases m) simp_all

lemma kernel_run_prod: "(\<And>x y. m = (x, y) \<Longrightarrow> kernel_run c k (f x y)) \<Longrightarrow> kernel_run c k (case m of (x, y) \<Rightarrow> f x y)"
  by (cases m) simp_all

lemmas kernel_run_intros = kernel_run_if kernel_run_option kernel_run_sum kernel_run_prod kernel_run_bind

lemma kernel_run_before:
  assumes "prun c (procs k) (procs k1)" "kernel_run c k1 r"
  shows "kernel_run c k r"
  using assms by (auto simp: kernel_run_def intro: prun_trans split: option.splits flow.splits)

lemma kernel_run_same: "procs k1 = procs k \<Longrightarrow> kernel_run c k1 r = kernel_run c k r"
  by (simp add: kernel_run_def split: option.splits flow.splits)

lemma bind_SomeE:
  assumes "m \<bind> f = Some z"
  obtains x where "m = Some x" "f x = Some z"
  using assms by (cases m) auto

lemma bind_pairE:
  assumes "m \<bind> (\<lambda>(x, y). f x y) = Some z"
  obtains x y where "m = Some (x, y)" "f x y = Some z"
  using assms by (cases m) auto

text \<open>Sequencing: what follows a value starts with the process still current and the invariant intact.\<close>

definition entry :: "usize \<Rightarrow> ('fs, 'inode) kernel \<Rightarrow> bool" where
  "entry c k \<longleftrightarrow> k_current k = Some c \<and> procs_inv (procs k)"

lemma kernel_run_seq:
  assumes r: "kernel_run c k r" "entry c k"
    and v: "\<And>v k'. r = Some (Value v, k') \<Longrightarrow> entry c k' \<Longrightarrow> prun c (procs k) (procs k') \<Longrightarrow> kernel_run c k' (f (Value v) k')"
    and s: "\<And>k'. f Switched k' = Some (Switched, k')" "\<And>h k'. f (Halted h) k' = Some (Halted h, k')"
  shows "kernel_run c k (r \<bind> (\<lambda>(fl, k'). f fl k'))"
proof (rule kernel_run_bind2)
  fix fl k' assume e: "r = Some (fl, k')"
  show "kernel_run c k (f fl k')"
  proof (cases fl)
    case (Value x)
    then have p: "prun c (procs k) (procs k')" "k_current k' = Some c" using r(1) e by simp_all
    then have "entry c k'" using r(2) procs_inv_run by (simp add: entry_def)
    then show ?thesis using v e Value p kernel_run_before by blast
  next
    case Switched
    then show ?thesis using r(1) e by (simp add: s)
  qed (simp add: s)
qed

lemma entryD:
  assumes "entry c k"
  shows "k_current k = Some c" "sched_inv (procs k)" "tasks_inv (procs k)" "\<exists>t. tcb k c = Some t \<and> current_task k = Some (c, t)"
proof -
  show "k_current k = Some c" "sched_inv (procs k)" "tasks_inv (procs k)" using assms by (simp_all add: entry_def procs_inv_def)
  then show "\<exists>t. tcb k c = Some t \<and> current_task k = Some (c, t)"
    using sched_invD(6) [of "procs k" c] by (auto simp: current_task_def)
qed

lemma prun_self: "tcb k c = Some t \<Longrightarrow> self_upd t t' \<Longrightarrow> prun c (procs k) (p_set c t' (procs k))"
  by (rule prun_step, rule pstep.self) simp_all

section \<open>Giving up the processor\<close>

lemma suspend_run:
  assumes "suspend_current_and_run_next cx k = Some k'" "k_current k = Some c"
  shows "prun c (procs k) (procs k')" "k_current k' = None"
proof -
  obtain t where t: "tcb k c = Some t"
    and k': "k' = add_task c (set_tcb c (t\<lparr>task_status := Ready, task_cx := cx\<rparr>) (k\<lparr>k_current := None\<rparr>))"
    using assms by (auto simp: suspend_current_and_run_next_def take_current_task_def bind_eq_Some_conv tcb_def)
  show "prun c (procs k) (procs k')"
    using pstep.suspend [of "procs k" c t cx] t assms(2) by (simp add: k' prun_step)
  show "k_current k' = None" by (simp add: k' add_task_def set_tcb_def)
qed

lemma kernel_run_suspend:
  "k_current k = Some c \<Longrightarrow>
     kernel_run c k (suspend_current_and_run_next cx k \<bind> (\<lambda>k. Some (Switched, k)))"
  by (rule kernel_run_bind) (simp add: suspend_run)

section \<open>Files\<close>

lemma open_file_procs:
  assumes "open_file pf name flags k = Some (r, k')"
  shows "procs k' = procs k"
proof -
  note of = assms [unfolded open_file_def os_inode_new_def Let_def split_beta]
  obtain found where "fs_find pf (utf8_bytes name) (k_fs k) = Some found"
    using of by (auto simp: bind_eq_Some_conv)
  note of = of [unfolded this bind.simps]
  show ?thesis
  proof (cases "open_contains flags CREATE")
    case True
    with of show ?thesis by (cases "fst found") (auto simp: bind_eq_Some_conv split: option.split_asm)
  next
    case False
    with of show ?thesis by (cases "fst found") (auto simp: bind_eq_Some_conv)
  qed
qed

lemma read_all_procs: "read_all pf f k = Some (v, k') \<Longrightarrow> procs k' = procs k"
  by (auto simp: read_all_def bind_eq_Some_conv Let_def)

lemma inode_read_procs: "inode_read_slices pf f slices n k = Some (v, k') \<Longrightarrow> procs k' = procs k"
  by (induction pf f slices n k rule: inode_read_slices.induct)
    (auto simp: bind_eq_Some_conv Let_def split: if_splits)

lemma inode_write_procs: "inode_write_slices pf f slices n k = Some (v, k') \<Longrightarrow> procs k' = procs k"
  by (induction pf f slices n k rule: inode_write_slices.induct)
    (auto simp: bind_eq_Some_conv Let_def split: if_splits)

lemma stdout_procs: "stdout_print slices k = Some k' \<Longrightarrow> procs k' = procs k"
  by (induction slices k rule: stdout_print.induct) (auto split: if_splits)

lemma kernel_run_to_flow:
  assumes "k_current k = Some c" "\<And>v k'. r = Some (v, k') \<Longrightarrow> procs k' = procs k"
  shows "kernel_run c k (to_flow r)"
proof (cases r)
  case (Some x)
  obtain v k' where x: "r = Some (v, k')" using Some by (cases x) auto
  show ?thesis using assms(2) [OF x] assms(1) procs_current [OF assms(2) [OF x]] by (simp add: to_flow_def x)
qed (simp add: to_flow_def)

lemma stdin_poll_run: "k_current k = Some c \<Longrightarrow> kernel_run c k (stdin_poll pf slices k)"
  using kernel_run_suspend [of "k\<lparr>k_chars := Suc (k_chars k)\<rparr>" c "Cx_stdin slices"]
  by (auto simp: stdin_poll_def Let_def kernel_run_same [of "k\<lparr>k_chars := Suc (k_chars k)\<rparr>" k] split: list.split)

lemma kernel_run_act:
  assumes "procs k1 = procs k" "k_current k = Some c"
  shows "kernel_run c k (case act of Returned n \<Rightarrow> Some (Value (f n), k1)
       | Suspended \<Rightarrow> suspend_current_and_run_next cx k1 \<bind> (\<lambda>k. Some (Switched, k)))"
  using kernel_run_suspend [of k1 c cx] assms procs_current [OF assms(1)]
  by (cases act) (simp_all add: kernel_run_same [OF assms(1)])

lemma pipe_read_run: "k_current k = Some c \<Longrightarrow> kernel_run c k (pipe_read_on p locs want got permit k)"
  unfolding pipe_read_on_def Let_def
  by (intro kernel_run_bind, clarify) (rule kernel_run_act, simp_all)

lemma pipe_write_run: "k_current k = Some c \<Longrightarrow> kernel_run c k (pipe_write_on p locs want permit k)"
  unfolding pipe_write_on_def Let_def
  by (intro kernel_run_bind, clarify) (rule kernel_run_act, simp_all)

lemma file_read_run:
  assumes "k_current k = Some c"
  shows "kernel_run c k (file_read pf file buf permit k)"
proof (cases "file")
  case (F_OSInode f)
  then show ?thesis by (auto intro: kernel_run_to_flow [OF assms] inode_read_procs)
qed (auto simp: stdin_read_def stdin_poll_run pipe_read_run assms)

lemma file_write_run:
  assumes "k_current k = Some c"
  shows "kernel_run c k (file_write pf file buf permit k)"
proof (cases "file")
  case F_Stdout
  then show ?thesis
    by (auto intro!: kernel_run_to_flow [OF assms] stdout_procs simp: stdout_write_def bind_eq_Some_conv)
next
  case (F_OSInode f)
  then show ?thesis by (auto intro: kernel_run_to_flow [OF assms] inode_write_procs)
qed (auto simp: pipe_write_run assms)

section \<open>The security facade\<close>

lemma task_preflight_effect:
  assumes "task_preflight pf c rq k = Some (r, k')" "tcb k c = Some t"
  shows "\<exists>now st ring. preflight now (security t) (k_audit k) rq = (r, st, ring)
    \<and> procs k' = p_set c (t\<lparr>security := st\<rparr>) (procs k) \<and> k_phys k' = k_phys k \<and> k_pipes k' = k_pipes k"
proof -
  note R = assms(1) [unfolded task_preflight_def assms(2) bind.simps Let_def]
  from R obtain now k1 where
    g: "(if isl (fst (preflight 0 (security t) (k_audit k) rq)) then get_time_ms pf k else Some (0, k)) = Some (now, k1)"
    by (rule bind_pairE)
  note R = R [unfolded g bind.simps prod.case]
  obtain st ring where p: "preflight now (security t) (k_audit k1) rq = (r, st, ring)"
      "k' = set_tcb c (t\<lparr>security := st\<rparr>) (k1\<lparr>k_audit := ring\<rparr>)"
    using R by (auto split: prod.splits)
  have "k1 = k \<or> k1 = k\<lparr>k_ticks := k_ticks k + 1\<rparr>" using g get_time_ms_SomeD by (auto split: if_splits)
  then show ?thesis using p by (intro exI [of _ now] exI [of _ st] exI [of _ ring]) (auto simp: set_tcb_def procs_def p_set_def)
qed

lemma task_preflight_procs:
  assumes "task_preflight pf c rq k = Some (r, k')" "tcb k c = Some t" "req_operation rq \<noteq> PipeCreate \<or> isl r"
  shows "procs k' = procs k"
proof -
  obtain now st ring where e: "preflight now (security t) (k_audit k) rq = (r, st, ring)"
      "procs k' = p_set c (t\<lparr>security := st\<rparr>) (procs k)"
    using task_preflight_effect [OF assms(1,2)] by blast
  have "st = security t" using preflight_facts(2,3) [OF e(1)] assms(3) by blast
  then show ?thesis using e(2) assms(2) by (simp add: p_set_same)
qed

lemma task_complete_effect:
  assumes "task_complete pf c permit outcome k = Some (r, k')" "tcb k c = Some t"
  shows "\<exists>now st ring. complete now (security t) (k_audit k) permit outcome = (r, st, ring)
    \<and> procs k' = p_set c (t\<lparr>security := st\<rparr>) (procs k)"
proof -
  obtain now k1 where g: "get_time_ms pf k = Some (now, k1)"
    using assms(1) by (auto simp: task_complete_def bind_eq_Some_conv)
  obtain st ring where p: "complete now (security t) (k_audit k1) permit outcome = (r, st, ring)"
      "k' = set_tcb c (t\<lparr>security := st\<rparr>) (k1\<lparr>k_audit := ring\<rparr>)"
    using assms by (auto simp: task_complete_def g split: prod.splits)
  have "k1 = k\<lparr>k_ticks := k_ticks k + 1\<rparr>" by (rule get_time_ms_SomeD [OF g])
  then show ?thesis using p by (intro exI [of _ now] exI [of _ st] exI [of _ ring]) (simp add: set_tcb_def procs_def p_set_def)
qed

lemma task_complete_procs:
  assumes "task_complete pf c permit outcome k = Some (r, k')"
    and ok: "\<not> isl outcome \<or> permit_reservation permit = \<lparr>res_kind = QR_None, res_amount = 0\<rparr>"
  shows "procs k' = procs k" "r = outcome"
proof -
  obtain t where t: "tcb k c = Some t" using assms(1) by (auto simp: task_complete_def bind_eq_Some_conv)
  obtain now st ring where e: "complete now (security t) (k_audit k) permit outcome = (r, st, ring)"
      "procs k' = p_set c (t\<lparr>security := st\<rparr>) (procs k)"
    using task_complete_effect [OF assms(1) t] by blast
  have "st = security t" using complete_facts(3,4) [OF e(1)] ok by blast
  then show "procs k' = procs k" using e(2) t by (simp add: p_set_same)
  show "r = outcome" using complete_facts(1) [OF e(1)] .
qed

lemma procs_record_failure [simp]: "kernel_record_failure pf request error k = Some k' \<Longrightarrow> procs k' = procs k"
  by (auto simp: kernel_record_failure_def bind_eq_Some_conv dest!: get_time_ms_SomeD split: option.splits)

lemma kernel_run_value: "procs k' = procs k \<Longrightarrow> k_current k = Some c \<Longrightarrow> kernel_run c k (Some (Value v, k'))"
  using procs_current [of k' k] by simp

lemma kernel_run_self:
  assumes "k_current k = Some c" "tcb k c = Some t" "self_upd t t'" "procs k' = p_set c t' (procs k)"
  shows "kernel_run c k (Some (Value v, k'))"
proof -
  have "k_current k' = Some c" using assms(1) arg_cong [OF assms(4), of p_current] by simp
  then show ?thesis using prun_self [OF assms(2,3)] assms(4) by simp
qed

lemma finish_io_run:
  assumes "k_current k = Some c"
  shows "kernel_run c k (finish_io pf permit (Value n) k)"
proof (cases permit)
  case (Some p)
  show ?thesis unfolding finish_io_def Some assms flow.case option.case bind.simps
    by (rule kernel_run_bind2, rule kernel_run_value [OF _ assms], erule task_complete_procs) simp
qed (simp add: finish_io_def assms)

lemma finish_io_other [simp]:
  "finish_io pf permit Switched k = Some (Switched, k)" "finish_io pf permit (Halted h) k = Some (Halted h, k)"
  by (simp_all add: finish_io_def)

lemma io_then_finish:
  assumes "kernel_run c k r" "entry c k"
  shows "kernel_run c k (r \<bind> (\<lambda>(fl, k). finish_io pf permit fl k))"
  by (rule kernel_run_seq [OF assms]) (simp_all add: finish_io_run entryD(1))

lemma guarded_io_run:
  assumes e: "entry c k" and rq: "\<And>rq. request = Some rq \<Longrightarrow> req_operation rq \<noteq> PipeCreate"
    and io: "\<And>permit k. entry c k \<Longrightarrow> kernel_run c k (io permit k)"
  shows "kernel_run c k (guarded_io pf c request len io k)"
proof (cases request)
  case None
  then show ?thesis using io_then_finish [OF io [OF e] e] entryD(1) [OF e] by (simp add: guarded_io_def)
next
  case (Some rq')
  obtain t where t: "tcb k c = Some t" using entryD(4) [OF e] by blast
  show ?thesis unfolding guarded_io_def Some option.case
  proof (rule kernel_run_bind2)
    fix r k1 assume p: "task_preflight pf c rq' k = Some (r, k1)"
    then have same: "procs k1 = procs k" using task_preflight_procs [OF p t] rq Some by blast
    then have e1: "entry c k1" using e procs_current [OF same] by (simp add: entry_def)
    show "kernel_run c k (case r of Inl error \<Rightarrow> Some (Value (ipc_error_to_ret error), k1)
        | Inr permit \<Rightarrow> (if len = 0 then Some (Value 0, k1) else io (Some permit) k1)
            \<bind> (\<lambda>(fl, k). finish_io pf (Some permit) fl k))"
    proof (cases r)
      case (Inr permit)
      have "kernel_run c k1 (if len = 0 then Some (Value 0, k1) else io (Some permit) k1)"
        using io [OF e1] entryD(1) [OF e1] by simp
      from io_then_finish [OF this e1] show ?thesis unfolding Inr sum.case kernel_run_same [OF same] .
    qed (use kernel_run_value [OF same entryD(1) [OF e]] in simp)
  qed
qed

section \<open>System calls on files\<close>

lemma sys_write_run:
  assumes e: "entry c k"
  shows "kernel_run c k (sys_write pf fd buf len k)"
proof -
  obtain t where t: "current_task k = Some (c, t)" using entryD(4) [OF e] by blast
  show ?thesis unfolding sys_write_def t bind.simps prod.case Let_def
    by (intro kernel_run_intros kernel_run_value guarded_io_run [OF e] file_write_run)
      (auto simp: entryD(1) [OF e] ipc_request_def Let_def entryD(1))
qed

lemma sys_read_run:
  assumes e: "entry c k"
  shows "kernel_run c k (sys_read pf fd buf len k)"
proof -
  obtain t where t: "current_task k = Some (c, t)" using entryD(4) [OF e] by blast
  show ?thesis unfolding sys_read_def t bind.simps prod.case Let_def
    by (intro kernel_run_intros kernel_run_value guarded_io_run [OF e] file_read_run)
      (auto simp: entryD(1) [OF e] ipc_request_def Let_def entryD(1))
qed

lemma sys_close_run:
  assumes e: "entry c k"
  shows "kernel_run c k (sys_close fd k)"
proof -
  obtain t where t: "tcb k c = Some t" "current_task k = Some (c, t)" using entryD(4) [OF e] by blast
  note self = kernel_run_self [OF entryD(1) [OF e] t(1)]
  show ?thesis unfolding sys_close_def t(2) bind.simps prod.case Let_def
    by (rule kernel_run_if, simp add: entryD(1) [OF e], rule self [OF upd_close], simp_all)
qed

lemma security_unchanged:
  "isl r \<Longrightarrow> reserve_file_fd (security t) = (r, st) \<Longrightarrow> t\<lparr>security := st\<rparr> = t"
  "isl q \<Longrightarrow> reserve_dup_fd (security t) fd = (q, st) \<Longrightarrow> t\<lparr>security := st\<rparr> = t"
  using reserve_file_fd_facts(2) [of "security t" r st] reserve_dup_fd_facts(2) [of "security t" fd q st] by simp_all

lemma sys_open_run:
  assumes e: "entry c k"
  shows "kernel_run c k (sys_open pf path flags k)"
proof -
  obtain t where t: "tcb k c = Some t" "current_task k = Some (c, t)" using entryD(4) [OF e] by blast
  note cur = entryD(1) [OF e]
  show ?thesis unfolding sys_open_def t(2) bind.simps prod.case Let_def
  proof (intro kernel_run_intros, goal_cases)
    case (3 _ _ _ _ _ k1)
    then show ?case using open_file_procs cur by (blast intro: kernel_run_value)
  next
    case (4 _ _ _ _ _ k1 _ r st)
    then have "t\<lparr>security := st\<rparr> = t" by (intro security_unchanged(1) [of r]) simp_all
    moreover have "procs k1 = procs k" using 4 open_file_procs by blast
    ultimately show ?case using t(1) cur by (intro kernel_run_value) (simp_all add: p_set_same)
  next
    case (5 _ _ _ _ _ k1 f r st u fd t1)
    have "self_upd t (t1\<lparr>fd_table := (fd_table t1)[fd := Some (F_OSInode f)]\<rparr>)"
      using 5 by (intro upd_open [of t u st]) simp_all
    moreover have "procs k1 = procs k" using 5 open_file_procs by blast
    ultimately show ?case by (intro kernel_run_self [OF cur t(1)]) simp_all
  qed (simp_all add: cur)
qed

lemma sys_dup_run:
  assumes e: "entry c k"
  shows "kernel_run c k (sys_dup fd k)"
proof -
  obtain t where t: "tcb k c = Some t" "current_task k = Some (c, t)" using entryD(4) [OF e] by blast
  note cur = entryD(1) [OF e]
  show ?thesis unfolding sys_dup_def t(2) bind.simps prod.case Let_def
  proof (intro kernel_run_option kernel_run_sum kernel_run_prod, goal_cases)
    case (2 f r st)
    then have "t\<lparr>security := st\<rparr> = t" by (intro security_unchanged(2) [of r]) simp_all
    then show ?case using t(1) cur by (intro kernel_run_value) (simp_all add: p_set_same)
  next
    case (3 f r st b n t1)
    then show ?case by (intro kernel_run_self [OF cur t(1) upd_dup [of t fd f b st n t1, OF _ _ _ refl refl]]) simp_all
  qed (simp_all add: cur)
qed

lemma entry_task_inv:
  assumes "entry c k" "tcb k c = Some t"
  shows "fd_inv t" "sig_inv t" "task_status t = Running"
proof -
  show r: "task_status t = Running" using sched_invD(6) [OF entryD(2) [OF assms(1)], of c] entryD(1) [OF assms(1)] assms(2) by simp
  then show "fd_inv t" "sig_inv t"
    using entryD(3) [OF assms(1)] assms(2) by (auto simp: tasks_inv_def task_inv_def)
qed

text \<open>The two new descriptors of a pipe.\<close>

lemma pipe_install_table:
  assumes al: "alloc_fd t0 = (r, t1)" "t2 = t1\<lparr>fd_table := (fd_table t1)[r := Some (F_Pipe pr)]\<rparr>"
      "alloc_fd t2 = (w, t3)" "t4 = t3\<lparr>fd_table := (fd_table t3)[w := Some (F_Pipe pw)]\<rparr>"
  shows "open_fds t4 = {r, w} \<union> open_fds t0" "pipe_fds t4 = {r, w} \<union> pipe_fds t0" "r \<notin> open_fds t0" "w \<notin> open_fds t0" "r \<noteq> w"
proof -
  note A = alloc_fd_facts [OF al(1)] and B = alloc_fd_facts [OF al(3)]
  have two: "open_fds t2 = insert r (open_fds t0)" "pipe_fds t2 = insert r (pipe_fds t0)"
    unfolding al(2) open_fds_install [OF A(2,3)] by (simp_all add: A(4,5))
  show "open_fds t4 = {r, w} \<union> open_fds t0" "pipe_fds t4 = {r, w} \<union> pipe_fds t0"
    unfolding al(4) open_fds_install [OF B(2,3)] by (auto simp: B(4,5) two)
  show "r \<notin> open_fds t0" "w \<notin> open_fds t0" "r \<noteq> w" using A(6) B(6) two by auto
qed

definition new_pipe_fds :: "TaskControlBlock \<Rightarrow> TaskControlBlock \<Rightarrow> bool" where
  "new_pipe_fds t t' \<longleftrightarrow>
     (\<exists>r w. r \<noteq> w \<and> r \<notin> open_fds t \<and> w \<notin> open_fds t
        \<and> open_fds t' = {r, w} \<union> open_fds t \<and> pipe_fds t' = {r, w} \<union> pipe_fds t)"

lemma ipc_error_to_ret_neg: "ipc_error_to_ret e < 0"
  by (cases e) (simp_all add: ipc_error_to_ret_def)

text \<open>
  A call of \<open>sys_pipe\<close> on every branch: it changes the caller alone; a failed one leaves at most
  unused slots at the end of its descriptor table, a successful one adds two pipe ends.
\<close>

lemma sys_pipe_effect:
  assumes e: "entry c k" and t: "tcb k c = Some t" and r: "sys_pipe pf p k = Some (fl, k')"
  shows "\<exists>v t'. fl = Value v \<and> procs k' = p_set c t' (procs k) \<and> self_upd t t'
    \<and> (v < 0 \<longrightarrow> (\<exists>n. t' = t\<lparr>fd_table := fd_table t @ replicate n None\<rparr>)) \<and> (0 \<le> v \<longrightarrow> v = 0 \<and> new_pipe_fds t t')"
proof -
  have ct: "current_task k = Some (c, t)" using entryD(4) [OF e] t by auto
  let ?rq = "ipc_request c t \<lparr>obj_id = 0, obj_owner_uid = cred_uid (creds t)\<rparr> PipeCreate 1"
  have pc: "req_operation ?rq = PipeCreate" by (simp add: ipc_request_def Let_def)
  have fd: "fd_inv t" using entry_task_inv [OF e t] by blast
  have "quota_repr (sec_quota (security t)) (open_fds t) (pipe_fds t) 0 0" using fd by (simp add: fd_inv_def acct_def)
  note undo = complete_rolls_back [OF this]
  have same: "\<exists>n. t = t\<lparr>fd_table := fd_table t @ replicate n None\<rparr>" "self_upd t t"
    by (rule exI [of _ 0], simp) (rule self_updI [where fs = "fd_table t" and st = "security t"], simp_all)
  note R = r [unfolded sys_pipe_def ct bind.simps prod.case Let_def]
  from R obtain r1 k1 where p: "task_preflight pf c ?rq k = Some (r1, k1)" by (rule bind_pairE)
  note R = R [unfolded p bind.simps prod.case]
  obtain now st ring where pe: "preflight now (security t) (k_audit k) ?rq = (r1, st, ring)"
      "procs k1 = p_set c (t\<lparr>security := st\<rparr>) (procs k)"
    using task_preflight_effect [OF p t] by blast
  show ?thesis
  proof (cases r1)
    case (Inl err)
    then have "procs k1 = procs k" using task_preflight_procs [OF p t] by simp
    moreover have "fl = Value (ipc_error_to_ret err)" "k' = k1" using R by (simp_all add: Inl)
    ultimately show ?thesis using same t ipc_error_to_ret_neg [of err] by (auto simp: p_set_same intro!: exI [of _ t])
  next
    case (Inr permit)
    note pre = pe(1) [unfolded Inr]
    obtain ends ps where mp: "make_pipe (cred_uid (creds t)) (k_pipes k1) = (ends, ps)"
      by (cases "make_pipe (cred_uid (creds t)) (k_pipes k1)") auto
    note R = R [unfolded Inr sum.case mp prod.case]
    have t1: "tcb k1 c = Some (t\<lparr>security := st\<rparr>)" "tcb (k1\<lparr>k_pipes := ps\<rparr>) c = Some (t\<lparr>security := st\<rparr>)"
      using arg_cong [OF pe(2), of "\<lambda>p. p_tcb p c"] by (simp_all add: p_tcb_set tcb_def)
    show ?thesis
    proof (cases ends)
      case (Inl err)
      note R = R [unfolded Inl sum.case]
      from R obtain r2 k2 where c2: "task_complete pf c permit (Inl err) (k1\<lparr>k_pipes := ps\<rparr>) = Some (r2, k2)"
        and R2: "Some (Value (ret_of_result r2), k2) = Some (fl, k')" by (rule bind_pairE)
      obtain now' st' ring' where ce: "complete now' st (k_audit (k1\<lparr>k_pipes := ps\<rparr>)) permit (Inl err) = (r2, st', ring')"
          "procs k2 = p_set c (t\<lparr>security := st'\<rparr>) (p_set c (t\<lparr>security := st\<rparr>) (procs k))"
        using task_complete_effect [OF c2 t1(2)] by (auto simp: pe(2))
      have "st' = security t" using undo [OF pre, of now' _ err] ce(1) by (metis fst_conv snd_conv)
      then have "procs k2 = procs k" using ce(2) t by (simp add: p_set_same)
      moreover have "r2 = Inl err" using complete_facts(1) [OF ce(1)] .
      ultimately show ?thesis using R2 same t ipc_error_to_ret_neg [of err]
        by (auto simp: p_set_same ret_of_result_def intro!: exI [of _ t])
    next
      case (Inr pipe_ends)
      obtain pr pw where ends: "ends = Inr (pr, pw)" using Inr by (cases pipe_ends) auto
      obtain rd u1 where al1: "alloc_fd (t\<lparr>security := st\<rparr>) = (rd, u1)" by (cases "alloc_fd (t\<lparr>security := st\<rparr>)") auto
      define u2 where u2: "u2 = u1\<lparr>fd_table := (fd_table u1)[rd := Some (F_Pipe pr)]\<rparr>"
      obtain wr u3 where al2: "alloc_fd u2 = (wr, u3)" by (cases "alloc_fd u2") auto
      define u4 where u4: "u4 = u3\<lparr>fd_table := (fd_table u3)[wr := Some (F_Pipe pw)]\<rparr>"
      note R = R [unfolded ends sum.case prod.case t1(2) bind.simps al1, folded u2, unfolded al2 prod.case, folded u4]
      from R obtain cr m where cp: "copy_pipe_fds (k_mem (set_tcb c u4 (k1\<lparr>k_pipes := ps\<rparr>))) (get_user_token u4) p rd wr = Some (cr, m)"
        by (rule bind_pairE)
      note R = R [unfolded cp bind.simps prod.case]
      show ?thesis
      proof (cases cr)
        case None
        define u5 where u5: "u5 = u4\<lparr>security := facade_register_pipe_fd (security u4) (of_nat rd)\<rparr>"
        define u6 where u6: "u6 = u5\<lparr>security := facade_register_pipe_fd (security u5) (of_nat wr)\<rparr>"
        note R = R [unfolded None option.case, folded u5, folded u6]
        from R obtain r2 k2 where c2: "task_complete pf c permit (Inr 0) (set_tcb c u6 (set_mem m (set_tcb c u4 (k1\<lparr>k_pipes := ps\<rparr>)))) = Some (r2, k2)"
          and R2: "Some (Value (ret_of_result r2), k2) = Some (fl, k')" by (rule bind_pairE)
        have "procs k2 = p_set c u6 (procs k)" "r2 = Inr 0" using task_complete_procs [OF c2] by (simp_all add: pe(2))
        moreover have "self_upd t u6" by (rule upd_pipe_ok [OF pre pc al1 u2 al2 u4 u5 u6])
        moreover have "new_pipe_fds t u6"
        proof -
          have "open_fds u6 = open_fds u4" "pipe_fds u6 = pipe_fds u4" "open_fds (t\<lparr>security := st\<rparr>) = open_fds t"
            "pipe_fds (t\<lparr>security := st\<rparr>) = pipe_fds t"
            by (simp_all add: u6 u5 open_fds_def pipe_fds_def)
          then show ?thesis using pipe_install_table [OF al1 u2 al2 u4] by (auto simp: new_pipe_fds_def)
        qed
        ultimately show ?thesis using R2 by (auto simp: ret_of_result_def as_isize_def intro!: exI [of _ u6])
      next
        case (Some err)
        define u5 where u5: "u5 = take_fd wr (take_fd rd u4)"
        note R = R [unfolded Some option.case, folded u5]
        from R obtain r2 k2 where c2: "task_complete pf c permit (Inl err) (set_tcb c u5 (set_mem m (set_tcb c u4 (k1\<lparr>k_pipes := ps\<rparr>)))) = Some (r2, k2)"
          and R2: "Some (Value (ret_of_result r2), k2) = Some (fl, k')" by (rule bind_pairE)
        obtain now' st' ring' where ce: "complete now' (security u5) (k_audit (set_tcb c u5 (set_mem m (set_tcb c u4 (k1\<lparr>k_pipes := ps\<rparr>))))) permit (Inl err) = (r2, st', ring')"
            "procs k2 = p_set c (u5\<lparr>security := st'\<rparr>) (procs k)"
          using task_complete_effect [OF c2, of u5] by (auto simp: pe(2))
        have "r2 = Inl err" using complete_facts(1) [OF ce(1)] .
        note F = upd_pipe_fail [OF pre pc al1 u2 al2 u4 u5 ce(1) refl]
        show ?thesis
        proof (rule exI, rule exI, intro conjI impI)
          show "fl = Value (ipc_error_to_ret err)" using R2 \<open>r2 = Inl err\<close> by (simp add: ret_of_result_def)
          show "procs k' = p_set c (u5\<lparr>security := st'\<rparr>) (procs k)" using R2 ce(2) by simp
          show "self_upd t (u5\<lparr>security := st'\<rparr>)" by (rule F(1))
          show "\<exists>n. u5\<lparr>security := st'\<rparr> = t\<lparr>fd_table := fd_table t @ replicate n None\<rparr>" by (rule F(2) [OF fd])
        qed (use ipc_error_to_ret_neg [of err] in simp_all)
      qed
    qed
  qed
qed

lemma sys_pipe_run:
  assumes e: "entry c k"
  shows "kernel_run c k (sys_pipe pf p k)"
proof (cases "sys_pipe pf p k")
  case (Some x)
  obtain t where t: "tcb k c = Some t" using entryD(4) [OF e] by blast
  obtain fl k' where x: "x = (fl, k')" by (cases x)
  obtain v t' where r: "fl = Value v" "procs k' = p_set c t' (procs k)" "self_upd t t'"
    using sys_pipe_effect [OF e t Some [unfolded x]] by blast
  show ?thesis unfolding Some x r(1) by (rule kernel_run_self [OF entryD(1) [OF e] t r(3,2)])
qed simp

end
