(* ===== verification/Kernel_Refinement.thy ===== *)
theory Kernel_Refinement
  imports Kernel_Runs
begin

text \<open>
  Every entry into the kernel is a run of the abstract process machine by the process that
  entered it: the system calls on processes, the delivery of signals, the trap handler, the
  resumption of a suspended task and the turn of the scheduler.
\<close>

section \<open>Exit\<close>

lemma reparent_effect:
  assumes "reparent cs k = Some k'"
  shows "\<exists>ts. k' = k\<lparr>k_tasks := ts\<rparr> \<and> map fst ts = map fst (k_tasks k)
    \<and> (\<forall>q t. tcb k q = Some t \<longrightarrow>
         (\<exists>pa. map_of ts q = Some (t\<lparr>parent := pa, children := children t @ (if q = k_initproc k then cs else [])\<rparr>)))"
  using assms
proof (induction cs arbitrary: k)
  case Nil
  have "\<exists>pa. tcb k q = Some (t\<lparr>parent := pa, children := children t @ []\<rparr>)" if "tcb k q = Some t" for q t
    using that by (intro exI [of _ "parent t"]) simp
  with Nil show ?case by (intro exI [of _ "k_tasks k"]) (auto simp: tcb_def)
next
  case (Cons x cs)
  from Cons.prems obtain t i where t: "tcb k x = Some t"
    and i: "tcb (set_tcb x (t\<lparr>parent := Some (k_initproc k)\<rparr>) k) (k_initproc k) = Some i"
    and r: "reparent cs (set_tcb (k_initproc k) (i\<lparr>children := children i @ [x]\<rparr>)
              (set_tcb x (t\<lparr>parent := Some (k_initproc k)\<rparr>) k)) = Some k'"
    by (auto simp: bind_eq_Some_conv Let_def set_tcb_def)
  let ?k1 = "set_tcb (k_initproc k) (i\<lparr>children := children i @ [x]\<rparr>) (set_tcb x (t\<lparr>parent := Some (k_initproc k)\<rparr>) k)"
  have keys: "map fst (k_tasks ?k1) = map fst (k_tasks k)"
  proof -
    have "map_of (k_tasks k) x \<noteq> None" using t by (simp add: tcb_def)
    from map_fst_update [OF this] i show ?thesis
      by (simp add: set_tcb_def map_fst_update tcb_def)
  qed
  obtain ts where ts: "k' = ?k1\<lparr>k_tasks := ts\<rparr>" "map fst ts = map fst (k_tasks ?k1)"
    "\<forall>q t. tcb ?k1 q = Some t \<longrightarrow>
       (\<exists>pa. map_of ts q = Some (t\<lparr>parent := pa, children := children t @ (if q = k_initproc ?k1 then cs else [])\<rparr>))"
    using Cons.IH [OF r] by (elim exE conjE) (rule that)
  have init: "k_initproc ?k1 = k_initproc k" by (simp add: set_tcb_def)
  have "\<exists>pa. map_of ts q = Some (u\<lparr>parent := pa, children := children u @ (if q = k_initproc k then x # cs else [])\<rparr>)"
    if u: "tcb k q = Some u" for q u
  proof -
    have "\<exists>pa. tcb ?k1 q = Some (u\<lparr>parent := pa, children := children u @ (if q = k_initproc k then [x] else [])\<rparr>)"
      using i t u by (cases "q = x"; cases "q = k_initproc k")
        (auto intro: exI [of _ "parent u"])
    then obtain pa where "tcb ?k1 q = Some (u\<lparr>parent := pa, children := children u @ (if q = k_initproc k then [x] else [])\<rparr>)" by blast
    from ts(3) [rule_format, OF this] show ?thesis by (auto simp: init)
  qed
  moreover have "k' = k\<lparr>k_tasks := ts\<rparr>" by (simp add: ts(1) set_tcb_def)
  ultimately show ?case using ts(2) keys by (intro exI [of _ ts]) auto
qed

text \<open>The control blocks after the orphans have a new parent and the zombie has given up its resources.\<close>

lemma exited_procs:
  assumes t: "tcb k c = Some t" and ni: "c \<noteq> k_initproc k"
    and re: "reparent (children t) (set_tcb c (t\<lparr>task_status := Zombie, exit_code := code\<rparr>)
               (k\<lparr>k_current := None, k_pid2task := bt_remove c (k_pid2task k)\<rparr>)) = Some k2"
  shows "\<exists>pa. tcb k2 c = Some (t\<lparr>task_status := Zombie, exit_code := code, parent := pa\<rparr>)"
    and "tcb k2 c = Some t2 \<Longrightarrow>
      exited (procs k) c code (procs (set_tcb c (t2\<lparr>children := [], memory_set := ms, fd_table := []\<rparr>) (k2\<lparr>k_phys := ph\<rparr>)))"
proof -
  let ?z = "t\<lparr>task_status := Zombie, exit_code := code\<rparr>"
  let ?k1 = "set_tcb c ?z (k\<lparr>k_current := None, k_pid2task := bt_remove c (k_pid2task k)\<rparr>)"
  have init: "k_initproc ?k1 = k_initproc k" by (simp add: set_tcb_def)
  have tcb1: "tcb ?k1 q = (if q = c then Some ?z else tcb k q)" for q by (simp add: tcb_def set_tcb_def update_conv')
  have "map_of (k_tasks k) c \<noteq> None" using t by (simp add: tcb_def)
  note keys1 = map_fst_update [OF this, of ?z]
  obtain ts where ts: "k2 = ?k1\<lparr>k_tasks := ts\<rparr>" "map fst ts = map fst (k_tasks ?k1)"
    "\<And>q u. tcb ?k1 q = Some u \<Longrightarrow>
       \<exists>pa. map_of ts q = Some (u\<lparr>parent := pa, children := children u @ (if q = k_initproc ?k1 then children t else [])\<rparr>)"
    using reparent_effect [OF re] by blast
  have tcb2: "tcb k2 q = map_of ts q" for q by (simp add: ts(1) tcb_def)
  obtain pa where pa: "tcb k2 c = Some (?z\<lparr>parent := pa\<rparr>)"
    using ts(3) [of c ?z] ni by (auto simp: tcb1 tcb2 init)
  then show "\<exists>pa. tcb k2 c = Some (t\<lparr>task_status := Zombie, exit_code := code, parent := pa\<rparr>)" by auto
  have others: "\<exists>pa. tcb k2 q = Some (u\<lparr>parent := pa, children := children u @ (if q = k_initproc k then children t else [])\<rparr>)"
    if "tcb k q = Some u" "q \<noteq> c" for q u
  proof -
    have "tcb ?k1 q = Some u" using that by (subst tcb1) simp
    from ts(3) [OF this] show ?thesis unfolding tcb2 init .
  qed
  assume t2: "tcb k2 c = Some t2"
  let ?u = "t2\<lparr>children := [], memory_set := ms, fd_table := []\<rparr>"
  have "map_of (k_tasks k2) c \<noteq> None" using t2 by (simp add: tcb_def)
  note keys2 = map_fst_update [OF this, of ?u]
  have keys: "map fst (p_tasks (p_set c ?u (procs k2))) = map fst (k_tasks k)"
    unfolding p_set_def using keys1 keys2 ts(2) by (simp add: ts(1) set_tcb_def)
  have frame: "k_pid2task k2 = bt_remove c (k_pid2task k)" "k_ready k2 = k_ready k" "k_current k2 = None"
    "k_initproc k2 = k_initproc k" "k_pids k2 = k_pids k" by (simp_all add: ts(1) set_tcb_def)
  show "exited (procs k) c code (procs (set_tcb c ?u (k2\<lparr>k_phys := ph\<rparr>)))"
    unfolding exited_def procs_set_tcb procs_other
  proof (intro conjI allI impI, goal_cases)
    case (2 q u)
    show ?case
    proof (cases "q = c")
      case True
      then show ?thesis using 2 pa t2 t by (auto simp: p_tcb_set)
    next
      case False
      then show ?thesis using others [of q u] 2 t by (auto simp: p_tcb_set)
    qed
  qed (simp_all add: keys frame)
qed

lemma strong_count_kids: "kid_count (procs k) pid \<le> strong_count k pid"
  by (simp add: strong_count_def kid_count_def)

lemma exit_effect:
  assumes e: "entry c k" and c: "c \<noteq> IDLE_PID" and r: "exit_current_and_run_next code k = Some (fl, k')"
  shows "fl = Switched" "exited (procs k) c code (procs k')" "c \<noteq> k_initproc k"
proof -
  obtain t where t: "tcb k c = Some t" using entryD(4) [OF e] by blast
  note cur = entryD(1) [OF e]
  note R = r [unfolded exit_current_and_run_next_def take_current_task_def cur bind.simps prod.case Let_def]
  let ?z = "t\<lparr>task_status := Zombie, exit_code := code\<rparr>"
  let ?k1 = "k\<lparr>k_current := None, k_pid2task := bt_remove c (k_pid2task k)\<rparr>"
  have t1: "tcb ?k1 c = Some t" using t by (simp add: tcb_def)
  have rem: "remove_from_pid2task c (k\<lparr>k_current := None\<rparr>) = Some ?k1" and ni: "c \<noteq> k_initproc k"
    using R c by (auto simp: remove_from_pid2task_def tcb_def t [unfolded tcb_def] split: if_splits)
  show "c \<noteq> k_initproc k" by (rule ni)
  from R c rem t1 ni obtain k2 where k2: "reparent (children t) (set_tcb c ?z ?k1) = Some k2"
    and R2: "(tcb k2 c \<bind> (\<lambda>t. recycle_data_pages (memory_set t) (k_phys k2) \<bind> (\<lambda>(ms, ph).
              (if strong_count (set_tcb c (t\<lparr>children := [], memory_set := ms, fd_table := []\<rparr>) (k2\<lparr>k_phys := ph\<rparr>)) c = 0
               then tcb_drop c (set_tcb c (t\<lparr>children := [], memory_set := ms, fd_table := []\<rparr>) (k2\<lparr>k_phys := ph\<rparr>))
               else Some (set_tcb c (t\<lparr>children := [], memory_set := ms, fd_table := []\<rparr>) (k2\<lparr>k_phys := ph\<rparr>)))
              \<bind> (\<lambda>k. Some (Switched, k))))) = Some (fl, k')"
    by (auto elim!: bind_SomeE)
  from R2 obtain t2 where t2: "tcb k2 c = Some t2" by (rule bind_SomeE)
  note R2 = R2 [unfolded t2 bind.simps]
  from R2 obtain ms ph where rc: "recycle_data_pages (memory_set t2) (k_phys k2) = Some (ms, ph)" by (rule bind_pairE)
  let ?k4 = "set_tcb c (t2\<lparr>children := [], memory_set := ms, fd_table := []\<rparr>) (k2\<lparr>k_phys := ph\<rparr>)"
  have ex: "exited (procs k) c code (procs ?k4)" by (rule exited_procs(2) [OF t ni k2 t2])
  have "pstep c (procs k) (procs ?k4)" by (rule pstep.exit [OF _ _ ex]) (simp_all add: cur ni)
  then have "sched_inv (procs ?k4)" using sched_inv_step entryD(2) [OF e] by blast
  moreover have "p_tcb (procs ?k4) c \<noteq> None" "p_initproc (procs ?k4) = k_initproc k"
    using ex by (simp_all add: exited_def p_tcb_set)
  ultimately have "kid_count (procs ?k4) c = 1" using sched_invD(9) [of "procs ?k4" c] ni by simp
  then have "strong_count ?k4 c \<noteq> 0" using strong_count_kids [of ?k4 c] by simp
  then have "fl = Switched" "k' = ?k4" using R2 by (simp_all add: rc)
  then show "fl = Switched" "exited (procs k) c code (procs k')" using ex by simp_all
qed

lemma exit_run:
  assumes e: "entry c k"
  shows "kernel_run c k (exit_current_and_run_next code k)" (is "kernel_run c k ?r")
proof (cases ?r)
  case (Some res)
  obtain fl k' where res: "res = (fl, k')" by (cases res)
  note cur = entryD(1) [OF e]
  show ?thesis
  proof (cases "c = IDLE_PID")
    case True
    then show ?thesis by (simp add: exit_current_and_run_next_def take_current_task_def cur)
  next
    case False
    note E = exit_effect [OF e False Some [unfolded res]]
    have "pstep c (procs k) (procs k')" by (rule pstep.exit [OF _ _ E(2)]) (simp_all add: cur E(3))
    then have "prun c (procs k) (procs k')" by (rule prun_step)
    moreover have "k_current k' = None" using E(2) by (simp add: exited_def)
    ultimately show ?thesis by (simp add: Some res E(1))
  qed
qed simp

section \<open>Wait\<close>

lemma kernel_stack_frame:
  "kernel_stack_drop pid k = Some k' \<Longrightarrow> \<exists>ms ph. k' = k\<lparr>k_space := ms, k_phys := ph\<rparr>"
  "kernel_stack_new pid k = Some k' \<Longrightarrow> \<exists>ms ph. k' = k\<lparr>k_space := ms, k_phys := ph\<rparr>"
  by (auto simp: kernel_stack_drop_def kernel_stack_new_def bind_eq_Some_conv Let_def split_beta)

lemma tcb_drop_procs:
  assumes "tcb_drop pid k = Some k'"
  shows "\<exists>a. pid_dealloc pid (k_pids k) = Some a
    \<and> procs k' = (procs k)\<lparr>p_tasks := AList.delete pid (k_tasks k), p_pids := a\<rparr>"
  using assms by (auto simp: tcb_drop_def bind_eq_Some_conv dest!: kernel_stack_frame)

lemma waitpid_run:
  assumes e: "entry c k"
  shows "kernel_run c k (sys_waitpid pid ptr k)"
proof -
  obtain t where t: "tcb k c = Some t" "current_task k = Some (c, t)" using entryD(4) [OF e] by blast
  note cur = entryD(1) [OF e]
  show ?thesis unfolding sys_waitpid_def t(2) bind.simps prod.case Let_def
  proof (intro kernel_run_intros, goal_cases)
    case (5 i z r m k')
    let ?f = "children t ! i" and ?xs = "take i (children t)" and ?ys = "drop (Suc i) (children t)"
    have i: "i < length (children t)" "zombie_at k ?f"
      using position_SomeD [of _ "children t" i] 5 by blast+
    have z: "tcb k ?f = Some z" "task_status z = Zombie"
      using 5 i(2) by (auto simp: zombie_at_def is_zombie_def)
    have kids: "children t = ?xs @ ?f # ?ys" using i(1) by (simp add: id_take_nth_drop [symmetric])
    let ?k1 = "set_tcb c (t\<lparr>children := ?xs @ ?ys\<rparr>) (set_mem m k)"
    have p1: "procs ?k1 = p_set c (t\<lparr>children := ?xs @ ?ys\<rparr>) (procs k)" by simp
    obtain a where a: "pid_dealloc ?f (k_pids ?k1) = Some a"
        "procs k' = (procs ?k1)\<lparr>p_tasks := AList.delete ?f (k_tasks ?k1), p_pids := a\<rparr>"
      using tcb_drop_procs 5 by blast
    have "k_pids ?k1 = p_pids (procs k)" "k_tasks ?k1 = p_tasks (p_set c (t\<lparr>children := ?xs @ ?ys\<rparr>) (procs k))"
      by (simp_all add: set_tcb_def set_mem_def p_set_def)
    note a = a [unfolded this p1]
    have "pstep c (procs k) (procs k')"
      unfolding a(2) by (rule pstep.reap [OF _ kids _ z(2) _ a(1)]) (simp_all add: t z(1) cur)
    then have "prun c (procs k) (procs k')" by (rule prun_step)
    moreover have "k_current k' = Some c" using arg_cong [OF a(2), of p_current] cur by simp
    ultimately show ?case by simp
  qed (simp_all add: cur)
qed

section \<open>Fork and exec\<close>

text \<open>
  A fork needs a PID: the counter of the allocator is 64 bits wide and wraps around in a release
  build, so the claims about fork assume that it has not reached its end.
\<close>

definition pids_left :: "('fs, 'inode) kernel \<Rightarrow> bool" where
  "pids_left k \<longleftrightarrow> pid_alloc_guarded (k_pids k) \<noteq> None"

lemma task_fork_procs:
  assumes "task_fork pf c k = Some (pid, k')" "tcb k c = Some t" "pids_left k"
  shows "\<exists>a u. pid_alloc_guarded (k_pids k) = Some (pid, a) \<and> child_of c t u
    \<and> procs k' = p_set c (t\<lparr>children := children t @ [pid]\<rparr>) (p_set pid u ((procs k)\<lparr>p_pids := a\<rparr>))
    \<and> k_current k' = k_current k"
proof -
  obtain q a where pa: "pid_alloc (k_pids k) = (q, a)" by (cases "pid_alloc (k_pids k)")
  then have g: "pid_alloc_guarded (k_pids k) = Some (q, a)"
    using assms(3) by (auto simp: pids_left_def pid_alloc_guarded_def split: if_splits)
  from assms(1,2) obtain ms ph k1 ppn u where k1: "kernel_stack_new q (k\<lparr>k_phys := ph, k_pids := a\<rparr>) = Some k1" "pid = q"
    and u: "u = \<lparr>trap_cx_ppn = ppn, base_size = base_size t, task_cx = goto_trap_return (kernel_stack_top pid),
                   task_status = Ready, memory_set = ms, parent = Some c, children = [], exit_code = 0,
                   fd_table = fd_table t, security = security_fork_from (security t),
                   signals = 0, signal_mask = signal_mask t, handling_sig = - 1, signal_actions = signal_actions t,
                   killed = False, frozen = False, trap_ctx_backup = None\<rparr>"
    and k': "k' = put_trap_cx u ((get_trap_cx u (set_tcb c (t\<lparr>children := children t @ [pid]\<rparr>) (set_tcb pid u k1)))
                \<lparr>tc_kernel_sp := kernel_stack_top pid\<rparr>) (set_tcb c (t\<lparr>children := children t @ [pid]\<rparr>) (set_tcb pid u k1))"
    unfolding task_fork_def alloc_pid_def Let_def by (auto simp: pa elim!: bind_SomeE)
  have "procs k1 = (procs k)\<lparr>p_pids := a\<rparr>" "k_current k1 = k_current k" using kernel_stack_frame(2) [OF k1(1)] by auto
  moreover have "child_of c t u" by (simp add: u child_of_def security_fork_from_def cred_fork_from_def quota_fork_from_def)
  ultimately show ?thesis using g k1(2) by (intro exI [of _ a] exI [of _ u]) (simp add: k')
qed

lemma fork_run:
  assumes e: "entry c k" and l: "pids_left k"
  shows "kernel_run c k (sys_fork pf k)"
proof -
  obtain t where t: "tcb k c = Some t" "current_task k = Some (c, t)" using entryD(4) [OF e] by blast
  note cur = entryD(1) [OF e]
  show ?thesis unfolding sys_fork_def t(2) bind.simps prod.case Let_def
  proof (intro kernel_run_intros, goal_cases)
    case (1 x pid k1 u)
    then obtain a v where f: "pid_alloc_guarded (k_pids k) = Some (pid, a)" "child_of c t v"
        "procs k1 = p_set c (t\<lparr>children := children t @ [pid]\<rparr>) (p_set pid v ((procs k)\<lparr>p_pids := a\<rparr>))"
        "k_current k1 = k_current k"
      using task_fork_procs [OF _ t(1) l, of pf pid k1] by blast
    have "pstep c (procs k) (enqueue pid (procs k1))"
      unfolding f(3) using f(1,2) t(1) cur by (intro pstep.spawn) simp_all
    then show ?case using cur f(4) by (simp add: prun_step)
  qed
qed

lemma exec_run:
  assumes e: "entry c k"
  shows "kernel_run c k (sys_exec pf path args k)"
proof -
  obtain t where t: "tcb k c = Some t" "current_task k = Some (c, t)" using entryD(4) [OF e] by blast
  note cur = entryD(1) [OF e]
  show ?thesis unfolding sys_exec_def t(2) bind.simps prod.case Let_def
  proof (intro kernel_run_intros, goal_cases)
    case (3 _ _ _ _ _ _ k1)
    then show ?case using open_file_procs cur by (blast intro: kernel_run_value)
  next
    case (4 _ _ _ av _ _ k1 f _ data k2 k3)
    have p: "procs k2 = procs k" using 4 open_file_procs read_all_procs by metis
    then have t2: "tcb k2 c = Some t" using procs_tcb [OF p] t(1) by simp
    obtain ms ppn where "procs k3 = p_set c (t\<lparr>memory_set := ms, trap_cx_ppn := ppn\<rparr>) (procs k2)"
      using 4 t2 by (auto simp: task_exec_def bind_eq_Some_conv Let_def split_beta)
    then show ?case using p by (intro kernel_run_self [OF cur t(1) upd_exec]) simp
  qed (simp_all add: cur)
qed

section \<open>Signals\<close>

text \<open>A clock that counts at least the milliseconds.\<close>

definition clock_ok :: "('fs, 'inode) platform \<Rightarrow> bool" where
  "clock_ok pf \<longleftrightarrow> MSEC_PER_SEC \<le> pf_clock_freq pf"

lemma clock_ok_iff: "clock_ok pf \<longleftrightarrow> pf_clock_freq pf div MSEC_PER_SEC \<noteq> 0"
proof -
  have "pf_clock_freq pf div MSEC_PER_SEC = 0 \<longleftrightarrow> unat (pf_clock_freq pf) div 1000 = 0"
    unfolding word_unat_eq_iff unat_div MSEC_PER_SEC_def by simp
  then show ?thesis by (auto simp: clock_ok_def word_le_nat_alt MSEC_PER_SEC_def div_eq_0_iff)
qed

lemma get_time_ms_now: "clock_ok pf \<Longrightarrow> \<exists>now. get_time_ms pf k = Some (now, k\<lparr>k_ticks := k_ticks k + 1\<rparr>)"
  by (simp add: clock_ok_iff get_time_ms_def get_time_def Let_def)

lemma get_time_ms_None: "\<not> clock_ok pf \<Longrightarrow> get_time_ms pf k = None"
  by (simp add: clock_ok_iff get_time_ms_def get_time_def Let_def)

lemma set_tcb_same: "tcb k c = Some t \<Longrightarrow> set_tcb c t k = k"
  by (simp add: set_tcb_def tcb_def update_triv)

lemma tcb_other [simp]:
  "tcb (k\<lparr>k_ticks := n\<rparr>) = tcb k" "tcb (k\<lparr>k_audit := ring\<rparr>) = tcb k" "tcb (k\<lparr>k_phys := ph\<rparr>) = tcb k"
  by (simp_all add: tcb_def fun_eq_iff)

text \<open>A signal request needs no quota, so the facade only decides and records.\<close>

lemma task_preflight_signal:
  assumes "tcb k c = Some t" "req_operation rq = SignalSend" "clock_ok pf"
  shows "\<exists>now. task_preflight pf c rq k =
    (case authorize rq of
       Inl err \<Rightarrow> Some (Inl err, k\<lparr>k_ticks := k_ticks k + 1, k_audit := audit_record now rq (Inl err) (k_audit k)\<rparr>)
     | Inr _ \<Rightarrow> Some (Inr \<lparr>permit_request = rq, permit_reservation = \<lparr>res_kind = QR_None, res_amount = 0\<rparr>\<rparr>, k))"
proof -
  obtain now where g: "get_time_ms pf k = Some (now, k\<lparr>k_ticks := k_ticks k + 1\<rparr>)" using get_time_ms_now assms by blast
  show ?thesis
    by (intro exI [of _ now]) (simp add: task_preflight_def preflight_def quota_reserve_def g assms set_tcb_same split: sum.split)
qed

lemma task_complete_signal:
  assumes "tcb k c = Some t" "clock_ok pf"
  shows "\<exists>now. task_complete pf c \<lparr>permit_request = rq, permit_reservation = \<lparr>res_kind = QR_None, res_amount = 0\<rparr>\<rparr> out k =
    Some (out, k\<lparr>k_ticks := k_ticks k + 1, k_audit := audit_record now rq out (k_audit k)\<rparr>)"
proof -
  obtain now where g: "get_time_ms pf k = Some (now, k\<lparr>k_ticks := k_ticks k + 1\<rparr>)" using get_time_ms_now assms by blast
  show ?thesis
    by (intro exI [of _ now]) (simp add: task_complete_def complete_def quota_finish_def g assms set_tcb_same)
qed

text \<open>What \<open>kill\<close> answers: the errors in the order in which they are checked.\<close>

definition kill_verdict :: "procs \<Rightarrow> usize \<Rightarrow> usize \<Rightarrow> i32 \<Rightarrow> unit IpcResult" where
  "kill_verdict p c pid signum =
     (if signum < 0 \<or> 31 < signum then Inl InvalidArgument
      else case p_tcb p pid of
        None \<Rightarrow> Inl ProcessNotFound
      | Some t \<Rightarrow>
          if task_status t = Zombie then Inl ProcessNotFound
          else if \<not> may_signal c (the (p_tcb p c)) pid t then Inl PermissionDenied
          else if nat signum \<in> sig_set (signals t) then Inl TryAgain
          else Inr ())"

definition kill_request :: "procs \<Rightarrow> usize \<Rightarrow> usize \<Rightarrow> IpcRequest" where
  "kill_request p c pid =
     ipc_request c (the (p_tcb p c)) \<lparr>obj_id = pid, obj_owner_uid = cred_uid (creds (the (p_tcb p pid)))\<rparr> SignalSend 1"

lemma authorize_kill:
  assumes "p_tcb p c = Some tc" "p_tcb p pid = Some t"
  shows "authorize (kill_request p c pid) = (if may_signal c tc pid t then Inr () else Inl PermissionDenied)"
  using assms by (simp add: authorize_def authorize_signal_def kill_request_def ipc_request_def Let_def may_signal_def is_root_def ROOT_UID_def)

lemma sys_kill_live:
  assumes e: "entry c k" and t: "tcb k pid = Some t" "task_status t \<noteq> Zombie" and s: "0 \<le> signum" "signum \<le> 31"
    and clk: "clock_ok pf"
  shows "\<exists>k' now. sys_kill pf pid signum k =
      Some (Value (case kill_verdict (procs k) c pid signum of Inr _ \<Rightarrow> 0 | Inl err \<Rightarrow> ipc_error_to_ret err), k')
    \<and> procs k' = (if isl (kill_verdict (procs k) c pid signum) then procs k
                  else p_set pid (t\<lparr>signals := sig_insert (signals t) (sig_bit (nat signum))\<rparr>) (procs k))
    \<and> k_audit k' = audit_record now (kill_request (procs k) c pid)
         (case kill_verdict (procs k) c pid signum of Inl err \<Rightarrow> Inl err | Inr _ \<Rightarrow> Inr 1) (k_audit k)"
proof -
  obtain tc where tc: "tcb k c = Some tc" "current_task k = Some (c, tc)" using entryD(4) [OF e] by blast
  let ?rq = "kill_request (procs k) c pid" and ?b = "sig_bit (nat signum)"
  have p2t: "pid2task k pid = Some pid"
    using sched_invD(7) [OF entryD(2) [OF e], of pid] t by (simp add: pid2task_def)
  have rq: "ipc_request c tc \<lparr>obj_id = pid, obj_owner_uid = cred_uid (creds t)\<rparr> SignalSend 1 = ?rq"
    using t tc by (simp add: kill_request_def)
  have op: "req_operation ?rq = SignalSend" by (simp add: kill_request_def ipc_request_def Let_def)
  have pend: "sig_contains (signals t) ?b \<longleftrightarrow> nat signum \<in> sig_set (signals t)" using s by (intro sig_contains_bit) simp
  have unf: "sys_kill pf pid signum k = task_preflight pf c ?rq k \<bind> (\<lambda>(r, k). case r of
       Inl error \<Rightarrow> Some (Value (ipc_error_to_ret error), k)
     | Inr permit \<Rightarrow> tcb k pid \<bind> (\<lambda>u. let (outcome, u) = (if sig_contains (signals u) ?b then (Inl TryAgain, u)
              else (Inr 1, u\<lparr>signals := sig_insert (signals u) ?b\<rparr>))
            in task_complete pf c permit outcome (set_tcb pid u k) \<bind> (\<lambda>(r, k).
              Some (Value (case r of Inr _ \<Rightarrow> 0 | Inl error \<Rightarrow> ipc_error_to_ret error), k))))"
    using s p2t tc t by (simp add: sys_kill_def MAX_SIG_def rq cong: option.case_cong)
  obtain now where pf: "task_preflight pf c ?rq k = (case authorize ?rq of
       Inl err \<Rightarrow> Some (Inl err, k\<lparr>k_ticks := k_ticks k + 1, k_audit := audit_record now ?rq (Inl err) (k_audit k)\<rparr>)
     | Inr _ \<Rightarrow> Some (Inr \<lparr>permit_request = ?rq, permit_reservation = \<lparr>res_kind = QR_None, res_amount = 0\<rparr>\<rparr>, k))"
    using task_preflight_signal [OF tc(1) op clk] by blast
  show ?thesis
  proof (cases "may_signal c tc pid t")
    case False
    then have "kill_verdict (procs k) c pid signum = Inl PermissionDenied" "authorize ?rq = Inl PermissionDenied"
      using s t tc authorize_kill [of "procs k" c tc pid t] by (simp_all add: kill_verdict_def)
    then show ?thesis by (intro exI [of _ now] exI) (auto simp: unf pf)
  next
    case True
    then have v: "kill_verdict (procs k) c pid signum = (if nat signum \<in> sig_set (signals t) then Inl TryAgain else Inr ())"
      and a: "authorize ?rq = Inr ()"
      using s t tc authorize_kill [of "procs k" c tc pid t] by (simp_all add: kill_verdict_def)
    let ?u = "if nat signum \<in> sig_set (signals t) then t else t\<lparr>signals := sig_insert (signals t) ?b\<rparr>"
    let ?out = "if nat signum \<in> sig_set (signals t) then Inl TryAgain else Inr 1"
    let ?k1 = "set_tcb pid ?u k"
    have "tcb ?k1 c = Some (if c = pid then ?u else tc)" using tc by simp
    from task_complete_signal [OF this clk, of ?rq ?out] obtain now' where tcm:
      "task_complete pf c \<lparr>permit_request = ?rq, permit_reservation = \<lparr>res_kind = QR_None, res_amount = 0\<rparr>\<rparr> ?out ?k1 =
        Some (?out, ?k1\<lparr>k_ticks := k_ticks ?k1 + 1, k_audit := audit_record now' ?rq ?out (k_audit ?k1)\<rparr>)" by blast
    let ?k2 = "?k1\<lparr>k_ticks := k_ticks ?k1 + 1, k_audit := audit_record now' ?rq ?out (k_audit ?k1)\<rparr>"
    have r: "sys_kill pf pid signum k = Some (Value (case ?out of Inr _ \<Rightarrow> 0 | Inl err \<Rightarrow> ipc_error_to_ret err), ?k2)"
      using tcm t(1) by (cases "nat signum \<in> sig_set (signals t)") (simp_all add: unf pf a pend)
    have p: "procs ?k2 = p_set pid ?u (procs k)" by simp
    have au: "k_audit ?k2 = audit_record now' ?rq ?out (k_audit k)" by (simp add: set_tcb_def)
    show ?thesis
    proof (cases "nat signum \<in> sig_set (signals t)")
      case True
      note o = if_P [OF True]
      show ?thesis unfolding v o sum.case sum.disc(1) [THEN eqTrueI] if_True
        using r [unfolded o sum.case] p [unfolded o p_set_same [of "procs k" pid t, unfolded p_tcb_procs, OF t(1)]] au [unfolded o] by blast
    next
      case False
      note o = if_not_P [OF False]
      show ?thesis unfolding v o sum.case sum.disc(2) [THEN Eq_FalseI] if_False
        using r [unfolded o sum.case] p [unfolded o] au [unfolded o] by blast
    qed
  qed
qed

lemma sys_kill_no_clock:
  assumes "\<not> clock_ok pf" "sys_kill pf pid signum k = Some (fl, k')"
  shows "k' = k \<and> (\<exists>v. fl = Value v)"
  using assms(2)
  by (auto simp: sys_kill_def task_preflight_def task_complete_def get_time_ms_None [OF assms(1)] Let_def bind_eq_Some_conv
      split: option.splits sum.splits if_splits prod.splits) (metis sum.exhaust sum.disc(1))+

text \<open>The branches without a target.\<close>

lemma pid2task_live: "entry c k \<Longrightarrow> pid2task k pid = (if \<exists>t. tcb k pid = Some t \<and> task_status t \<noteq> Zombie then Some pid else None)"
  using sched_invD(7) [OF entryD(2), of c k pid] by (auto simp: pid2task_def split: option.splits if_splits)

lemma sys_kill_spec:
  assumes e: "entry c k" and clk: "clock_ok pf"
  shows "\<exists>k' now. sys_kill pf pid signum k =
      Some (Value (case kill_verdict (procs k) c pid signum of Inr _ \<Rightarrow> 0 | Inl err \<Rightarrow> ipc_error_to_ret err), k')
    \<and> (case kill_verdict (procs k) c pid signum of
         Inl InvalidArgument \<Rightarrow> k' = k
       | Inl ProcessNotFound \<Rightarrow> k' = k
       | Inl err \<Rightarrow> procs k' = procs k \<and> k_audit k' = audit_record now (kill_request (procs k) c pid) (Inl err) (k_audit k)
       | Inr _ \<Rightarrow> procs k' = p_set pid ((the (tcb k pid))\<lparr>signals := sig_insert (signals (the (tcb k pid))) (sig_bit (nat signum))\<rparr>) (procs k)
           \<and> k_audit k' = audit_record now (kill_request (procs k) c pid) (Inr 1) (k_audit k))"
proof (cases "0 \<le> signum \<and> signum \<le> 31 \<and> (\<exists>t. tcb k pid = Some t \<and> task_status t \<noteq> Zombie)")
  case True
  then obtain t where t: "tcb k pid = Some t" "task_status t \<noteq> Zombie" and s: "0 \<le> signum" "signum \<le> 31" by blast
  have "kill_verdict (procs k) c pid signum \<in> {Inr (), Inl PermissionDenied, Inl TryAgain}"
    using t s by (auto simp: kill_verdict_def)
  then show ?thesis using sys_kill_live [OF e t s clk] t(1) by fastforce
next
  case False
  then consider "signum < 0 \<or> 31 < signum" | "0 \<le> signum" "signum \<le> 31" "\<not> (\<exists>t. tcb k pid = Some t \<and> task_status t \<noteq> Zombie)"
    by (metis not_le)
  then show ?thesis
  proof cases
    case 1
    then have "kill_verdict (procs k) c pid signum = Inl InvalidArgument" by (simp add: kill_verdict_def)
    then show ?thesis using 1 by (auto simp: sys_kill_def MAX_SIG_def)
  next
    case 2
    then have "kill_verdict (procs k) c pid signum = Inl ProcessNotFound" by (auto simp: kill_verdict_def split: option.split)
    then show ?thesis using 2 by (auto simp: sys_kill_def MAX_SIG_def pid2task_live [OF e] sig_from_bits_def)
  qed
qed

lemma kill_run:
  assumes e: "entry c k"
  shows "kernel_run c k (sys_kill pf pid signum k)"
proof (cases "clock_ok pf")
  case False
  show ?thesis
  proof (cases "sys_kill pf pid signum k")
    case (Some x)
    then show ?thesis using sys_kill_no_clock [OF False, of pid signum k "fst x" "snd x"] entryD(1) [OF e] by (cases x) auto
  qed simp
next
  case True
  obtain tc where tc: "tcb k c = Some tc" using entryD(4) [OF e] by blast
  let ?v = "kill_verdict (procs k) c pid signum"
  obtain k' where k': "sys_kill pf pid signum k = Some (Value (case ?v of Inr _ \<Rightarrow> 0 | Inl err \<Rightarrow> ipc_error_to_ret err), k')"
      "procs k' = (if isl ?v then procs k else p_set pid ((the (tcb k pid))\<lparr>signals := sig_insert (signals (the (tcb k pid))) (sig_bit (nat signum))\<rparr>) (procs k))"
    using sys_kill_spec [OF e True, of pid signum] by (fastforce split: sum.splits IpcError.splits)
  have cur: "k_current k' = Some c" using entryD(1) [OF e] arg_cong [OF k'(2), of p_current] by (auto split: if_splits)
  have "prun c (procs k) (procs k')"
  proof (cases "isl ?v")
    case False
    then obtain t where t: "tcb k pid = Some t" "task_status t \<noteq> Zombie" "may_signal c tc pid t"
      and s: "0 \<le> signum" "signum \<le> 31"
      using tc by (auto simp: kill_verdict_def split: if_splits option.splits)
    then show ?thesis using False k'(2) tc by (auto intro!: prun_step pstep.signal)
  qed (simp add: k'(2))
  then show ?thesis using k'(1) cur by simp
qed

text \<open>A process changes its own signal state.\<close>

lemma sigprocmask_run:
  assumes e: "entry c k"
  shows "kernel_run c k (sys_sigprocmask m k)"
proof -
  obtain t where t: "tcb k c = Some t" using entryD(4) [OF e] by blast
  have "self_upd t (t\<lparr>signal_mask := m\<rparr>)"
    by (rule upd_signals [where a = "signals t" and b = m and c = "handling_sig t" and d = "signal_actions t"
        and e = "killed t" and f = "frozen t" and g = "trap_ctx_backup t"])
      (simp_all add: sig_inv_def)
  from prun_self [OF t this] show ?thesis by (simp add: sys_sigprocmask_def entryD(1) [OF e] t)
qed

lemma sigreturn_run:
  assumes e: "entry c k"
  shows "kernel_run c k (sys_sigreturn k)"
proof -
  obtain t where t: "tcb k c = Some t" using entryD(4) [OF e] by blast
  have "self_upd t (t\<lparr>handling_sig := - 1\<rparr>)"
    by (rule upd_signals [where a = "signals t" and b = "signal_mask t" and c = "- 1" and d = "signal_actions t"
        and e = "killed t" and f = "frozen t" and g = "trap_ctx_backup t"])
      (simp_all add: sig_inv_def)
  from prun_self [OF t this] show ?thesis
    by (cases "trap_ctx_backup t") (simp_all add: sys_sigreturn_def entryD(1) [OF e] t Let_def)
qed

lemma sigaction_run:
  assumes e: "entry c k"
  shows "kernel_run c k (sys_sigaction pf signum action old k)"
proof -
  obtain t where t: "tcb k c = Some t" "current_task k = Some (c, t)" using entryD(4) [OF e] by blast
  have "self_upd t (t\<lparr>signal_actions := (signal_actions t)[n := a]\<rparr>)" for n a
    by (rule upd_signals [where a = "signals t" and b = "signal_mask t" and c = "handling_sig t" and d = "(signal_actions t)[n := a]"
        and e = "killed t" and f = "frozen t" and g = "trap_ctx_backup t"])
      (simp_all add: sig_inv_def)
  note self = prun_self [OF t(1) this]
  show ?thesis unfolding sys_sigaction_def t(2) bind.simps prod.case Let_def
    by (intro kernel_run_intros) (simp_all add: entryD(1) [OF e] self)
qed

section \<open>Credentials, clock and audit log\<close>

lemma setuid_run:
  assumes e: "entry c k"
  shows "kernel_run c k (sys_setuid uid k)"
proof -
  obtain t where t: "tcb k c = Some t" "current_task k = Some (c, t)" using entryD(4) [OF e] by blast
  let ?new = "if (ucast uid :: Uid) \<noteq> 0 then (creds t)\<lparr>cred_uid := ucast uid\<rparr>\<lparr>cred_capabilities := cap_empty\<rparr>
              else (creds t)\<lparr>cred_uid := ucast uid\<rparr>"
  have "self_upd t (t\<lparr>security := (security t)\<lparr>sec_credentials := ?new\<rparr>\<rparr>)" if "is_root (creds t)"
    using that by (intro upd_uid) (auto simp: is_root_def ROOT_UID_def)
  note self = kernel_run_self [OF entryD(1) [OF e] t(1) this]
  show ?thesis unfolding sys_setuid_def t(2) bind.simps prod.case Let_def
    by (intro kernel_run_if, simp_all only: kernel_run_Value prun_refl entryD(1) [OF e])
      (rule self [unfolded kernel_run_Value], simp_all)
qed

lemma control_call_procs: "finish_control_call pf op subj n out k = Some (v, k') \<Longrightarrow> procs k' = procs k"
  by (auto simp: finish_control_call_def bind_eq_Some_conv dest!: get_time_ms_SomeD split: sum.splits)

lemma audit_read_run: "entry c k \<Longrightarrow> kernel_run c k (sys_audit_read pf records capacity after k)"
  unfolding sys_audit_read_def Let_def
  by (intro kernel_run_intros kernel_run_value) (auto dest: control_call_procs simp: entryD(1))

lemma ipc_stat_run: "entry c k \<Longrightarrow> kernel_run c k (sys_ipc_stat pf stats sz flags k)"
  unfolding sys_ipc_stat_def Let_def
  by (intro kernel_run_intros kernel_run_value) (auto dest: control_call_procs simp: entryD(1))

lemma query_runs:
  assumes "entry c k"
  shows "kernel_run c k (sys_getpid k)" "kernel_run c k (sys_getuid k)" "kernel_run c k (sys_get_time pf k)"
    "kernel_run c k (sys_yield k)" "kernel_run c k (sys_exit code k)"
proof -
  show "kernel_run c k (sys_yield k)" unfolding sys_yield_def by (rule kernel_run_suspend [OF entryD(1) [OF assms]])
  show "kernel_run c k (sys_exit code k)" unfolding sys_exit_def by (rule exit_run [OF assms])
  show "kernel_run c k (sys_get_time pf k)" unfolding sys_get_time_def Let_def
    by (intro kernel_run_bind2 kernel_run_value) (simp_all add: entryD(1) [OF assms])
qed (use entryD(4) [OF assms] entryD(1) [OF assms] in \<open>auto simp: sys_getpid_def sys_getuid_def\<close>)

lemmas syscall_runs =
  sys_dup_run sys_open_run sys_close_run sys_pipe_run sys_read_run sys_write_run query_runs kill_run sigaction_run
  sigprocmask_run sigreturn_run fork_run exec_run waitpid_run setuid_run audit_read_run ipc_stat_run

lemma syscall_run:
  assumes "entry c k" "pids_left k"
  shows "kernel_run c k (syscall pf n a0 a1 a2 k)"
  unfolding syscall_def by (intro kernel_run_if syscall_runs [OF assms(1)] assms(2)) simp

end
