(* ===== verification/Kernel_Traps.thy ===== *)
theory Kernel_Traps
  imports Kernel_Refinement
begin

text \<open>
  The trap path as a whole: delivery of signals, the trap handler, the resumption of a suspended
  task and the turn of the scheduler are runs of the process machine. From this follow the
  claims about the running system: its invariant, isolation between users, the limits on
  descriptors, and that the kernel's own assertions on processes and signals hold.
\<close>

section \<open>Delivery of signals\<close>

definition sig_upd :: "TaskControlBlock \<Rightarrow> TaskControlBlock \<Rightarrow> bool" where
  "sig_upd t t' \<longleftrightarrow>
     trap_cx_ppn t' = trap_cx_ppn t \<and> base_size t' = base_size t \<and> task_cx t' = task_cx t
     \<and> task_status t' = task_status t \<and> memory_set t' = memory_set t \<and> parent t' = parent t
     \<and> children t' = children t \<and> exit_code t' = exit_code t \<and> fd_table t' = fd_table t
     \<and> security t' = security t \<and> signal_mask t' = signal_mask t \<and> signal_actions t' = signal_actions t"

lemma sig_upd_refl [simp]: "sig_upd t t"
  by (simp add: sig_upd_def)

lemma sig_upd_trans: "sig_upd t u \<Longrightarrow> sig_upd u v \<Longrightarrow> sig_upd t v"
  by (simp add: sig_upd_def)

lemma sig_upd_self:
  assumes "sig_upd t t'" "sig_inv t'"
  shows "self_upd t t'"
proof (rule upd_signals)
  show "t' = t\<lparr>signals := signals t', signal_mask := signal_mask t, handling_sig := handling_sig t',
      signal_actions := signal_actions t, killed := killed t', frozen := frozen t', trap_ctx_backup := trap_ctx_backup t'\<rparr>"
    using assms(1) by (intro TaskControlBlock.equality) (simp_all add: sig_upd_def)
qed (use assms(2) in simp)

lemma kernel_handler_upd:
  "sig_upd t (call_kernel_signal_handler s t)" "sig_inv (call_kernel_signal_handler s t) = sig_inv t"
  by (simp_all add: call_kernel_signal_handler_def sig_upd_def sig_inv_def)

text \<open>On a task whose signal state is well formed, delivery does not panic and keeps it so.\<close>

lemma check_pending_total:
  assumes "sig_inv t" "cx_ok cx" "\<forall>s \<in> set sigs. s < 32"
  shows "\<exists>t' cx'. check_pending_from sigs (t, cx) = Some (t', cx') \<and> sig_upd t t' \<and> sig_inv t' \<and> cx_ok cx'"
  using assms
proof (induction sigs arbitrary: t)
  case (Cons s sigs)
  let ?b = "sig_bit s"
  have IH: "\<exists>t' cx'. check_pending_from sigs (u, cx) = Some (t', cx') \<and> sig_upd t t' \<and> sig_inv t' \<and> cx_ok cx'"
    if "sig_inv u" "sig_upd t u" for u
    using Cons.IH [OF that(1) Cons.prems(2)] Cons.prems(3) sig_upd_trans [OF that(2)] by auto
  have "nat (handling_sig t) < 32" if "handling_sig t \<noteq> - 1" using Cons.prems(1) that by (auto simp: sig_inv_def)
  then obtain masked where m: "handler_masks t ?b = Some masked"
    using Cons.prems(1) by (cases "handling_sig t = - 1") (auto simp: handler_masks_def sig_inv_def)
  have "\<exists>t' cx'. call_user_signal_handler s ?b (t, cx) = Some (t', cx') \<and> sig_upd t t' \<and> sig_inv t' \<and> cx_ok cx'"
  proof (cases "sa_handler (signal_actions t ! s) = 0")
    case True
    then show ?thesis using Cons.prems by (simp add: call_user_signal_handler_def sig_inv_def)
  next
    case False
    let ?t = "t\<lparr>handling_sig := int s, signals := signals t XOR ?b, trap_ctx_backup := Some cx\<rparr>"
    have "sig_upd t ?t" by (simp add: sig_upd_def)
    moreover have "sig_inv ?t" using Cons.prems by (simp add: sig_inv_def)
    ultimately show ?thesis using False Cons.prems
      by (simp add: call_user_signal_handler_def Let_def sig_inv_def cx_ok_def)
  qed
  then show ?case
    using IH [of t] IH [of "call_kernel_signal_handler ?b t"] kernel_handler_upd [where t = t and s = ?b] Cons.prems(1) m by (simp split: if_split)
qed simp

lemma check_pending_run:
  assumes e: "entry c k"
  shows "\<exists>k'. check_pending_signals k = Some k' \<and> prun c (procs k) (procs k') \<and> k_current k' = Some c"
proof -
  obtain t where t: "tcb k c = Some t" "current_task k = Some (c, t)" using entryD(4) [OF e] by blast
  obtain t' cx' where r: "check_pending_from [0..<unat MAX_SIG + 1] (t, get_trap_cx t k) = Some (t', cx')" "sig_upd t t'" "sig_inv t'"
    using check_pending_total [of t "get_trap_cx t k" "[0..<unat MAX_SIG + 1]"] entry_task_inv(2) [OF e t(1)]
    by (auto simp: get_trap_cx_def MAX_SIG_def)
  have "self_upd t t'" using r by (intro sig_upd_self)
  then show ?thesis using r(1) t prun_self [OF t(1)] entryD(1) [OF e] by (simp add: check_pending_signals_def)
qed

lemma entry_after: "entry c k \<Longrightarrow> prun c (procs k) (procs k') \<Longrightarrow> k_current k' = Some c \<Longrightarrow> entry c k'"
  using procs_inv_run by (auto simp: entry_def)

lemma handle_signals_run:
  assumes e: "entry c k"
  shows "kernel_run c k (handle_signals k)" "handle_signals k \<noteq> None"
proof -
  obtain k1 where k1: "check_pending_signals k = Some k1" "prun c (procs k) (procs k1)" "k_current k1 = Some c"
    using check_pending_run [OF e] by blast
  have e1: "entry c k1" by (rule entry_after [OF e k1(2,3)])
  obtain t where t: "tcb k1 c = Some t" "current_task k1 = Some (c, t)" using entryD(4) [OF e1] by blast
  have "kernel_run c k1 (if \<not> frozen t \<or> killed t then Some (Value (), k1)
      else suspend_current_and_run_next Cx_frozen k1 \<bind> (\<lambda>k. Some (Switched, k)))"
    by (intro kernel_run_if kernel_run_suspend) (simp_all add: k1)
  from kernel_run_before [OF k1(2) this] show "kernel_run c k (handle_signals k)"
    unfolding handle_signals_def k1(1) bind.simps t(2) prod.case .
  show "handle_signals k \<noteq> None"
    using k1(3) t by (simp add: handle_signals_def k1(1) suspend_current_and_run_next_def take_current_task_def tcb_def)
qed

lemma trap_exit_run:
  assumes e: "entry c k"
  shows "kernel_run c k (trap_exit k)"
  unfolding trap_exit_def
proof (rule kernel_run_seq [OF handle_signals_run(1) [OF e] e])
  fix v :: unit and k'
  assume e': "entry c k'"
  show "kernel_run c k' (case Value v of Value _ \<Rightarrow> check_signals_error_of_current k' \<bind>
      (\<lambda>e. case e of None \<Rightarrow> Some (Value (), k') | Some errno \<Rightarrow> exit_current_and_run_next errno k') | _ \<Rightarrow> Some (Value v, k'))"
    unfolding flow.case by (intro kernel_run_bind kernel_run_option exit_run e') (simp add: entryD(1) [OF e'])
qed simp_all

lemma after_syscall_run:
  assumes e: "entry c k"
  shows "kernel_run c k (after_syscall (Value v) k)"
proof -
  obtain t where t: "tcb k c = Some t" "current_task k = Some (c, t)" using entryD(4) [OF e] by blast
  have same: "procs (put_trap_cx t cx k) = procs k" for cx by simp
  have "entry c (put_trap_cx t cx k)" for cx using e by (simp add: entry_def)
  from trap_exit_run [OF this] show ?thesis
    unfolding after_syscall_def flow.case t(2) bind.simps prod.case Let_def kernel_run_same [OF same] .
qed

lemma after_syscall_other [simp]:
  "after_syscall Switched k = Some (Switched, k)" "after_syscall (Halted h) k = Some (Halted h, k)"
  by (simp_all add: after_syscall_def)

lemma then_after_syscall:
  assumes "kernel_run c k r" "entry c k"
  shows "kernel_run c k (r \<bind> (\<lambda>(fl, k). after_syscall fl k))"
  by (rule kernel_run_seq [OF assms]) (simp_all add: after_syscall_run)

section \<open>Traps\<close>

lemma add_signal_run:
  assumes e: "entry c k"
  shows "kernel_run c k (current_add_signal s k \<bind> trap_exit)"
proof -
  obtain t where t: "tcb k c = Some t" "current_task k = Some (c, t)" using entryD(4) [OF e] by blast
  let ?k = "set_tcb c (t\<lparr>signals := signals t OR s\<rparr>) k"
  have "self_upd t (t\<lparr>signals := signals t OR s\<rparr>)"
    by (rule sig_upd_self) (use entry_task_inv(2) [OF e t(1)] in \<open>simp_all add: sig_inv_def sig_upd_def\<close>)
  then have r: "prun c (procs k) (procs ?k)" using prun_self [OF t(1)] by simp
  have "entry c ?k" by (rule entry_after [OF e r]) (simp add: entryD(1) [OF e])
  from kernel_run_before [OF r trap_exit_run [OF this]] show ?thesis by (simp add: current_add_signal_def t(2))
qed

lemma trap_handler_run:
  assumes e: "entry c k" and l: "pids_left k"
  shows "kernel_run c k (trap_handler pf trap k)"
proof -
  obtain t where t: "tcb k c = Some t" "current_task k = Some (c, t)" using entryD(4) [OF e] by blast
  have put: "entry c (put_trap_cx t cx k)" "pids_left (put_trap_cx t cx k)" for cx
    using e l by (simp_all add: entry_def pids_left_def put_trap_cx_def set_mem_def)
  have same: "procs (put_trap_cx t cx k) = procs k" for cx by simp
  have call: "kernel_run c k (trap_handler pf UserEnvCall k)"
    unfolding trap_handler_def Trap.case t(2) bind.simps prod.case Let_def
    using then_after_syscall [OF syscall_run [OF put] put(1)] by (simp only: kernel_run_same [OF same])
  have timer: "kernel_run c k (trap_handler pf SupervisorTimer k)"
  proof -
    have n: "procs (set_next_trigger pf k) = procs k" "k_current (set_next_trigger pf k) = Some c"
      using entryD(1) [OF e] by (simp_all add: set_next_trigger_def get_time_def)
    from kernel_run_suspend [OF n(2), of Cx_timer] show ?thesis
      unfolding trap_handler_def Trap.case kernel_run_same [OF n(1)] .
  qed
  show ?thesis
  proof (cases trap)
    case UserEnvCall
    then show ?thesis using call by simp
  next
    case SupervisorTimer
    then show ?thesis using timer by simp
  qed (simp_all only: trap_handler_def Trap.case kernel_run_None add_signal_run [OF e])
qed

lemma resume_run:
  assumes e: "entry c k"
  shows "kernel_run c k (resume pf k)"
proof -
  obtain t where t: "tcb k c = Some t" "current_task k = Some (c, t)" using entryD(4) [OF e] by blast
  have io: "kernel_run c k (r \<bind> (\<lambda>(fl, k). finish_io pf permit fl k \<bind> (\<lambda>(fl, k). after_syscall fl k)))"
    if "kernel_run c k r" for r permit
  proof (rule kernel_run_seq [OF that e])
    show "kernel_run c k' (finish_io pf permit (Value v) k' \<bind> (\<lambda>(fl, k). after_syscall fl k))"
      if e': "entry c k'" for v k'
      by (rule then_after_syscall [OF finish_io_run [OF entryD(1) [OF e']] e'])
  qed simp_all
  show ?thesis
    using io [OF stdin_poll_run [OF entryD(1) [OF e]]] io [OF pipe_read_run [OF entryD(1) [OF e]]]
      io [OF pipe_write_run [OF entryD(1) [OF e]]] trap_exit_run [OF e] after_syscall_run [OF e] entryD(1) [OF e]
    by (cases "task_cx t") (simp_all add: resume_def t(2))
qed

end
