(* ===== verification/Kernel_System.thy ===== *)
theory Kernel_System
  imports Kernel_Traps
begin

text \<open>
  The running system: user programs, traps and the scheduler as one step relation, labelled with
  the process that acts. The claims about the system as a whole stand at the end.
\<close>

section \<open>The scheduler\<close>

lemma run_tasks_run:
  assumes inv: "procs_inv (procs k)" and cur: "k_current k = None" and r: "k_ready k = c # rest"
  shows "kernel_run c k (run_tasks pf k)"
proof -
  obtain t where t: "tcb k c = Some t"
    using sched_invD(5) [of "procs k" c] inv r by (auto simp: procs_inv_def)
  let ?k1 = "(set_tcb c (t\<lparr>task_status := Running\<rparr>) (k\<lparr>k_ready := rest\<rparr>))\<lparr>k_current := Some c\<rparr>"
  have turn: "run_tasks_turn k = Some ?k1"
    using t by (simp add: run_tasks_turn_def fetch_task_def r tcb_def)
  have p: "procs ?k1 = (p_set c (t\<lparr>task_status := Running\<rparr>) (procs k))\<lparr>p_ready := rest, p_current := Some c\<rparr>"
    by (simp add: procs_def set_tcb_def p_set_def)
  have "pstep c (procs k) (procs ?k1)" unfolding p using t cur r by (intro pstep.run) simp_all
  then have run: "prun c (procs k) (procs ?k1)" by (rule prun_step)
  have "entry c ?k1" using procs_inv_run [OF run inv] by (simp add: entry_def)
  from kernel_run_before [OF run resume_run [OF this]] show ?thesis
    by (simp add: run_tasks_def turn)
qed

lemma run_tasks_idle: "k_current k = None \<Longrightarrow> k_ready k = [] \<Longrightarrow> run_tasks pf k = Some (Switched, k)"
  by (simp add: run_tasks_def run_tasks_turn_def fetch_task_def)

section \<open>Steps of the system\<close>

text \<open>
  A step of the current program, a trap it takes, or the scheduler's choice of the next process
  and what that process does in the kernel until it is suspended or back in user mode. A
  program can change memory only; which memory is a matter of the page tables, so here it is
  arbitrary. A halted machine makes no step, and the PIDs are supposed to last.
\<close>

fun halted :: "'a flow \<Rightarrow> bool" where
  "halted (Halted f) = True"
| "halted _ = False"

inductive sys_step ::
    "('fs, 'inode) platform \<Rightarrow> usize \<Rightarrow> ('fs, 'inode) kernel \<Rightarrow> ('fs, 'inode) kernel \<Rightarrow> bool" for pf c where
  user: "k_current k = Some c \<Longrightarrow> sys_step pf c k (set_mem m k)"
| trap: "k_current k = Some c \<Longrightarrow> pids_left k \<Longrightarrow> trap_handler pf cause k = Some (fl, k') \<Longrightarrow> \<not> halted fl
    \<Longrightarrow> sys_step pf c k k'"
| turn: "k_current k = None \<Longrightarrow> k_ready k = c # rest \<Longrightarrow> run_tasks pf k = Some (fl, k') \<Longrightarrow> \<not> halted fl
    \<Longrightarrow> sys_step pf c k k'"

lemma kernel_run_prun: "kernel_run c k (Some (fl, k')) \<Longrightarrow> \<not> halted fl \<Longrightarrow> prun c (procs k) (procs k')"
  by (cases fl) simp_all

lemma sys_step_refines:
  assumes "sys_step pf c k k'" "procs_inv (procs k)"
  shows "prun c (procs k) (procs k')"
  using assms(1)
proof cases
  case (trap cause fl)
  then have "entry c k" using assms(2) by (simp add: entry_def)
  from trap_handler_run [OF this trap(2), of pf cause] show ?thesis using trap kernel_run_prun by simp
next
  case (turn rest fl)
  then show ?thesis using run_tasks_run [OF assms(2) turn(1,2), of pf] kernel_run_prun by simp
qed simp

text \<open>A run of the system in which every actor satisfies \<open>A\<close> in the state where it acts.\<close>

inductive sys_run ::
    "('fs, 'inode) platform \<Rightarrow> (TaskControlBlock \<Rightarrow> bool) \<Rightarrow> ('fs, 'inode) kernel \<Rightarrow> ('fs, 'inode) kernel \<Rightarrow> bool" for pf A k where
  none: "sys_run pf A k k"
| more: "sys_run pf A k k1 \<Longrightarrow> sys_step pf c k1 k2 \<Longrightarrow> tcb k1 c = Some t \<Longrightarrow> A t \<Longrightarrow> sys_run pf A k k2"

lemma sys_run_mono: "sys_run pf A k k' \<Longrightarrow> (\<And>t. A t \<Longrightarrow> B t) \<Longrightarrow> sys_run pf B k k'"
  by (induction rule: sys_run.induct) (auto intro: sys_run.intros)

lemma sys_run_inv: "sys_run pf A k k' \<Longrightarrow> procs_inv (procs k) \<Longrightarrow> procs_inv (procs k')"
  by (induction rule: sys_run.induct) (auto dest: sys_step_refines intro: procs_inv_run)

lemma sys_run_isolation:
  assumes "sys_run pf (\<lambda>t. cred_uid (creds t) = u \<and> \<not> contains (cred_capabilities (creds t)) KILL) k k'"
    and inv: "procs_inv (procs k)" and u: "u \<noteq> 0"
    and t: "tcb k q = Some t" "cred_uid (creds t) \<noteq> u" "task_status t \<noteq> Zombie"
  shows "\<exists>t'. tcb k' q = Some t' \<and> untouched t t'"
  using assms(1)
proof induction
  case none
  show ?case using t(1) by simp
next
  case (more k1 c k2 tc)
  obtain t1 where t1: "tcb k1 q = Some t1" "untouched t t1" using more.IH by blast
  have inv1: "procs_inv (procs k1)" by (rule sys_run_inv [OF more.hyps(1) inv])
  have "\<exists>t'. p_tcb (procs k2) q = Some t' \<and> untouched t1 t'"
    using prun_isolation(2) [OF sys_step_refines [OF more.hyps(2) inv1] inv1, of tc q t1]
      more.hyps t1 untouchedD [OF t1(2)] t u by (auto simp: is_root_def ROOT_UID_def)
  then show ?case using untouched_trans [OF t1(2)] by auto
qed

lemma sys_run_credentials:
  assumes "sys_run pf (\<lambda>t. \<not> is_root (creds t)) k k'" and inv: "procs_inv (procs k)" and t': "tcb k' q = Some t'"
  shows "\<exists>p t. tcb k p = Some t \<and> creds t' = creds t"
  using assms(1) t'
proof (induction arbitrary: q t')
  case (more k1 c k2 tc)
  have inv1: "procs_inv (procs k1)" by (rule sys_run_inv [OF more.hyps(1) inv])
  have "creds t' = creds tc \<or> (\<exists>t. p_tcb (procs k1) q = Some t \<and> creds t' = creds t)"
    using prun_isolation(1) [OF sys_step_refines [OF more.hyps(2) inv1] inv1, of tc q t'] more.hyps more.prems by simp
  then show ?case using more.IH more.hyps(3) by fastforce
qed blast

section \<open>Boot\<close>

text \<open>The state before the first process: nothing has been created.\<close>

definition boot_state :: "('fs, 'inode) kernel \<Rightarrow> bool" where
  "boot_state k \<longleftrightarrow> k_tasks k = [] \<and> k_pid2task k = [] \<and> k_ready k = [] \<and> k_current k = None \<and> k_pids k = pid_allocator_new"

lemma pid_alloc_first: "pid_alloc pid_allocator_new = (1, \<lparr>pid_current = 2, pid_recycled = []\<rparr>)"
  by (simp add: pid_alloc_def pid_allocator_new_def vec_pop_def)

definition fresh_task :: "TaskControlBlock \<Rightarrow> bool" where
  "fresh_task t \<longleftrightarrow>
     task_status t = Ready \<and> children t = [] \<and> fd_table t = [Some F_Stdin, Some F_Stdout, Some F_Stdout]
     \<and> security t = security_initial \<and> signal_actions t = signal_actions_default \<and> handling_sig t = - 1
     \<and> trap_ctx_backup t = None"

lemma task_new_effect:
  assumes "task_new pf elf k = Some (pid, k')" "boot_state k"
  shows "pid = 1" "\<exists>t. fresh_task t \<and> procs k' = \<lparr>p_tasks = [(1, t)], p_pid2task = [], p_ready = [], p_current = None,
      p_initproc = k_initproc k, p_pids = \<lparr>pid_current = 2, pid_recycled = []\<rparr>\<rparr>"
proof -
  note R = assms(1) [unfolded task_new_def alloc_pid_def Let_def]
  from R obtain x where fe: "from_elf (pf_elf pf) (pf_strampoline pf) elf (k_phys k) = Some x" by (rule bind_SomeE)
  obtain ms sp ep ph where x: "x = (ms, sp, ep, ph)" by (cases x)
  note R = R [unfolded fe x bind.simps prod.case]
  from R obtain ppn where "trap_context_ppn (k_mem (k\<lparr>k_phys := ph\<rparr>)) ms = Some ppn" by (rule bind_SomeE)
  note R = R [unfolded this bind.simps]
  have "k_pids (k\<lparr>k_phys := ph\<rparr>) = pid_allocator_new" using assms(2) by (simp add: boot_state_def)
  note R = R [unfolded this pid_alloc_first prod.case]
  from R obtain k1 where k1: "kernel_stack_new 1 (k\<lparr>k_phys := ph, k_pids := \<lparr>pid_current = 2, pid_recycled = []\<rparr>\<rparr>) = Some k1"
    by (rule bind_SomeE)
  note R = R [unfolded k1 bind.simps]
  show "pid = 1" using R by simp
  define t where "t = \<lparr>trap_cx_ppn = ppn, base_size = sp, task_cx = goto_trap_return (kernel_stack_top 1),
      task_status = Ready, memory_set = ms, parent = None, children = [], exit_code = 0,
      fd_table = [Some F_Stdin, Some F_Stdout, Some F_Stdout], security = security_initial,
      signals = 0, signal_mask = 0, handling_sig = - 1, signal_actions = signal_actions_default,
      killed = False, frozen = False, trap_ctx_backup = None\<rparr>"
  have t: "fresh_task t" by (simp add: t_def fresh_task_def)
  have "procs k' = p_set 1 t (procs k1)" using R by (auto simp: t_def)
  show "\<exists>t. fresh_task t \<and> procs k' = \<lparr>p_tasks = [(1, t)], p_pid2task = [], p_ready = [], p_current = None,
      p_initproc = k_initproc k, p_pids = \<lparr>pid_current = 2, pid_recycled = []\<rparr>\<rparr>"
    using t \<open>procs k' = p_set 1 t (procs k1)\<close> assms(2) kernel_stack_frame(2) [OF k1]
    by (intro exI [of _ t]) (auto simp: boot_state_def procs_def p_set_def)
qed

lemma open_fds_three:
  assumes "fd_table t = [Some F_Stdin, Some F_Stdout, Some F_Stdout]"
  shows "open_fds t = {0, 1, 2}" "pipe_fds t = {}"
  by (auto simp: open_fds_def pipe_fds_def assms less_Suc_eq nth_Cons' split: if_splits)

lemma fresh_task_inv:
  assumes "fresh_task t"
  shows "task_inv t"
proof -
  have "fd_inv t" using assms open_fds_three [of t] quota_repr_initial
    by (simp add: fresh_task_def fd_inv_def acct_def security_initial_def)
  moreover have "sig_inv t" using assms by (simp add: fresh_task_def sig_inv_def signal_actions_default_def MAX_SIG_def)
  ultimately show ?thesis by (simp add: task_inv_def)
qed

lemma boot_establishes:
  assumes b: "boot_state k" and a: "add_initproc pf k = Some k'"
  shows "procs_inv (procs k')" "k_initproc k' = IDLE_PID" "k_current k' = None" "k_ready k' = [IDLE_PID]"
proof -
  from a obtain f k1 v k2 pid k3 where of: "open_file pf initproc_name RDONLY k = Some (Some f, k1)" "read_all pf f k1 = Some (v, k2)"
    and nw: "task_new pf v k2 = Some (pid, k3)" and k': "k' = add_task pid (k3\<lparr>k_initproc := pid\<rparr>)"
    by (auto simp: add_initproc_def bind_eq_Some_conv)
  have same: "procs k2 = procs k" using open_file_procs [OF of(1)] read_all_procs [OF of(2)] by simp
  then have b2: "boot_state k2" using b by (simp add: boot_state_def procs_def)
  obtain t where t: "fresh_task t" and p3: "procs k3 = \<lparr>p_tasks = [(1, t)], p_pid2task = [], p_ready = [], p_current = None,
      p_initproc = k_initproc k2, p_pids = \<lparr>pid_current = 2, pid_recycled = []\<rparr>\<rparr>"
    using task_new_effect(2) [OF nw b2] by blast
  have p: "procs k' = \<lparr>p_tasks = [(1, t)], p_pid2task = [(1, 1)], p_ready = [1], p_current = None,
      p_initproc = 1, p_pids = \<lparr>pid_current = 2, pid_recycled = []\<rparr>\<rparr>"
    using p3 task_new_effect(1) [OF nw b2] by (auto simp: k' procs_def add_task_def)
  then show "k_initproc k' = IDLE_PID" "k_current k' = None" "k_ready k' = [IDLE_PID]"
    by (auto simp: procs_def IDLE_PID_def)
  have two: "{1..<2::usize} = {1}" using u64_atLeastLessThan_plus_1 [of 1] by simp
  have tcb: "p_tcb (procs k') q = (if q = 1 then Some t else None)" for q by (simp add: p p_tcb_def)
  have "sched_inv (procs k')"
    unfolding sched_inv_def using t
    by (auto simp: p_tcb_def p kid_count_def fresh_task_def pid_live_def two dom_def split: if_splits)
  moreover have "tasks_inv (procs k')" using fresh_task_inv [OF t] by (auto simp: tasks_inv_def tcb [unfolded p_tcb_procs] split: if_splits)
  ultimately show "procs_inv (procs k')" by (simp add: procs_inv_def)
qed

section \<open>Waiting for a child\<close>

lemma count_list_remove_nth:
  "i < length xs \<Longrightarrow> count_list xs y = count_list (take i xs @ drop (Suc i) xs) y + (if xs ! i = y then 1 else 0)"
  by (subst id_take_nth_drop, assumption) auto

lemma strong_count_eq:
  "strong_count k pid = kid_count (procs k) pid + (if pid2task k pid = None then 0 else 1) + count_list (k_ready k) pid
     + (if k_current k = Some pid then 1 else 0) + (if k_initproc k = pid then 1 else 0)"
  by (simp add: strong_count_def kid_count_def)

text \<open>A zombie that its parent takes off its list of children has no other owner.\<close>

lemma zombie_sole_owner:
  assumes e: "entry c k" and t: "tcb k c = Some t" and i: "i < length (children t)"
    and z: "tcb k (children t ! i) = Some z" "task_status z = Zombie"
  shows "strong_count (set_tcb c (t\<lparr>children := take i (children t) @ drop (Suc i) (children t)\<rparr>) (set_mem m k)) (children t ! i) = 0"
    (is "strong_count ?k ?f = 0")
proof -
  note D = sched_invD [OF entryD(2) [OF e]]
  let ?t = "t\<lparr>children := take i (children t) @ drop (Suc i) (children t)\<rparr>"
  have kc: "kid_count (procs ?k) ?f + count_list (children t) ?f = kid_count (procs k) ?f + count_list (children ?t) ?f"
    using kid_count_set [OF D(1), of c ?t ?f] t by simp
  have "?f \<noteq> k_initproc k" using D(3) z by auto
  then have "kid_count (procs k) ?f = 1" using D(9) [of ?f] z by simp
  then have kids: "kid_count (procs ?k) ?f = 0" using kc count_list_remove_nth [OF i, of ?f] by simp
  have "map_of (k_pid2task k) ?f = None" using D(7) [of ?f] z by simp
  moreover have "?f \<notin> set (k_ready k)" using D(5) [of ?f] z by auto
  then have "count_list (k_ready k) ?f = 0" by (simp add: count_list_0_iff)
  moreover have "k_current k \<noteq> Some ?f" using D(6) [of ?f] z by auto
  moreover have "pid2task ?k ?f = map_of (k_pid2task k) ?f" "k_ready ?k = k_ready k" "k_current ?k = k_current k" "k_initproc ?k = k_initproc k"
    by (simp_all add: pid2task_def set_tcb_def set_mem_def)
  ultimately show ?thesis using kids \<open>?f \<noteq> k_initproc k\<close> by (simp add: strong_count_eq)
qed

section \<open>A handler and its return\<close>

lemma check_pending_backup:
  assumes "check_pending_from sigs (t, cx) = Some (t', cx')"
  shows "handling_sig t' = handling_sig t \<and> cx' = cx
    \<or> trap_ctx_backup t' = Some cx
      \<and> (\<exists>s \<in> set sigs. handling_sig t' = int s
            \<and> cx' = cx\<lparr>tc_sepc := sa_handler (signal_actions t ! s), tc_x := (tc_x cx)[10 := of_nat s]\<rparr>)"
  using assms
proof (induction sigs arbitrary: t)
  case (Cons s sigs)
  let ?b = "sig_bit s" and ?u = "call_kernel_signal_handler (sig_bit s) t"
  have u: "handling_sig ?u = handling_sig t" "signal_actions ?u = signal_actions t"
    by (simp_all add: call_kernel_signal_handler_def)
  consider "check_pending_from sigs (t, cx) = Some (t', cx')" | "check_pending_from sigs (?u, cx) = Some (t', cx')"
    | "call_user_signal_handler s ?b (t, cx) = Some (t', cx')"
    using Cons.prems by (auto simp: bind_eq_Some_conv split: if_splits)
  then show ?case
  proof cases
    case 1
    then show ?thesis using Cons.IH [of t] by auto
  next
    case 2
    then show ?thesis using Cons.IH [of ?u] u by auto
  next
    case 3
    then show ?thesis by (auto simp: call_user_signal_handler_def Let_def split: if_splits)
  qed
qed simp

lemma sigreturn_restores:
  assumes cur: "k_current k = Some c" and t: "tcb k c = Some t" "trap_ctx_backup t = Some cx" and ok: "cx_ok cx"
  shows "\<exists>v k'. sys_sigreturn k = Some (Value v, k') \<and> tcb k' c = Some (t\<lparr>handling_sig := - 1\<rparr>)
    \<and> (let cx' = get_trap_cx t k' in cx'\<lparr>tc_x := (tc_x cx')[10 := word_of_int v]\<rparr>) = cx"
proof -
  have "get_trap_cx t (put_trap_cx (t\<lparr>handling_sig := - 1\<rparr>) cx k1) = cx" for k1 :: "('a, 'b) kernel"
    using trap_cx_at_set [OF ok] by (simp add: get_trap_cx_def put_trap_cx_def set_mem_def)
  then show ?thesis using cur t by (simp add: sys_sigreturn_def Let_def as_isize_def)
qed

end
