(* ===== verification/Sample_Kernel.thy ===== *)
theory Sample_Kernel
  imports Kernel_System
begin

text \<open>
  A small concrete system: the first process, owned by root, and its child, a process of user
  1000 with 31 open descriptors and no capability, which is the current one. The claims about
  the whole kernel are applied to it.
\<close>

definition sample_task :: "usize option \<Rightarrow> usize list \<Rightarrow> TaskStatus \<Rightarrow> nat \<Rightarrow> Credentials \<Rightarrow> TaskControlBlock" where
  "sample_task par kids st n cr =
     \<lparr>trap_cx_ppn = 0x80500, base_size = 0x5000, task_cx = Cx_trap_return 0, task_status = st,
      memory_set = \<lparr>page_table = \<lparr>root_ppn = 0x80501, pt_frames = []\<rparr>, areas = []\<rparr>,
      parent = par, children = kids, exit_code = 0, fd_table = replicate n (Some F_Stdout),
      security = \<lparr>sec_credentials = cr, sec_quota = \<lparr>open_files = of_nat n, open_pipes = 0, pipe_fd_mask = 0\<rparr>\<rparr>,
      signals = 0, signal_mask = 0, handling_sig = - 1, signal_actions = signal_actions_default,
      killed = False, frozen = False, trap_ctx_backup = None\<rparr>"

definition sample_init :: TaskControlBlock where
  "sample_init = sample_task None [2] Ready 3 cred_root"

definition sample_user :: TaskControlBlock where
  "sample_user = sample_task (Some 1) [] Running 31 \<lparr>cred_uid = 1000, cred_capabilities = cap_empty\<rparr>"

definition sample_kernel :: "(unit, unit) kernel" where
  "sample_kernel =
     \<lparr>k_phys = \<lparr>ph_mem = (\<lambda>_ _. 0), ph_frames = fa_new\<rparr>,
      k_space = \<lparr>page_table = \<lparr>root_ppn = 0x80400, pt_frames = []\<rparr>, areas = []\<rparr>,
      k_pids = \<lparr>pid_current = 3, pid_recycled = []\<rparr>, k_tasks = [(1, sample_init), (2, sample_user)],
      k_pid2task = [(1, 1), (2, 2)], k_ready = [1], k_current = Some 2, k_initproc = 1,
      k_pipes = pipe_store_init, k_inodes = [], k_audit = ring_new, k_fs = (),
      k_ticks = 0, k_chars = 0, k_output = [], k_timer = 0\<rparr>"

definition sample_platform :: "(unit, unit) platform" where
  "sample_platform =
     \<lparr>pf_time = (\<lambda>n. of_nat n), pf_clock_freq = 10000000, pf_getchar = (\<lambda>_. 0), pf_user_sstatus = 0,
      pf_strampoline = 0x80200000, pf_trap_handler = 0x80201000, pf_elf = (\<lambda>_. None), pf_padding = [],
      fs_find = (\<lambda>_ fs. Some (None, fs)), fs_create = (\<lambda>_ fs. Some (None, fs)), fs_clear = (\<lambda>_ fs. Some fs),
      fs_read_at = (\<lambda>_ _ _ fs. Some ([], fs)), fs_write_at = (\<lambda>_ _ bs fs. Some (0, fs))\<rparr>"

lemma sample_task_fields [simp]:
  "task_status (sample_task par kids st n cr) = st" "children (sample_task par kids st n cr) = kids"
  "creds (sample_task par kids st n cr) = cr" "signals (sample_task par kids st n cr) = 0"
  "task_cx (sample_task par kids st n cr) = Cx_trap_return 0"
  by (simp_all add: sample_task_def)

lemma sample_task_inv: "n \<le> 32 \<Longrightarrow> task_inv (sample_task par kids st n cr)"
proof -
  assume n: "n \<le> 32"
  let ?t = "sample_task par kids st n cr"
  have fds: "open_fds ?t = {..<n}" "pipe_fds ?t = {}" by (auto simp: sample_task_def open_fds_def pipe_fds_def)
  have "unat (of_nat n :: usize) = n" using n by (simp add: unat_of_nat take_bit_nat_eq_self)
  then have "acct ?t {} 0 0" using n fds(1) by (auto simp: acct_def quota_repr_def sample_task_def)
  then show ?thesis using fds(2) by (simp add: task_inv_def fd_inv_def sig_inv_def sample_task_def signal_actions_default_def MAX_SIG_def)
qed

lemma sample_tcb: "tcb sample_kernel q = (if q = 1 then Some sample_init else if q = 2 then Some sample_user else None)"
  by (simp add: tcb_def sample_kernel_def)

lemma sample_current [simp]: "k_current sample_kernel = Some 2" "pids_left sample_kernel" "k_ready sample_kernel = [1]"
  by (simp_all add: sample_kernel_def pids_left_def pid_alloc_guarded_def)

lemma sample_clock: "clock_ok sample_platform"
  by (simp add: clock_ok_def sample_platform_def MSEC_PER_SEC_def)

lemma sample_inv: "procs_inv (procs sample_kernel)"
proof -
  have two: "{1..<3::usize} = {1, 2}"
    using u64_atLeastLessThan_plus_1 [of 1 1] u64_atLeastLessThan_plus_1 [of 2 1] by auto
  have "sched_inv (procs sample_kernel)"
    unfolding sched_inv_def
    by (auto simp: tcb_def sample_kernel_def sample_init_def sample_user_def
        kid_count_def pid_live_def two dom_def split: if_splits)
  moreover have "tasks_inv (procs sample_kernel)"
    using sample_task_inv by (auto simp: tasks_inv_def sample_tcb sample_init_def sample_user_def split: if_splits)
  ultimately show ?thesis by (simp add: procs_inv_def)
qed

lemma sample_entry: "entry 2 sample_kernel"
  by (simp add: entry_def sample_inv)

text \<open>The timer interrupts the user process, which goes to the end of the ready queue.\<close>

lemma sample_timer:
  "\<exists>k'. trap_handler sample_platform SupervisorTimer sample_kernel = Some (Switched, k') \<and> k_ready k' = [1, 2]
     \<and> tcb k' 2 = Some (sample_user\<lparr>task_status := Ready, task_cx := Cx_timer\<rparr>)"
  by (simp add: trap_handler_def set_next_trigger_def get_time_def suspend_current_and_run_next_def take_current_task_def
      sample_kernel_def tcb_def add_task_def set_tcb_def)

lemma sample_step: "\<exists>k'. sys_step sample_platform 2 sample_kernel k' \<and> k_ready k' = [1, 2]
     \<and> tcb k' 2 = Some (sample_user\<lparr>task_status := Ready, task_cx := Cx_timer\<rparr>)"
  using sample_timer sys_step.trap [of sample_kernel 2 sample_platform SupervisorTimer Switched] by auto

lemma sample_run:
  assumes "A sample_user"
  shows "\<exists>k'. sys_run sample_platform A sample_kernel k' \<and> k_ready k' = [1, 2]
     \<and> tcb k' 2 = Some (sample_user\<lparr>task_status := Ready, task_cx := Cx_timer\<rparr>)"
proof -
  obtain k' where k': "sys_step sample_platform 2 sample_kernel k'" "k_ready k' = [1, 2]"
      "tcb k' 2 = Some (sample_user\<lparr>task_status := Ready, task_cx := Cx_timer\<rparr>)"
    using sample_step by blast
  have "sys_run sample_platform A sample_kernel k'"
    by (rule sys_run.more [where A = A, OF sys_run.none k'(1) _ assms]) (simp add: sample_tcb)
  then show ?thesis using k' by blast
qed

end
