(* ===== verification/Block_Cache.thy ===== *)
theory Block_Cache
  imports Bytes "HOL-Library.Monad_Syntax" "HOL-Library.AList"
begin

text \<open>
  The block cache of easy-fs (easy-fs/src/block_cache.rs). A block device (block_dev.rs) is the
  map from block numbers to blocks of 512 bytes; the cache manager keeps up to 16 blocks in the
  order in which they were loaded and writes a modified block back when it evicts it. A block
  whose lock an enclosing operation holds is on the list \<open>bcm_held\<close>: it has another owner, so it
  is not evicted, and to lock it again would never return. \<open>None\<close> is a panic or a deadlock.
\<close>

section \<open>The device\<close>

text \<open>
  The trait \<open>BlockDevice\<close> leaves the device open. The cache relies on its contract alone: reading
  a block gives the bytes last written to it. The cache finds blocks by their number alone, so
  two devices behind one cache would be confused; the program opens one device, and the model
  has one.
\<close>

type_synonym disk = "usize \<Rightarrow> u8 list"

definition BLOCK_SZ :: nat where "BLOCK_SZ = 512"

definition read_block :: "usize \<Rightarrow> disk \<Rightarrow> u8 list" where
  "read_block block_id d = d block_id"

definition write_block :: "usize \<Rightarrow> u8 list \<Rightarrow> disk \<Rightarrow> disk" where
  "write_block block_id buf d = d(block_id := buf)"

section \<open>A cached block\<close>

record BlockCache =
  bc_data :: "u8 list"
  bc_modified :: bool

definition bc_new :: "usize \<Rightarrow> disk \<Rightarrow> BlockCache" where
  "bc_new block_id d = \<lparr>bc_data = read_block block_id d, bc_modified = False\<rparr>"

definition bc_sync :: "usize \<Rightarrow> BlockCache \<Rightarrow> disk \<Rightarrow> BlockCache \<times> disk" where
  "bc_sync block_id c d =
     (if bc_modified c then (c\<lparr>bc_modified := False\<rparr>, write_block block_id (bc_data c) d) else (c, d))"

definition bc_drop :: "usize \<Rightarrow> BlockCache \<Rightarrow> disk \<Rightarrow> disk" where
  "bc_drop block_id c d = snd (bc_sync block_id c d)"

section \<open>The cache manager\<close>

definition BLOCK_CACHE_SIZE :: nat where "BLOCK_CACHE_SIZE = 16"

record BlockCacheManager =
  bcm_queue :: "(usize \<times> BlockCache) list"
  bcm_held :: "usize list"
  bcm_disk :: disk

definition bcm_new :: "disk \<Rightarrow> BlockCacheManager" where
  "bcm_new d = \<lparr>bcm_queue = [], bcm_held = [], bcm_disk = d\<rparr>"

text \<open>The oldest block that nobody holds makes room.\<close>

definition bcm_evict :: "BlockCacheManager \<Rightarrow> BlockCacheManager option" where
  "bcm_evict s =
     (case position (\<lambda>(b, _). b \<notin> set (bcm_held s)) (bcm_queue s) of
        None \<Rightarrow> None
      | Some idx \<Rightarrow>
          let (b, c) = bcm_queue s ! idx in
          Some (s\<lparr>bcm_queue := take idx (bcm_queue s) @ drop (Suc idx) (bcm_queue s),
                  bcm_disk := bc_drop b c (bcm_disk s)\<rparr>))"

definition get_block_cache :: "usize \<Rightarrow> BlockCacheManager \<Rightarrow> BlockCacheManager option" where
  "get_block_cache block_id s =
     (if map_of (bcm_queue s) block_id \<noteq> None then Some s
      else do {
        s \<leftarrow> (if length (bcm_queue s) = BLOCK_CACHE_SIZE then bcm_evict s else Some s);
        Some (s\<lparr>bcm_queue := bcm_queue s @ [(block_id, bc_new block_id (bcm_disk s))]\<rparr>) })"

text \<open>
  \<open>get_block_cache(id).lock().read(offset, f)\<close> and \<open>modify\<close> for a closure on the bytes of a value
  of size \<open>sz\<close>; the closure may use other blocks meanwhile.
\<close>

definition bc_read ::
    "usize \<Rightarrow> nat \<Rightarrow> nat \<Rightarrow> (u8 list \<Rightarrow> BlockCacheManager \<Rightarrow> ('a \<times> BlockCacheManager) option)
     \<Rightarrow> BlockCacheManager \<Rightarrow> ('a \<times> BlockCacheManager) option" where
  "bc_read block_id offset sz f s =
     do { s \<leftarrow> get_block_cache block_id s;
          c \<leftarrow> map_of (bcm_queue s) block_id;
          if block_id \<in> set (bcm_held s) \<or> BLOCK_SZ < offset + sz \<or> BLOCK_SZ \<le> offset then None
          else do {
            (v, s) \<leftarrow> f (take sz (drop offset (bc_data c))) (s\<lparr>bcm_held := block_id # bcm_held s\<rparr>);
            Some (v, s\<lparr>bcm_held := tl (bcm_held s)\<rparr>) } }"

definition splice :: "nat \<Rightarrow> 'a list \<Rightarrow> 'a list \<Rightarrow> 'a list" where
  "splice offset bs xs = take offset xs @ bs @ drop (offset + length bs) xs"

definition bc_modify ::
    "usize \<Rightarrow> nat \<Rightarrow> nat \<Rightarrow> (u8 list \<Rightarrow> BlockCacheManager \<Rightarrow> (('a \<times> u8 list) \<times> BlockCacheManager) option)
     \<Rightarrow> BlockCacheManager \<Rightarrow> ('a \<times> BlockCacheManager) option" where
  "bc_modify block_id offset sz f s =
     do { s \<leftarrow> get_block_cache block_id s;
          c \<leftarrow> map_of (bcm_queue s) block_id;
          if block_id \<in> set (bcm_held s) \<or> BLOCK_SZ < offset + sz \<or> BLOCK_SZ \<le> offset then None
          else do {
            ((v, bs), s) \<leftarrow> f (take sz (drop offset (bc_data c))) (s\<lparr>bcm_held := block_id # bcm_held s\<rparr>);
            let c = \<lparr>bc_data = splice offset bs (bc_data c), bc_modified = True\<rparr>;
            Some (v, s\<lparr>bcm_held := tl (bcm_held s), bcm_queue := AList.update block_id c (bcm_queue s)\<rparr>) } }"

fun sync_queue :: "(usize \<times> BlockCache) list \<Rightarrow> disk \<Rightarrow> (usize \<times> BlockCache) list \<times> disk" where
  "sync_queue [] d = ([], d)"
| "sync_queue ((b, c) # q) d =
     (let (c, d) = bc_sync b c d; (q, d) = sync_queue q d in ((b, c) # q, d))"

definition block_cache_sync_all :: "BlockCacheManager \<Rightarrow> BlockCacheManager option" where
  "block_cache_sync_all s =
     (if list_ex (\<lambda>(b, _). b \<in> set (bcm_held s)) (bcm_queue s) then None
      else let (q, d) = sync_queue (bcm_queue s) (bcm_disk s) in Some (s\<lparr>bcm_queue := q, bcm_disk := d\<rparr>))"

section \<open>The blocks behind the cache\<close>

type_synonym blocks = "usize \<Rightarrow> u8 list"

text \<open>The content of a block is that of the cache, if it is there, and else that of the device.\<close>

definition bcm_view :: "BlockCacheManager \<Rightarrow> blocks" where
  "bcm_view s b = (case map_of (bcm_queue s) b of Some c \<Rightarrow> bc_data c | None \<Rightarrow> bcm_disk s b)"

definition cache_ok :: "BlockCacheManager \<Rightarrow> bool" where
  "cache_ok s \<longleftrightarrow>
     distinct (map fst (bcm_queue s)) \<and> length (bcm_queue s) \<le> 16
     \<and> (\<forall>(b, c) \<in> set (bcm_queue s). bc_modified c \<or> bc_data c = bcm_disk s b)
     \<and> distinct (bcm_held s) \<and> set (bcm_held s) \<subseteq> fst ` set (bcm_queue s)"

text \<open>
  \<open>computes H m w v w'\<close>: while the blocks \<open>H\<close> are held, the operation \<open>m\<close> succeeds on every state of
  the cache that stands for the blocks \<open>w\<close>, yields \<open>v\<close> and leaves the blocks \<open>w'\<close>.
\<close>

definition computes ::
    "usize list \<Rightarrow> (BlockCacheManager \<Rightarrow> ('a \<times> BlockCacheManager) option) \<Rightarrow> blocks \<Rightarrow> 'a \<Rightarrow> blocks \<Rightarrow> bool" where
  "computes H m w v w' \<longleftrightarrow>
     (\<forall>s. cache_ok s \<longrightarrow> bcm_view s = w \<longrightarrow> bcm_held s = H \<longrightarrow>
        (\<exists>s'. m s = Some (v, s') \<and> cache_ok s' \<and> bcm_view s' = w' \<and> bcm_held s' = H))"

lemma computesD:
  assumes "computes H m w v w'" "cache_ok s" "bcm_view s = w" "bcm_held s = H"
  shows "\<exists>s'. m s = Some (v, s') \<and> cache_ok s' \<and> bcm_view s' = w' \<and> bcm_held s' = H"
  using assms by (simp add: computes_def)

lemma computes_return: "computes H (\<lambda>s. Some (v, s)) w v w"
  by (simp add: computes_def)

lemma computes_bind:
  assumes "computes H m w v w1" "computes H (f v) w1 u w2"
  shows "computes H (\<lambda>s. m s \<bind> (\<lambda>(v, s). f v s)) w u w2"
  unfolding computes_def
proof (intro allI impI)
  fix s assume s: "cache_ok s" "bcm_view s = w" "bcm_held s = H"
  obtain s1 where "m s = Some (v, s1)" "cache_ok s1" "bcm_view s1 = w1" "bcm_held s1 = H"
    using computesD [OF assms(1) s] by blast
  then show "\<exists>s'. (m s \<bind> (\<lambda>(v, s). f v s)) = Some (u, s') \<and> cache_ok s' \<and> bcm_view s' = w2 \<and> bcm_held s' = H"
    using computesD [OF assms(2)] by simp
qed

lemma computes_cong: "computes H m w v w' \<Longrightarrow> (\<And>s. m s = m' s) \<Longrightarrow> computes H m' w v w'"
  by (simp add: computes_def)

subsection \<open>Loading and evicting\<close>

lemma map_of_remove_nth:
  "distinct (map fst q) \<Longrightarrow> i < length q \<Longrightarrow> map_of (take i q @ drop (Suc i) q) = (map_of q)(fst (q ! i) := None)"
proof (induction q arbitrary: i)
  case (Cons e q)
  have "map_of q (fst e) = None" using Cons.prems(1) by (auto simp: map_of_eq_None_iff)
  moreover have "fst (q ! j) \<noteq> fst e" if "i = Suc j" for j
  proof -
    have "fst (q ! j) \<in> fst ` set q" using Cons.prems(2) that by (intro imageI nth_mem) simp
    moreover have "fst e \<notin> fst ` set q" using Cons.prems(1) by simp
    ultimately show ?thesis by metis
  qed
  ultimately show ?case using Cons by (cases i) (auto simp: fun_eq_iff)
qed simp

lemma bcm_evict_ok:
  assumes ok: "cache_ok s" and h: "length (bcm_held s) < length (bcm_queue s)"
  shows "\<exists>s'. bcm_evict s = Some s' \<and> cache_ok s' \<and> bcm_view s' = bcm_view s \<and> bcm_held s' = bcm_held s
    \<and> Suc (length (bcm_queue s')) = length (bcm_queue s) \<and> dom (map_of (bcm_queue s')) \<subseteq> dom (map_of (bcm_queue s))"
proof -
  let ?q = "bcm_queue s"
  have dist: "distinct (map fst ?q)" and clean: "\<And>b c. (b, c) \<in> set ?q \<Longrightarrow> bc_modified c \<or> bc_data c = bcm_disk s b"
    and held: "distinct (bcm_held s)" "set (bcm_held s) \<subseteq> fst ` set ?q" and len: "length ?q \<le> 16"
    using ok by (auto simp: cache_ok_def)
  have "card (set (bcm_held s)) < card (fst ` set ?q)"
    using h held(1) distinct_card [OF held(1)] distinct_card [OF dist] by simp
  then have "\<not> fst ` set ?q \<subseteq> set (bcm_held s)" by (meson card_mono finite_set not_less)
  then have "position (\<lambda>(b, _). b \<notin> set (bcm_held s)) ?q \<noteq> None" by (auto simp: position_None_iff)
  then obtain i where i: "position (\<lambda>(b, _). b \<notin> set (bcm_held s)) ?q = Some i" by blast
  obtain b c where bc: "?q ! i = (b, c)" by (cases "?q ! i")
  have il: "i < length ?q" "b \<notin> set (bcm_held s)" using position_SomeD [OF i] bc by auto
  define qs where qs: "qs = take i ?q @ drop (Suc i) ?q"
  let ?d = "bc_drop b c (bcm_disk s)"
  have m: "map_of qs = (map_of ?q)(b := None)" using map_of_remove_nth [OF dist il(1)] bc by (simp add: qs)
  have mem: "(b, c) \<in> set ?q" using il(1) bc by (metis nth_mem)
  then have mb: "map_of ?q b = Some c" using dist by simp
  have d: "?d x = (if x = b then bc_data c else bcm_disk s x)" for x
    using clean [OF mem] by (auto simp: bc_drop_def bc_sync_def write_block_def)
  have q: "take i ?q @ (b, c) # drop (Suc i) ?q = ?q" using id_take_nth_drop [OF il(1)] bc by simp
  have "set (take i ?q @ (b, c) # drop (Suc i) ?q) = insert (b, c) (set qs)" by (auto simp: qs)
  then have set_q: "set ?q = insert (b, c) (set qs)" unfolding q .
  have "distinct (map fst (take i ?q @ (b, c) # drop (Suc i) ?q))" unfolding q by (rule dist)
  then have dq: "distinct (map fst qs)" "b \<notin> fst ` set qs" by (auto simp: qs)
  have lq: "Suc (length qs) = length ?q" using il(1) by (simp add: qs)
  let ?s = "s\<lparr>bcm_queue := qs, bcm_disk := ?d\<rparr>"
  have r: "bcm_evict s = Some ?s" by (simp add: bcm_evict_def i bc qs)
  have v: "bcm_view ?s = bcm_view s" by (rule ext) (simp add: bcm_view_def m d mb split: option.split)
  have "bc_modified c' \<or> bc_data c' = ?d x" if "(x, c') \<in> set qs" for x c'
  proof -
    have "x \<in> fst ` set qs" using that by (rule rev_image_eqI) simp
    then have "x \<noteq> b" using dq(2) by metis
    moreover have "(x, c') \<in> set ?q" using that by (simp add: set_q)
    ultimately show ?thesis using clean [of x c'] by (simp add: d)
  qed
  then have "cache_ok ?s" using dq(1) held il(2) len lq set_q by (auto simp: cache_ok_def)
  then show ?thesis using r v lq m by (intro exI [of _ ?s]) auto
qed

lemma get_block_cache_ok:
  assumes ok: "cache_ok s" and h: "length (bcm_held s) < 16"
  shows "\<exists>s' c. get_block_cache x s = Some s' \<and> cache_ok s' \<and> bcm_view s' = bcm_view s \<and> bcm_held s' = bcm_held s
    \<and> map_of (bcm_queue s') x = Some c \<and> bc_data c = bcm_view s x"
proof (cases "map_of (bcm_queue s) x")
  case (Some c)
  then show ?thesis using ok by (auto simp: get_block_cache_def bcm_view_def)
next
  case None
  have "\<exists>s1. (if length (bcm_queue s) = BLOCK_CACHE_SIZE then bcm_evict s else Some s) = Some s1 \<and> cache_ok s1
      \<and> bcm_view s1 = bcm_view s \<and> bcm_held s1 = bcm_held s \<and> length (bcm_queue s1) < 16 \<and> map_of (bcm_queue s1) x = None"
  proof (cases "length (bcm_queue s) = 16")
    case True
    then obtain s1 where s1: "bcm_evict s = Some s1" "cache_ok s1" "bcm_view s1 = bcm_view s" "bcm_held s1 = bcm_held s"
        "Suc (length (bcm_queue s1)) = 16" "dom (map_of (bcm_queue s1)) \<subseteq> dom (map_of (bcm_queue s))"
      using bcm_evict_ok [OF ok] h by auto
    then have "x \<notin> dom (map_of (bcm_queue s1))" using None by (auto simp only: domIff)
    then have "map_of (bcm_queue s1) x = None" by (simp only: domIff not_not)
    then show ?thesis using s1 True by (simp add: BLOCK_CACHE_SIZE_def)
  next
    case False
    then show ?thesis using ok None by (auto simp: BLOCK_CACHE_SIZE_def cache_ok_def)
  qed
  then obtain s1 where s1: "(if length (bcm_queue s) = BLOCK_CACHE_SIZE then bcm_evict s else Some s) = Some s1" "cache_ok s1"
      "bcm_view s1 = bcm_view s" "bcm_held s1 = bcm_held s" "length (bcm_queue s1) < 16" "map_of (bcm_queue s1) x = None"
    by blast
  let ?c = "bc_new x (bcm_disk s1)"
  let ?s = "s1\<lparr>bcm_queue := bcm_queue s1 @ [(x, ?c)]\<rparr>"
  have "get_block_cache x s = Some ?s" using None by (simp add: get_block_cache_def s1(1))
  moreover have "bcm_view ?s = bcm_view s1"
    using s1(6) by (auto simp: fun_eq_iff bcm_view_def map_add_def bc_new_def read_block_def split: option.splits)
  moreover have "cache_ok ?s" using s1(2,5,6) by (auto simp: cache_ok_def map_of_eq_None_iff bc_new_def read_block_def)
  moreover have "map_of (bcm_queue ?s) x = Some ?c" using s1(6) by (simp add: map_add_def)
  moreover have "bc_data ?c = bcm_view s1 x" using s1(6) by (simp add: bcm_view_def bc_new_def read_block_def)
  ultimately show ?thesis using s1(3,4) by auto
qed

subsection \<open>Reading and modifying a block\<close>

lemma cache_ok_clean:
  "cache_ok s \<longleftrightarrow>
     distinct (map fst (bcm_queue s)) \<and> length (bcm_queue s) \<le> 16
     \<and> (\<forall>b c. map_of (bcm_queue s) b = Some c \<longrightarrow> bc_modified c \<or> bc_data c = bcm_disk s b)
     \<and> distinct (bcm_held s) \<and> set (bcm_held s) \<subseteq> fst ` set (bcm_queue s)"
  unfolding cache_ok_def by (cases "distinct (map fst (bcm_queue s))") auto

lemma cache_ok_hold:
  assumes "cache_ok s" "map_of (bcm_queue s) x = Some c" "x \<notin> set (bcm_held s)"
  shows "cache_ok (s\<lparr>bcm_held := x # bcm_held s\<rparr>)" "bcm_view (s\<lparr>bcm_held := H\<rparr>) = bcm_view s"
proof -
  have "x \<in> fst ` set (bcm_queue s)" using assms(2) by (metis map_of_eq_None_iff option.distinct(1))
  then show "cache_ok (s\<lparr>bcm_held := x # bcm_held s\<rparr>)" using assms(1,3) by (simp add: cache_ok_def)
qed (simp add: bcm_view_def fun_eq_iff split: option.split)

lemma view_held [simp]: "bcm_view (s\<lparr>bcm_held := H\<rparr>) = bcm_view s"
  by (simp add: bcm_view_def fun_eq_iff split: option.split)

lemma cache_ok_release: "cache_ok s \<Longrightarrow> bcm_held s = x # H \<Longrightarrow> cache_ok (s\<lparr>bcm_held := H\<rparr>)"
  by (simp add: cache_ok_def)

lemma cache_ok_update:
  assumes ok: "cache_ok s" and x: "x \<in> fst ` set (bcm_queue s)"
  shows "cache_ok (s\<lparr>bcm_queue := AList.update x \<lparr>bc_data = bs, bc_modified = True\<rparr> (bcm_queue s)\<rparr>)"
    "bcm_view (s\<lparr>bcm_queue := AList.update x \<lparr>bc_data = bs, bc_modified = True\<rparr> (bcm_queue s)\<rparr>) = (bcm_view s)(x := bs)"
proof -
  let ?c = "\<lparr>bc_data = bs, bc_modified = True\<rparr>" and ?q = "bcm_queue s"
  have keys: "map fst (AList.update x ?c ?q) = map fst ?q" using x by (simp add: update_keys)
  then have "length (AList.update x ?c ?q) = length ?q" "fst ` set (AList.update x ?c ?q) = fst ` set ?q"
    by (metis length_map, metis list.set_map)
  then show "cache_ok (s\<lparr>bcm_queue := AList.update x ?c ?q\<rparr>)"
    using ok keys by (auto simp: cache_ok_clean update_conv)
  show "bcm_view (s\<lparr>bcm_queue := AList.update x ?c ?q\<rparr>) = (bcm_view s)(x := bs)"
    by (rule ext) (simp add: bcm_view_def update_conv' split: option.split)
qed

lemma computes_read:
  assumes x: "x \<notin> set H" "length H < 16" and sz: "offset < 512" "offset + sz \<le> 512"
    and f: "computes (x # H) (f (take sz (drop offset (w x)))) w v w'"
  shows "computes H (bc_read x offset sz f) w v w'"
  unfolding computes_def
proof (intro allI impI)
  fix s assume s: "cache_ok s" "bcm_view s = w" "bcm_held s = H"
  obtain s1 c where s1: "get_block_cache x s = Some s1" "cache_ok s1" "bcm_view s1 = w" "bcm_held s1 = H"
      "map_of (bcm_queue s1) x = Some c" "bc_data c = w x"
    using get_block_cache_ok [OF s(1), of x] s x(2) by auto
  let ?s = "s1\<lparr>bcm_held := x # bcm_held s1\<rparr>"
  have "cache_ok ?s" using cache_ok_hold(1) [OF s1(2,5)] x(1) s1(4) by simp
  then obtain s2 where s2: "f (take sz (drop offset (w x))) ?s = Some (v, s2)" "cache_ok s2" "bcm_view s2 = w'" "bcm_held s2 = x # H"
    using computesD [OF f, of ?s] s1 by auto
  have "bc_read x offset sz f s = Some (v, s2\<lparr>bcm_held := H\<rparr>)"
    using s1 s2 sz x(1) by (simp add: bc_read_def BLOCK_SZ_def)
  then show "\<exists>s'. bc_read x offset sz f s = Some (v, s') \<and> cache_ok s' \<and> bcm_view s' = w' \<and> bcm_held s' = H"
    using s2 cache_ok_release by simp
qed

lemma computes_modify:
  assumes x: "x \<notin> set H" "length H < 16" and sz: "offset < 512" "offset + sz \<le> 512"
    and f: "computes (x # H) (f (take sz (drop offset (w x)))) w (v, bs) w'"
  shows "computes H (bc_modify x offset sz f) w v (w'(x := splice offset bs (w x)))"
  unfolding computes_def
proof (intro allI impI)
  fix s assume s: "cache_ok s" "bcm_view s = w" "bcm_held s = H"
  obtain s1 c where s1: "get_block_cache x s = Some s1" "cache_ok s1" "bcm_view s1 = w" "bcm_held s1 = H"
      "map_of (bcm_queue s1) x = Some c" "bc_data c = w x"
    using get_block_cache_ok [OF s(1), of x] s x(2) by auto
  let ?s = "s1\<lparr>bcm_held := x # bcm_held s1\<rparr>"
  have "cache_ok ?s" using cache_ok_hold(1) [OF s1(2,5)] x(1) s1(4) by simp
  then obtain s2 where s2: "f (take sz (drop offset (w x))) ?s = Some ((v, bs), s2)" "cache_ok s2" "bcm_view s2 = w'" "bcm_held s2 = x # H"
    using computesD [OF f, of ?s] s1 by auto
  let ?c = "\<lparr>bc_data = splice offset bs (w x), bc_modified = True\<rparr>"
  have r: "bc_modify x offset sz f s = Some (v, (s2\<lparr>bcm_held := H\<rparr>)\<lparr>bcm_queue := AList.update x ?c (bcm_queue (s2\<lparr>bcm_held := H\<rparr>))\<rparr>)"
    using s1 s2 sz x(1) by (simp add: bc_modify_def BLOCK_SZ_def)
  have ok: "cache_ok (s2\<lparr>bcm_held := H\<rparr>)" by (rule cache_ok_release [OF s2(2,4)])
  have "x \<in> fst ` set (bcm_queue (s2\<lparr>bcm_held := H\<rparr>))" using s2(2,4) by (simp add: cache_ok_def)
  note u = cache_ok_update [OF ok this, of "splice offset bs (w x)"]
  show "\<exists>s'. bc_modify x offset sz f s = Some (v, s') \<and> cache_ok s' \<and> bcm_view s' = w'(x := splice offset bs (w x)) \<and> bcm_held s' = H"
    by (rule exI, intro conjI, rule r, rule u(1)) (simp_all only: u(2) view_held s2(3), simp)
qed

subsection \<open>Writing back\<close>

lemma sync_queue_effect:
  assumes "distinct (map fst q)" "\<forall>(b, c) \<in> set q. bc_modified c \<or> bc_data c = d b" "sync_queue q d = (q', d')"
  shows "map fst q' = map fst q" "map_of q' x = map_option (\<lambda>c. c\<lparr>bc_modified := False\<rparr>) (map_of q x)"
    "d' x = (case map_of q x of Some c \<Rightarrow> bc_data c | None \<Rightarrow> d x)"
proof -
  have "map fst q' = map fst q \<and> map_of q' x = map_option (\<lambda>c. c\<lparr>bc_modified := False\<rparr>) (map_of q x)
    \<and> d' x = (case map_of q x of Some c \<Rightarrow> bc_data c | None \<Rightarrow> d x)"
    using assms
  proof (induction q arbitrary: d q')
    case (Cons e q)
    obtain b c where e: "e = (b, c)" by (cases e)
    have sync: "bc_sync b c d = (c\<lparr>bc_modified := False\<rparr>, d(b := bc_data c))"
      using Cons.prems(2) by (cases c) (auto simp: bc_sync_def write_block_def e)
    obtain qs where qs: "sync_queue q (d(b := bc_data c)) = (qs, d')" "q' = (b, c\<lparr>bc_modified := False\<rparr>) # qs"
      using Cons.prems(3) by (auto simp: e sync split: prod.splits)
    have b: "b \<notin> fst ` set q" using Cons.prems(1) by (simp add: e)
    have "bc_modified c' \<or> bc_data c' = (d(b := bc_data c)) b'" if "(b', c') \<in> set q" for b' c'
    proof -
      have "b' \<noteq> b" using that b by force
      then show ?thesis using Cons.prems(2) that by (force simp: e)
    qed
    then have "\<forall>(b', c') \<in> set q. bc_modified c' \<or> bc_data c' = (d(b := bc_data c)) b'" by blast
    then have IH: "map fst qs = map fst q \<and> map_of qs x = map_option (\<lambda>c. c\<lparr>bc_modified := False\<rparr>) (map_of q x)
      \<and> d' x = (case map_of q x of Some c \<Rightarrow> bc_data c | None \<Rightarrow> (d(b := bc_data c)) x)"
      using Cons.IH [OF _ _ qs(1)] Cons.prems(1) by simp
    have "map_of q b = None" using b by (simp add: map_of_eq_None_iff)
    then show ?case using IH by (cases "x = b") (simp_all add: e qs(2) cong: option.case_cong)
  qed simp
  then show "map fst q' = map fst q" "map_of q' x = map_option (\<lambda>c. c\<lparr>bc_modified := False\<rparr>) (map_of q x)"
    "d' x = (case map_of q x of Some c \<Rightarrow> bc_data c | None \<Rightarrow> d x)" by blast+
qed

lemma sync_all_ok:
  assumes ok: "cache_ok s" and h: "bcm_held s = []"
  shows "\<exists>s'. block_cache_sync_all s = Some s' \<and> cache_ok s' \<and> bcm_view s' = bcm_view s \<and> bcm_disk s' = bcm_view s \<and> bcm_held s' = []"
proof -
  obtain q d where sq: "sync_queue (bcm_queue s) (bcm_disk s) = (q, d)" by (cases "sync_queue (bcm_queue s) (bcm_disk s)")
  note E = sync_queue_effect [OF _ _ sq]
  have 1: "distinct (map fst (bcm_queue s))" "\<forall>(b, c) \<in> set (bcm_queue s). bc_modified c \<or> bc_data c = bcm_disk s b"
    using ok by (simp_all add: cache_ok_def)
  let ?s = "s\<lparr>bcm_queue := q, bcm_disk := d\<rparr>"
  have r: "block_cache_sync_all s = Some ?s" by (simp add: block_cache_sync_all_def h sq list_ex_iff)
  have d: "d = bcm_view s" by (rule ext) (simp add: E(3) [OF 1] bcm_view_def)
  have v: "bcm_view ?s = bcm_view s"
    by (rule ext) (simp add: bcm_view_def E(2) [OF 1] d split: option.split)
  have "length q = length (bcm_queue s)" using E(1) [OF 1] by (metis length_map)
  then have "cache_ok ?s"
    using ok E(1) [OF 1] h by (auto simp: cache_ok_clean E(2) [OF 1] d bcm_view_def)
  then show ?thesis using r v d h by simp
qed

section \<open>The cache is transparent\<close>

text \<open>
  C28: the cache is invisible. On every consistent state of the cache, whatever it holds and
  whatever it has to evict, reading a value yields the bytes last written to that place of the
  block, and a modification changes these bytes and no other byte of any block; a place that
  does not lie in the block makes both panic. A write-back leaves the device with exactly the
  current contents and changes no block.
\<close>

theorem cache_transparent:
  assumes "cache_ok s" "bcm_held s = []"
  shows "(if offset < 512 \<and> offset + length bs \<le> 512
     then (\<exists>s'. bc_read x offset (length bs) (\<lambda>ys s. Some (ys, s)) s = Some (take (length bs) (drop offset (bcm_view s x)), s')
             \<and> cache_ok s' \<and> bcm_view s' = bcm_view s)
       \<and> (\<exists>s'. bc_modify x offset (length bs) (\<lambda>ys s. Some ((ys, bs), s)) s = Some (take (length bs) (drop offset (bcm_view s x)), s')
             \<and> cache_ok s' \<and> bcm_view s' = (bcm_view s)(x := splice offset bs (bcm_view s x)))
     else bc_read x offset (length bs) (\<lambda>ys s. Some (ys, s)) s = None
       \<and> bc_modify x offset (length bs) (\<lambda>ys s. Some ((ys, bs), s)) s = None)
    \<and> (\<exists>s'. block_cache_sync_all s = Some s' \<and> cache_ok s' \<and> bcm_view s' = bcm_view s \<and> bcm_disk s' = bcm_view s)"
proof (cases "offset < 512 \<and> offset + length bs \<le> 512")
  case True
  let ?w = "bcm_view s"
  have "computes [] (bc_read x offset (length bs) (\<lambda>ys s. Some (ys, s))) ?w (take (length bs) (drop offset (?w x))) ?w"
    by (rule computes_read) (use True in \<open>simp_all add: computes_return\<close>)
  moreover have "computes [] (bc_modify x offset (length bs) (\<lambda>ys s. Some ((ys, bs), s))) ?w
      (take (length bs) (drop offset (?w x))) (?w(x := splice offset bs (?w x)))"
    by (rule computes_modify) (use True in \<open>simp_all add: computes_return\<close>)
  ultimately show ?thesis
    unfolding if_P [OF True] using computesD [OF _ assms(1) refl assms(2)] sync_all_ok [OF assms] by meson
next
  case False
  have "bc_read x offset (length bs) (\<lambda>ys s. Some (ys, s)) s = None"
    "bc_modify x offset (length bs) (\<lambda>ys s. Some ((ys, bs), s)) s = None"
    using False by (auto simp: bc_read_def bc_modify_def BLOCK_SZ_def split: bind_splits)
  then show ?thesis unfolding if_not_P [OF False] using sync_all_ok [OF assms] by meson
qed

theorem cache_transparent_witness:
  "\<exists>s'. bc_modify 7 2 3 (\<lambda>ys s. Some ((ys, [1, 2, 3]), s)) (bcm_new (\<lambda>_. replicate 512 0)) = Some ([0, 0, 0], s')
     \<and> bcm_view s' 7 = [0, 0, 1, 2, 3] @ replicate 507 0 \<and> bcm_view s' 8 = replicate 512 0"
proof -
  let ?s = "bcm_new (\<lambda>_. replicate 512 0)"
  have "cache_ok ?s" "bcm_held ?s = []" by (simp_all add: cache_ok_def bcm_new_def)
  from cache_transparent [OF this, of 2 "[1, 2, 3]" 7]
  have "\<exists>s'. bc_modify 7 2 3 (\<lambda>ys s. Some ((ys, [1, 2, 3]), s)) ?s = Some (take 3 (drop 2 (bcm_view ?s 7)), s')
      \<and> bcm_view s' = (bcm_view ?s)(7 := splice 2 [1, 2, 3] (bcm_view ?s 7))" by (simp add: numeral_eq_Suc) blast
  moreover have "bcm_view ?s = (\<lambda>_. replicate 512 0)" by (simp add: bcm_view_def bcm_new_def fun_eq_iff)
  moreover have "take 3 (drop 2 (replicate 512 0)) = [0, 0, 0 :: 8 word]"
    "splice 2 [1, 2, 3] (replicate 512 0) = [0, 0, 1, 2, 3] @ replicate 507 (0 :: 8 word)"
    by (simp_all add: splice_def numeral_eq_Suc)
  ultimately show ?thesis by (simp only:) fastforce
qed

end
