(* ===== verification/Spec2Isabelle.thy ===== *)
theory Spec2Isabelle
  imports Sample_Kernel Block_Cache
begin

text \<open>
  A verification development for the rCore-based teaching kernel with IPC security: the kernel
  under src/os/src and the block cache of its file system under src/easy-fs/src.

  \<^bold>\<open>The program.\<close> User programs enter the kernel by traps (trap/mod.rs); a system call is dispatched
  by its number (syscall/mod.rs) to the calls on files (syscall/fs.rs), on processes
  (syscall/process.rs) and on the audit log (syscall/security.rs). The calls act on task control
  blocks, which the scheduler keeps in a ready queue (task/), on address spaces made of page
  tables over physical frames (mm/), and on open files, consoles and pipes (fs/). Every operation
  of inter-process communication passes through the security facade (security/mod.rs): it is
  authorized against the credentials, charged to a quota, and recorded in the audit ring. At the
  end of a trap pending signals are delivered (task/mod.rs).

  \<^bold>\<open>Conventions.\<close> \<open>usize\<close> and the other machine integers are words of their width; arithmetic wraps
  as in a release build, unless the source uses the checked or saturating operations. A struct
  is a record, an enum a datatype. A stateful operation takes its state and yields the new
  one. \<open>None\<close> as the outcome of an operation is a panic, and in the block cache also a deadlock;
  errors that the source returns are values (\<open>IpcError + 'a\<close>, or the negative code). A kernel
  operation that may not return to its caller yields a \<open>flow\<close>: a value, a switch to the scheduler,
  or a shutdown. A suspended task keeps the point at which it goes on as a \<open>TaskContext\<close>; the
  operations that block are modelled as activations from one resumption to the next suspension.

  \<^bold>\<open>The theories.\<close>
  \<^item> \<open>Prelude\<close>, \<open>Bytes\<close>: integer types, Rust's checked and saturating arithmetic, search loops, the
    view of a ring buffer as a list, systems with an invariant (locale \<open>invariant_system\<close>),
    little-endian bytes and UTF-8.
  \<^item> \<open>Security_Api\<close> (security/api.rs, credentials.rs, policy.rs), \<open>Quota\<close> (quota.rs), \<open>Audit_Ring\<close>
    (audit.rs), \<open>Security_Facade\<close> (mod.rs): the decision table of the policy; quotas as a refinement
    of sets of descriptors; the ring as a refinement of the complete history, with what a snapshot
    returns, what the statistics count, and that a polling reader loses nothing unnoticed under
    any interleaving of pushes and polls; that a refusal changes nothing and
    leaves one record, and that a failed operation gives back its charge.
  \<^item> \<open>Address\<close> (mm/address.rs, config.rs), \<open>Allocators\<close> (task/pid.rs, mm/frame_allocator.rs, both
    interpretations of the locale \<open>id_allocator\<close>), \<open>Phys_Mem\<close>, \<open>Page_Table\<close> (mm/page_table.rs),
    \<open>Memory_Set\<close> (mm/memory_set.rs, and the kernel stacks of task/pid.rs), \<open>User_Access\<close>
    (mm/user_access.rs and the user memory helpers of mm/page_table.rs): page tables in physical
    memory denote a map from pages to entries, and \<open>map\<close> and \<open>unmap\<close> change this map at one page
    and no byte of a foreign frame; fork copies an address space onto frames of its own; range
    checks, buffers, strings and copies mean what the byte-wise definition says, and end.
  \<^item> \<open>Pipe\<close> (fs/pipe.rs): the ring buffer is a bounded queue (locale \<open>bounded_fifo\<close>), the blocking
    loops end in every activation, and no interleaving loses or reorders bytes.
  \<^item> \<open>Signal\<close> (task/signal.rs, action.rs), \<open>Trap_Context\<close> (trap/context.rs), \<open>Task\<close> (task/task.rs,
    manager.rs, processor.rs, timer.rs), \<open>Process\<close> (fork, exec, exit and the end of a task in
    task/task.rs and task/mod.rs), \<open>Signal_Delivery\<close> (task/mod.rs), \<open>Files\<close> (fs/inode.rs, stdio.rs,
    mod.rs), \<open>Syscall_Fs\<close>, \<open>Syscall_Process\<close>, \<open>Syscall_Security\<close> (syscall/), \<open>Trap\<close> (trap/mod.rs,
    syscall/mod.rs): the kernel proper over one state, the record \<open>kernel\<close> of \<open>Task\<close>, in which
    task control blocks are found by PID and shared objects (pipe buffers, open files) by number.
  \<^item> \<open>Process_Model\<close>: the abstract machine of processes. Its state \<open>procs\<close> is what the kernel state
    says about processes, owners and the processor; its steps \<open>pstep\<close> are what one process may do
    to it; \<open>procs_inv\<close> is its invariant.
  \<^item> \<open>Descriptors\<close>, \<open>Kernel_Runs\<close>, \<open>Kernel_Refinement\<close>, \<open>Kernel_Traps\<close>, \<open>Kernel_System\<close>: every kernel
    operation is a run of this machine by the current process. \<open>Kernel_System\<close> puts user programs,
    traps and the scheduler together as the relation \<open>sys_step\<close> and its runs \<open>sys_run\<close>.
  \<^item> \<open>Block_Cache\<close> (easy-fs/src/block_cache.rs, block_dev.rs): 16 cached blocks with eviction and
    write-back over one device; reads, modifications and syncs act on the blocks as if there
    were no cache.
  \<^item> \<open>Sample_Kernel\<close>: a concrete system with two processes, to which the claims are applied.
  This theory holds the claims about the whole kernel: refinement of the process machine, the
  invariant of every run, isolation between users, limits on descriptors, and the behaviour of
  \<open>kill\<close>, \<open>pipe\<close>, \<open>waitpid\<close>, signal delivery and \<open>sigreturn\<close>.

  \<^bold>\<open>Parameters.\<close> What the kernel gets from outside is the record \<open>platform\<close> of \<open>Task\<close>: the clock,
  console input, register values and link addresses, the ELF parser, padding bytes, and the
  operations of the file system on inodes. The claims about the whole kernel hold for every
  platform; that \<open>kill\<close> returns needs a clock of at least 1000 ticks per second (\<open>clock_ok\<close>), since
  the kernel divides by the ticks per millisecond when it stamps an audit record.

  \<^bold>\<open>Loops.\<close> No definition has fuel. Loops over lists and ranges are total functions. The loops that
  may in principle not end are partial functions with \<open>None\<close> for not returning; that the range
  check, the buffer translation and the activations of the pipe loops return is proved, and the
  string loop is proved equal to the byte-wise definition. The loop that reads a whole file
  ends when the file system says so.

  \<^bold>\<open>Bounds.\<close> Steps of the system suppose that the supply of fresh PIDs, 64 bits wide, is not
  exhausted (\<open>pids_left\<close>). A step of a user program may change memory arbitrarily: which memory a
  program reaches is decided by the page tables and is the subject of \<open>Memory_Set\<close>. The claims
  about runs are therefore about control blocks and queues, and about steps that complete; the
  panics that programs can cause end a run and are not excluded.

  \<^bold>\<open>Not modelled.\<close> Assembly (trap entry, context switch), control registers and translation caches;
  the kernel heap, boot, logging, SBI, device tree and the block driver, which are hardware
  access or third-party code; \<open>UPSafeCell\<close>, whose borrow checks carry no data; the kernel's own
  messages; bitmaps, disk inodes, directories and the file system object of easy-fs above its
  block cache, for which the parameters above stand; the image builder, the user library and
  the user programs.
\<close>

section \<open>The kernel refines the process machine\<close>

text \<open>
  C1: every step of the system is a run of the abstract process machine by the process that
  acts: whatever system call, exception, interrupt, resumption or scheduling decision the
  kernel executes, the process table changes only in the ways the machine allows (own control
  block, entitled signals, children, giving up the processor).
\<close>

theorem kernel_refines:
  assumes "sys_step pf c k k'" "procs_inv (procs k)"
  shows "prun c (procs k) (procs k')"
  by (rule sys_step_refines [OF assms])

theorem kernel_refines_witness:
  "\<exists>k' :: (unit, unit) kernel. k_ready k' = [1, 2] \<and> prun 2 (procs sample_kernel) (procs k')"
  using sample_step kernel_refines [OF _ sample_inv] by blast

text \<open>
  C3: the invariant of processes survives every run of the system: each live process is either
  current or exactly once in the ready queue, the PID table lists exactly the live processes,
  every process but the first has exactly one owner, PIDs in use are those handed out, quotas
  count the open descriptors, and the signal state of every task is well formed.
\<close>

theorem kernel_invariant:
  assumes "procs_inv (procs k)" "sys_run pf (\<lambda>_. True) k k'"
  shows "procs_inv (procs k')"
  by (rule sys_run_inv [OF assms(2,1)])

theorem kernel_invariant_witness: "\<exists>k' :: (unit, unit) kernel. k_ready k' = [1, 2] \<and> procs_inv (procs k')"
  using sample_run [of "\<lambda>_. True"] kernel_invariant [OF sample_inv] by blast

text \<open>
  C2: processes of one unprivileged user, whatever they and their descendants do and however
  they are scheduled, leave the control block of every live process of every other user as it
  is: its credentials, quota, descriptor table, signal state, scheduling state and the
  description of its address space; only a new parent or inherited children may appear. And no
  process ends up with credentials that no process had before. The claim is about the control
  blocks: what the frames of an address space hold is not part of them (a step of a user
  program may change any memory here), and a call that makes the kernel panic is not a step of
  a run, so availability is not claimed.
\<close>

theorem unprivileged_isolation:
  assumes "sys_run pf (\<lambda>t. cred_uid (creds t) = u \<and> \<not> contains (cred_capabilities (creds t)) KILL) k k'"
    and "procs_inv (procs k)" and "u \<noteq> 0"
  shows "(\<forall>q t. tcb k q = Some t \<longrightarrow> cred_uid (creds t) \<noteq> u \<longrightarrow> task_status t \<noteq> Zombie
            \<longrightarrow> (\<exists>t'. tcb k' q = Some t' \<and> untouched t t'))
       \<and> (\<forall>q t'. tcb k' q = Some t' \<longrightarrow> (\<exists>p t. tcb k p = Some t \<and> creds t' = creds t))"
proof -
  have "sys_run pf (\<lambda>t. \<not> is_root (creds t)) k k'"
    by (rule sys_run_mono [OF assms(1)]) (use assms(3) in \<open>auto simp: is_root_def ROOT_UID_def\<close>)
  then show ?thesis using sys_run_isolation [OF assms] sys_run_credentials assms(2) by blast
qed

theorem unprivileged_isolation_witness:
  "\<exists>(k' :: (unit, unit) kernel) t'. k_ready k' = [1, 2] \<and> tcb k' 1 = Some t' \<and> untouched sample_init t'"
proof -
  let ?A = "\<lambda>t. cred_uid (creds t) = 1000 \<and> \<not> contains (cred_capabilities (creds t)) KILL"
  have "?A sample_user" by (simp add: sample_user_def contains_def cap_empty_def KILL_def)
  from sample_run [of ?A, OF this] obtain k' where k': "sys_run sample_platform ?A sample_kernel k'" "k_ready k' = [1, 2]" by blast
  have "tcb sample_kernel 1 = Some sample_init" "cred_uid (creds sample_init) \<noteq> 1000" "task_status sample_init \<noteq> Zombie"
    by (simp_all add: sample_tcb sample_init_def cred_root_def ROOT_UID_def)
  then show ?thesis using unprivileged_isolation [OF k'(1) sample_inv] k'(2) by auto
qed

text \<open>
  C4: in every state the system reaches, a live process has at most 32 open descriptors and at
  most 16 pipe ends, and its quota counts exactly the descriptors that are open.
\<close>

theorem descriptor_limits:
  assumes "procs_inv (procs k)" "sys_run pf (\<lambda>_. True) k k'" "tcb k' q = Some t" "task_status t \<noteq> Zombie"
  shows "card (open_fds t) \<le> 32 \<and> card (pipe_fds t) \<le> 16
    \<and> unat (open_files (sec_quota (security t))) = card (open_fds t)
    \<and> unat (open_pipes (sec_quota (security t))) = card (pipe_fds t)"
proof -
  have "tasks_inv (procs k')" using sys_run_inv [OF assms(2,1)] by (simp add: procs_inv_def)
  then have "fd_inv t" using assms(3,4) by (simp add: tasks_inv_def task_inv_def)
  then show ?thesis by (simp add: fd_inv_def acct_def quota_repr_def)
qed

theorem descriptor_limits_witness:
  "\<exists>(k' :: (unit, unit) kernel) t. k_ready k' = [1, 2] \<and> tcb k' 2 = Some t \<and> card (open_fds t) \<le> 32
     \<and> unat (open_files (sec_quota (security t))) = card (open_fds t)"
  using sample_run [of "\<lambda>_. True"] descriptor_limits [OF sample_inv, where q = 2] by fastforce

section \<open>System calls\<close>



text \<open>
  C6: creating a pipe is all or nothing. A call that fails, at any of the permission, quota,
  identifier and copy steps, returns a negative code and leaves the caller's security state and
  every descriptor as they were; a call that succeeds returns 0 and adds exactly two fresh pipe
  descriptors. No other process changes either way.
\<close>

theorem sys_pipe_atomic:
  assumes "k_current k = Some c" "procs_inv (procs k)" "tcb k c = Some t" "sys_pipe pf p k = Some (fl, k')"
  shows "\<exists>v t'. fl = Value v \<and> tcb k' c = Some t' \<and> (\<forall>q. q \<noteq> c \<longrightarrow> tcb k' q = tcb k q)
    \<and> (v < 0 \<longrightarrow> security t' = security t \<and> (\<forall>fd. fd_lookup t' fd = fd_lookup t fd))
    \<and> (0 \<le> v \<longrightarrow> v = 0 \<and> new_pipe_fds t t')"
proof -
  have "entry c k" using assms(1,2) by (simp add: entry_def)
  from sys_pipe_effect [OF this assms(3,4)] obtain v t' where r: "fl = Value v" "procs k' = p_set c t' (procs k)"
      "v < 0 \<longrightarrow> (\<exists>n. t' = t\<lparr>fd_table := fd_table t @ replicate n None\<rparr>)" "0 \<le> v \<longrightarrow> v = 0 \<and> new_pipe_fds t t'" by blast
  have tcb: "tcb k' q = (if q = c then Some t' else tcb k q)" for q
    using arg_cong [OF r(2), of "\<lambda>p. p_tcb p q"] by (simp add: p_tcb_set)
  have "security t' = security t \<and> (\<forall>fd. fd_lookup t' fd = fd_lookup t fd)" if "v < 0"
    using r(3) that by (auto simp: fd_lookup_def nth_append)
  then show ?thesis using r(1,4) tcb by auto
qed

lemma sample_pipe: "\<exists>k'. sys_pipe sample_platform p sample_kernel = Some (Value (- 24), k')"
proof -
  let ?rq = "ipc_request 2 sample_user \<lparr>obj_id = 0, obj_owner_uid = 1000\<rparr> PipeCreate 1"
  let ?q = "\<lparr>open_files = 31, open_pipes = 0, pipe_fd_mask = 0\<rparr>"
  have sec: "sec_quota (security sample_user) = ?q" "cred_uid (creds sample_user) = 1000"
    by (simp_all add: sample_user_def sample_task_def)
  have "authorize ?rq = Inr ()" "quota_reserve ?q ?rq = (Inl TooManyFiles, ?q)"
    by (simp_all add: authorize_def ipc_request_def Let_def quota_reserve_def reserve_pipe_fds_def checked_add_def quota_consts)
  moreover obtain now where "get_time_ms sample_platform sample_kernel = Some (now, sample_kernel\<lparr>k_ticks := k_ticks sample_kernel + 1\<rparr>)"
    using get_time_ms_now [OF sample_clock] by blast
  ultimately have "\<exists>k'. task_preflight sample_platform 2 ?rq sample_kernel = Some (Inl TooManyFiles, k')"
    by (simp add: task_preflight_def sample_tcb preflight_def sec)
  then show ?thesis
    by (auto simp: sys_pipe_def current_task_def sample_tcb ipc_error_to_ret_def sec)
qed

theorem sys_pipe_atomic_witness:
  "\<exists>(k' :: (unit, unit) kernel) t'. sys_pipe sample_platform 0x1000 sample_kernel = Some (Value (- 24), k')
     \<and> tcb k' 2 = Some t' \<and> (\<forall>fd. fd_lookup t' fd = fd_lookup sample_user fd)"
proof -
  obtain k' where k': "sys_pipe sample_platform 0x1000 sample_kernel = Some (Value (- 24), k')" using sample_pipe by blast
  have "tcb sample_kernel 2 = Some sample_user" by (simp add: sample_tcb)
  from sys_pipe_atomic [OF _ sample_inv this k'] show ?thesis using k' by auto
qed

text \<open>
  C7: what \<open>waitpid\<close> does: -1 without a matching child, -2 while no matching child is a zombie,
  -14 with the state unchanged when the exit code cannot be stored; otherwise the first
  matching zombie is taken off the list, and the assertion that nobody else holds a reference
  to it cannot fail, so the call goes on to free it and returns its PID.
\<close>

theorem sys_waitpid_spec:
  assumes "k_current k = Some c" "procs_inv (procs k)" "tcb k c = Some t"
  shows "sys_waitpid pid ptr k =
     (if \<not> list_ex (wait_matches pid) (children t) then Some (Value (- 1), k)
      else case position (\<lambda>p. zombie_at k p \<and> wait_matches pid p) (children t) of
        None \<Rightarrow> Some (Value (- 2), k)
      | Some i \<Rightarrow>
          (case returns (copy_to_user (k_mem k) (get_user_token t) ptr
                   (le_bytes 4 (word_of_int (exit_code (the (tcb k (children t ! i)))) :: u32))) of
             None \<Rightarrow> None
           | Some (Inl _) \<Rightarrow> Some (Value (- 14), k)
           | Some (Inr m) \<Rightarrow>
               map_option (\<lambda>k'. (Value (as_isize (children t ! i)), k'))
                 (tcb_drop (children t ! i)
                   (set_tcb c (t\<lparr>children := take i (children t) @ drop (Suc i) (children t)\<rparr>) (set_mem m k)))))"
proof -
  have e: "entry c k" using assms(1,2) by (simp add: entry_def)
  have ct: "current_task k = Some (c, t)" using assms(1,3) by (simp add: current_task_def)
  show ?thesis
  proof (cases "position (\<lambda>p. zombie_at k p \<and> wait_matches pid p) (children t)")
    case None
    then show ?thesis by (simp add: sys_waitpid_def ct)
  next
    case (Some i)
    then have i: "i < length (children t)" "zombie_at k (children t ! i)" using position_SomeD by blast+
    then obtain z where z: "tcb k (children t ! i) = Some z" "task_status z = Zombie"
      by (auto simp: zombie_at_def is_zombie_def split: option.splits)
    note own = zombie_sole_owner [OF e assms(3) i(1) z]
    show ?thesis
      unfolding sys_waitpid_def ct bind.simps prod.case Let_def Some option.case z(1) option.sel own
      by (auto simp: Option.map_conv_bind_option comp_def split: option.split sum.split)
  qed
qed

theorem sys_waitpid_spec_witness: "sys_waitpid (- 1) 0x1000 sample_kernel = Some (Value (- 1), sample_kernel)"
  using sys_waitpid_spec [of sample_kernel 2 sample_user "- 1" "0x1000"] sample_inv
  by (simp add: sample_tcb sample_user_def)

section \<open>Signals\<close>

text \<open>
  C8: the signal state of a task is well typed in every reachable state (32 actions, the number
  of the handled signal in range or -1, a saved context with 32 registers), and on such a task
  the delivery of signals at the end of a trap cannot index out of range: it always returns,
  and leaves the state of every task well typed.
\<close>

theorem signal_state_typed:
  assumes "procs_inv (procs k)" "k_current k = Some c"
  shows "\<exists>k'. check_pending_signals k = Some k' \<and> (\<forall>q t. tcb k' q = Some t \<longrightarrow> sig_inv t) \<and> handle_signals k \<noteq> None"
proof -
  have e: "entry c k" using assms by (simp add: entry_def)
  obtain k' where k': "check_pending_signals k = Some k'" "prun c (procs k) (procs k')" using check_pending_run [OF e] by blast
  have "tasks_inv (procs k')" using procs_inv_run [OF k'(2) assms(1)] by (simp add: procs_inv_def)
  then show ?thesis using k'(1) handle_signals_run(2) [OF e] by (auto simp: tasks_inv_def task_inv_def)
qed

theorem signal_state_typed_witness: "\<exists>k'. check_pending_signals sample_kernel = Some k'"
  using signal_state_typed [OF sample_inv sample_current(1)] by blast

lemma signal_range: "[0..<unat MAX_SIG + 1] = [0..<32]"
  by (simp add: MAX_SIG_def)

text \<open>
  C9: a signal handler returns to where the program was. When delivery has entered a handler of
  a process that was in none, the program counter is the handler and the first argument the
  signal. And in any later state, whatever else of the process has changed, \<open>sigreturn\<close> gives
  back the registers at the delivery, all 32 with the result register, the status and the
  program counter, provided that the control block still holds the context that was saved at
  that delivery (which a second signal delivered inside the handler overwrites).
\<close>

theorem signal_roundtrip:
  assumes "k_current k = Some c" "tcb k c = Some t" "handling_sig t = - 1"
    and "check_pending_signals k = Some k1" "tcb k1 c = Some t1" "handling_sig t1 \<noteq> - 1"
    and "k_current k2 = Some c" "tcb k2 c = Some t2" "trap_ctx_backup t2 = trap_ctx_backup t1"
  shows "(\<exists>s < 32. handling_sig t1 = int s \<and> get_trap_cx t1 k1 = (get_trap_cx t k)
             \<lparr>tc_sepc := sa_handler (signal_actions t ! s), tc_x := (tc_x (get_trap_cx t k))[10 := of_nat s]\<rparr>)
    \<and> (\<exists>v k3. sys_sigreturn k2 = Some (Value v, k3) \<and> tcb k3 c = Some (t2\<lparr>handling_sig := - 1\<rparr>)
         \<and> (let cx = get_trap_cx t2 k3 in cx\<lparr>tc_x := (tc_x cx)[10 := word_of_int v]\<rparr>) = get_trap_cx t k)"
proof -
  have ok: "cx_ok (get_trap_cx t k)" by (simp add: get_trap_cx_def)
  have "current_task k = Some (c, t)" using assms(1,2) by (simp add: current_task_def)
  note R = assms(4) [unfolded check_pending_signals_def this signal_range bind.simps prod.case]
  from R assms(5) obtain cx' where r: "check_pending_from [0..<32] (t, get_trap_cx t k) = Some (t1, cx')"
    and k1: "k1 = put_trap_cx t1 cx' (set_tcb c t1 k)" by (auto elim!: bind_SomeE)
  from check_pending_backup [OF r] assms(3,6) obtain s where b: "trap_ctx_backup t1 = Some (get_trap_cx t k)" "s < 32" "handling_sig t1 = int s"
    and cx': "cx' = (get_trap_cx t k)\<lparr>tc_sepc := sa_handler (signal_actions t ! s), tc_x := (tc_x (get_trap_cx t k))[10 := of_nat s]\<rparr>"
    by auto
  have "cx_ok cx'" using ok by (simp add: cx' cx_ok_def)
  then have "get_trap_cx t1 k1 = cx'" by (simp add: k1 get_trap_cx_def put_trap_cx_def set_mem_def trap_cx_at_set)
  moreover have "trap_ctx_backup t2 = Some (get_trap_cx t k)" using assms(9) b(1) by simp
  ultimately show ?thesis using sigreturn_restores [OF assms(7,8) _ ok] b(2,3) cx' by blast
qed

definition sample_handler_task :: TaskControlBlock where
  "sample_handler_task = sample_user\<lparr>signals := 2, signal_actions := signal_actions_default[1 := \<lparr>sa_handler = 0x1000, sa_mask = 0\<rparr>]\<rparr>"

lemma sample_delivery:
  "check_pending_from [0..<32] (sample_handler_task, cx) =
     Some (sample_handler_task\<lparr>handling_sig := 1, signals := 0, trap_ctx_backup := Some cx\<rparr>,
           cx\<lparr>tc_sepc := 0x1000, tc_x := (tc_x cx)[10 := 1]\<rparr>)"
proof -
  have "[0..<32] = 0 # 1 # [2..<32]" by (simp add: upt_conv_Cons)
  then show ?thesis
    by (simp add: sample_handler_task_def sample_user_def sample_task_def sig_contains_def sig_bit_def handler_masks_def
        signal_consts call_user_signal_handler_def signal_actions_default_def MAX_SIG_def)
qed

text \<open>In the example the handler has closed its descriptors and another signal is pending when it returns.\<close>

theorem signal_roundtrip_witness:
  "\<exists>(k2 :: (unit, unit) kernel) t2 v k3. handling_sig t2 = 1 \<and> signals t2 = 4 \<and> fd_table t2 = []
     \<and> sys_sigreturn k2 = Some (Value v, k3)
     \<and> (let cx = get_trap_cx t2 k3 in cx\<lparr>tc_x := (tc_x cx)[10 := word_of_int v]\<rparr>)
         = get_trap_cx sample_handler_task (set_tcb 2 sample_handler_task sample_kernel)"
proof -
  let ?k = "set_tcb 2 sample_handler_task sample_kernel"
  let ?t1 = "sample_handler_task\<lparr>handling_sig := 1, signals := 0, trap_ctx_backup := Some (get_trap_cx sample_handler_task ?k)\<rparr>"
  let ?t2 = "?t1\<lparr>signals := 4, fd_table := []\<rparr>"
  obtain k1 where k1: "check_pending_signals ?k = Some k1" "tcb k1 2 = Some ?t1" "k_current k1 = Some 2"
    by (simp add: check_pending_signals_def [unfolded signal_range] current_task_def sample_delivery)
  let ?k2 = "set_tcb 2 ?t2 k1"
  have h: "handling_sig sample_handler_task = - 1" by (simp add: sample_handler_task_def sample_user_def sample_task_def)
  have k2: "k_current ?k2 = Some 2" "tcb ?k2 2 = Some ?t2" using k1(3) by simp_all
  from signal_roundtrip [OF _ _ h k1(1,2) _ k2] obtain v k3 where "sys_sigreturn ?k2 = Some (Value v, k3)"
      "(let cx = get_trap_cx ?t2 k3 in cx\<lparr>tc_x := (tc_x cx)[10 := word_of_int v]\<rparr>) = get_trap_cx sample_handler_task ?k" by auto
  then show ?thesis by (intro exI [of _ ?k2] exI [of _ ?t2]) simp
qed

end
